(* ===== verification/Prelude.thy ===== *)
theory Prelude
  imports Main "HOL-Library.Word" "HOL-Library.List_Lexorder" "HOL-Library.Char_ord"
begin

text \<open>
  Shared vocabulary of the development: names for the machine integers and
  times of the Rust program, the two map types of the standard library that
  the program uses (\<open>HashMap\<close> and \<open>BTreeMap\<close>) as association
  lists behind one interface, UTF-8 strings as byte lists, decimal printing,
  and the generic list lemmas that the component theories share.
\<close>

section \<open>Names and collections\<close>

type_synonym u8 = "8 word"
type_synonym u32 = "32 word"
type_synonym u64 = "64 word"
type_synonym i64 = "64 word"

text \<open>
  \<open>Instant\<close> and \<open>Duration\<close> are counted in milliseconds.
  \<open>Instant::duration_since\<close> saturates at zero, which is what subtraction
  on \<open>nat\<close> does.
\<close>

type_synonym instant = nat
type_synonym duration = nat

text \<open>A fallible Rust function \<open>Result<'a, 'e>\<close>: \<open>Inl\<close> is \<open>Err\<close>.\<close>

type_synonym ('e, 'a) res = "'e + 'a"

abbreviation Err :: "'e \<Rightarrow> ('e, 'a) res" where "Err e \<equiv> Inl e"
abbreviation Ok :: "'a \<Rightarrow> ('e, 'a) res" where "Ok a \<equiv> Inr a"

fun result_ok :: "('e, 'a) res \<Rightarrow> 'a option" where
  "result_ok (Inl e) = None"
| "result_ok (Inr a) = Some a"

definition unwrap_or :: "'a \<Rightarrow> 'a option \<Rightarrow> 'a" where
  "unwrap_or d x = (case x of None \<Rightarrow> d | Some a \<Rightarrow> a)"

lemma unwrap_or_simps [simp]:
  "unwrap_or d None = d" "unwrap_or d (Some a) = a"
  by (simp_all add: unwrap_or_def)

named_theorems map_laws \<open>laws of the map operations\<close>
named_theorems inv_intros \<open>introduction rules of the component invariants\<close>

section \<open>A finite map interface and its two implementations\<close>

text \<open>
  \<open>get\<close>, \<open>put\<close> and \<open>del\<close> are the operations every client uses;
  \<open>entries\<close> is what iteration yields. \<open>ok\<close> is the representation
  invariant.
\<close>

locale finite_map =
  fixes get :: "'m \<Rightarrow> 'k \<Rightarrow> 'v option"
    and put :: "'k \<Rightarrow> 'v \<Rightarrow> 'm \<Rightarrow> 'm"
    and del :: "'k \<Rightarrow> 'm \<Rightarrow> 'm"
    and entries :: "'m \<Rightarrow> ('k \<times> 'v) list"
    and ok :: "'m \<Rightarrow> bool"
  assumes get_put: "ok m \<Longrightarrow> get (put k v m) j = (if j = k then Some v else get m j)"
    and get_del: "ok m \<Longrightarrow> get (del k m) j = (if j = k then None else get m j)"
    and ok_put: "ok m \<Longrightarrow> ok (put k v m)"
    and ok_del: "ok m \<Longrightarrow> ok (del k m)"
    and get_entries: "ok m \<Longrightarrow> get m k = map_of (entries m) k"
    and distinct_entries: "ok m \<Longrightarrow> distinct (map fst (entries m))"
begin

lemma get_put_same: "ok m \<Longrightarrow> get (put k v m) k = Some v"
  by (simp add: get_put)

lemma get_put_other: "ok m \<Longrightarrow> j \<noteq> k \<Longrightarrow> get (put k v m) j = get m j"
  by (simp add: get_put)

lemma entries_get: "ok m \<Longrightarrow> (k, v) \<in> set (entries m) \<longleftrightarrow> get m k = Some v"
  by (simp add: get_entries distinct_entries)

lemma keys_get: "ok m \<Longrightarrow> k \<in> fst ` set (entries m) \<longleftrightarrow> get m k \<noteq> None"
  by (simp add: get_entries map_of_eq_None_iff)

lemma entries_put:
  "ok m \<Longrightarrow> set (entries (put k v m)) = insert (k, v) {e \<in> set (entries m). fst e \<noteq> k}"
  by (auto simp: entries_get ok_put get_put split: if_splits)

lemma entries_del: "ok m \<Longrightarrow> set (entries (del k m)) = {e \<in> set (entries m). fst e \<noteq> k}"
  by (auto simp: entries_get ok_del get_del split: if_splits)

lemma put_overwrites:
  "ok m \<Longrightarrow> get (put k w (put k v m)) j = get (put k w m) j"
  by (simp add: get_put ok_put)

lemma length_entries: "ok m \<Longrightarrow> length (entries m) = card {k. get m k \<noteq> None}"
proof -
  assume m: "ok m"
  have "length (entries m) = card (fst ` set (entries m))"
    using distinct_entries [OF m] by (metis distinct_card image_set length_map)
  also have "fst ` set (entries m) = {k. get m k \<noteq> None}"
    using keys_get [OF m] by auto
  finally show ?thesis .
qed

end

text \<open>
  \<open>HashMap\<close>: keys are unique, and nothing is known of the order in which the
  entries are visited. The list order stands for that order; no theorem assumes
  more of it than that the keys are distinct.
\<close>

type_synonym ('k, 'v) hash_map = "('k \<times> 'v) list"

definition hm_ok :: "('k, 'v) hash_map \<Rightarrow> bool" where
  "hm_ok m \<longleftrightarrow> distinct (map fst m)"

fun hm_put :: "'k \<Rightarrow> 'v \<Rightarrow> ('k, 'v) hash_map \<Rightarrow> ('k, 'v) hash_map" where
  "hm_put k v [] = [(k, v)]"
| "hm_put k v (e # m) = (if fst e = k then (k, v) # m else e # hm_put k v m)"

definition hm_del :: "'k \<Rightarrow> ('k, 'v) hash_map \<Rightarrow> ('k, 'v) hash_map" where
  "hm_del k m = filter (\<lambda>e. fst e \<noteq> k) m"

lemma hm_put_keys: "set (map fst (hm_put k v m)) = insert k (set (map fst m))"
  by (induction m) auto

lemma set_hm_put: "set (hm_put k v m) \<subseteq> insert (k, v) (set m)"
  by (induction m) auto

lemma hm_put_entry: "e \<in> set (hm_put k v m) \<Longrightarrow> e = (k, v) \<or> e \<in> set m"
  using set_hm_put by fastforce

lemma hm_put_nonempty: "hm_put k v m \<noteq> []"
  by (cases m) auto

lemma hm_put_get: "map_of (hm_put k v m) j = (if j = k then Some v else map_of m j)"
  by (induction m) auto

lemma hm_put_ok: "hm_ok m \<Longrightarrow> hm_ok (hm_put k v m)"
  unfolding hm_ok_def
proof (induction m)
  case (Cons e m)
  then show ?case using hm_put_keys [of k v m] by auto
qed simp

lemma hm_del_get: "map_of (hm_del k m) j = (if j = k then None else map_of m j)"
  by (induction m) (auto simp: hm_del_def)

lemma hm_del_ok: "hm_ok m \<Longrightarrow> hm_ok (hm_del k m)"
  unfolding hm_ok_def hm_del_def by (induction m) auto

lemma hm_ok_Nil [simp]: "hm_ok []"
  by (simp add: hm_ok_def)

interpretation hm: finite_map map_of hm_put hm_del "\<lambda>m. m" hm_ok
  by unfold_locales (simp_all add: hm_put_get hm_del_get hm_put_ok hm_del_ok, simp add: hm_ok_def)

lemmas [map_laws] = hm_put_get hm_del_get

text \<open>\<open>retain\<close> on a \<open>HashMap\<close>.\<close>

definition hm_retain :: "('k \<Rightarrow> 'v \<Rightarrow> bool) \<Rightarrow> ('k, 'v) hash_map \<Rightarrow> ('k, 'v) hash_map" where
  "hm_retain p m = filter (\<lambda>e. p (fst e) (snd e)) m"

lemma hm_retain_ok: "hm_ok m \<Longrightarrow> hm_ok (hm_retain p m)"
  unfolding hm_ok_def hm_retain_def by (induction m) auto

lemma hm_retain_get:
  "hm_ok m \<Longrightarrow> map_of (hm_retain p m) k =
     (case map_of m k of None \<Rightarrow> None | Some v \<Rightarrow> if p k v then Some v else None)"
proof (induction m)
  case (Cons e m)
  obtain j w where e: "e = (j, w)" by (cases e)
  from Cons.prems have m: "hm_ok m" and j: "map_of m j = None"
    by (auto simp: hm_ok_def e map_of_eq_None_iff)
  from Cons.IH [OF m] j show ?case
    by (auto simp: hm_retain_def e split: option.splits)
qed (simp add: hm_retain_def)

lemma hm_retain_length: "length (hm_retain p m) \<le> length m"
  by (simp add: hm_retain_def)

lemma hm_retain_same_length:
  "length (hm_retain p m) = length m \<longleftrightarrow> (\<forall>e\<in>set m. p (fst e) (snd e))"
proof
  show "\<forall>e\<in>set m. p (fst e) (snd e)" if "length (hm_retain p m) = length m"
    using that unfolding hm_retain_def by (metis filter_id_conv length_filter_less less_irrefl)
qed (simp add: hm_retain_def)

text \<open>
  \<open>BTreeMap\<close>: the entries are visited in ascending key order, so a map is a
  strictly sorted association list.
\<close>

type_synonym ('k, 'v) btree_map = "('k \<times> 'v) list"

definition bm_ok :: "('k :: linorder, 'v) btree_map \<Rightarrow> bool" where
  "bm_ok m \<longleftrightarrow> sorted_wrt (<) (map fst m)"

lemma bm_ok_Nil [simp]: "bm_ok []"
  by (simp add: bm_ok_def)

fun bm_put :: "'k :: linorder \<Rightarrow> 'v \<Rightarrow> ('k, 'v) btree_map \<Rightarrow> ('k, 'v) btree_map" where
  "bm_put k v [] = [(k, v)]"
| "bm_put k v (e # m) =
     (if k < fst e then (k, v) # e # m
      else if k = fst e then (k, v) # m
      else e # bm_put k v m)"

definition bm_del :: "'k \<Rightarrow> ('k, 'v) btree_map \<Rightarrow> ('k, 'v) btree_map" where
  "bm_del k m = filter (\<lambda>e. fst e \<noteq> k) m"

lemma bm_put_get: "map_of (bm_put k v m) j = (if j = k then Some v else map_of m j)"
  by (induction m) auto

lemma bm_put_keys: "set (map fst (bm_put k v m)) = insert k (set (map fst m))"
  by (induction m) auto

lemma bm_put_ok: "bm_ok m \<Longrightarrow> bm_ok (bm_put k v m)"
  unfolding bm_ok_def
proof (induction m)
  case (Cons e m)
  then show ?case using bm_put_keys [of k v m] by (auto intro: less_trans)
qed simp

lemma bm_del_get: "map_of (bm_del k m) j = (if j = k then None else map_of m j)"
  by (induction m) (auto simp: bm_del_def)

lemma bm_del_ok: "bm_ok m \<Longrightarrow> bm_ok (bm_del k m)"
  unfolding bm_ok_def bm_del_def by (induction m) auto

lemma bm_ok_distinct: "bm_ok m \<Longrightarrow> distinct (map fst m)"
  unfolding bm_ok_def by (simp add: strict_sorted_iff)

interpretation bm: finite_map map_of bm_put bm_del "\<lambda>m. m" bm_ok
  by unfold_locales (auto simp: bm_put_get bm_del_get bm_put_ok bm_del_ok bm_ok_distinct)

lemmas [map_laws] = bm_put_get bm_del_get

text \<open>Two ordered maps with the same contents are the same list.\<close>

lemma bm_ext:
  assumes "bm_ok m" "bm_ok n" "\<And>k. map_of m k = map_of n k"
  shows "m = n"
proof -
  have set_eq: "set m = set n"
  proof (rule set_eqI)
    fix e :: "'a \<times> 'b"
    obtain k v where e: "e = (k, v)" by (cases e)
    show "e \<in> set m \<longleftrightarrow> e \<in> set n"
      unfolding e bm.entries_get [OF assms(1)] bm.entries_get [OF assms(2)] assms(3) ..
  qed
  have keys: "sorted (map fst l)" "distinct (map fst l)" if "bm_ok l" for l :: "('a \<times> 'b) list"
    using that by (auto simp: bm_ok_def strict_sorted_iff)
  have "inj_on fst (set m \<union> set n)"
    using keys(2) [OF assms(1)] by (simp add: set_eq [symmetric] distinct_map)
  then show ?thesis
    using keys [OF assms(1)] keys [OF assms(2)] set_eq by (metis map_sorted_distinct_set_unique)
qed

section \<open>Runs\<close>

text \<open>
  A component that takes one event at a time. What every step keeps holds after every
  sequence of events.
\<close>

locale event_machine =
  fixes step :: "'s \<Rightarrow> 'e \<Rightarrow> 's"
    and inv :: "'s \<Rightarrow> bool"
  assumes keeps: "inv s \<Longrightarrow> inv (step s e)"
begin

lemma run_keeps: "inv s \<Longrightarrow> inv (foldl step s es)"
  by (induction es arbitrary: s) (simp_all add: keeps)

end

section \<open>Strings\<close>

text \<open>
  A Rust \<open>String\<close> is its UTF-8 bytes, here a \<open>char list\<close> with one
  \<open>char\<close> per byte; \<open>len\<close> is \<open>length\<close> and \<open>Ord\<close> on
  strings is the lexicographic order of the bytes. \<open>utf8_chars\<close> groups the
  bytes into the \<open>char\<close>s that \<open>str::chars\<close> yields: a lead byte and
  the continuation bytes \<open>10xxxxxx\<close> after it.
\<close>

definition cont_byte :: "char \<Rightarrow> bool" where
  "cont_byte c \<longleftrightarrow> 128 \<le> (of_char c :: nat) \<and> (of_char c :: nat) < 192"

function utf8_chars :: "string \<Rightarrow> string list" where
  "utf8_chars [] = []"
| "utf8_chars (c # cs) = (c # takeWhile cont_byte cs) # utf8_chars (dropWhile cont_byte cs)"
  by pat_completeness auto
termination
  by (relation "measure length") (auto simp: le_imp_less_Suc length_dropWhile_le)

lemma concat_utf8_chars [simp]: "concat (utf8_chars s) = s"
  by (induction s rule: utf8_chars.induct) simp_all

text \<open>\<open>char::is_control\<close>: U+0000..U+001F and U+007F..U+009F.\<close>

definition is_control :: "string \<Rightarrow> bool" where
  "is_control ch \<longleftrightarrow> (case map of_char ch of
       [a :: nat] \<Rightarrow> a < 32 \<or> a = 127
     | [a, b] \<Rightarrow> a = 194 \<and> b < 160
     | _ \<Rightarrow> False)"

text \<open>\<open>char::is_whitespace\<close>: the Unicode property \<open>White_Space\<close>.\<close>

definition is_white :: "string \<Rightarrow> bool" where
  "is_white ch \<longleftrightarrow> (case map of_char ch of
       [a :: nat] \<Rightarrow> (9 \<le> a \<and> a \<le> 13) \<or> a = 32
     | [a, b] \<Rightarrow> a = 194 \<and> (b = 133 \<or> b = 160)
     | [a, b, c] \<Rightarrow>
         (a = 225 \<and> b = 154 \<and> c = 128) \<or>
         (a = 226 \<and> b = 128 \<and> (c \<le> 138 \<or> c = 168 \<or> c = 169 \<or> c = 175)) \<or>
         (a = 226 \<and> b = 129 \<and> c = 159) \<or>
         (a = 227 \<and> b = 128 \<and> c = 128)
     | _ \<Rightarrow> False)"

definition str_trim :: "string \<Rightarrow> string" where
  "str_trim s = concat (rev (dropWhile is_white (rev (dropWhile is_white (utf8_chars s)))))"

definition starts_with :: "string \<Rightarrow> string \<Rightarrow> bool" where
  "starts_with p s \<longleftrightarrow> take (length p) s = p"

fun str_contains :: "string \<Rightarrow> string \<Rightarrow> bool" where
  "str_contains p [] \<longleftrightarrow> p = []"
| "str_contains p (c # cs) \<longleftrightarrow> starts_with p (c # cs) \<or> str_contains p cs"

fun str_join :: "string \<Rightarrow> string list \<Rightarrow> string" where
  "str_join sep [] = []"
| "str_join sep [s] = s"
| "str_join sep (s # t # ts) = s @ sep @ str_join sep (t # ts)"

abbreviation quote :: char where "quote \<equiv> CHR 0x27"

text \<open>\<open>format!\<close> of an unsigned integer.\<close>

fun show_nat :: "nat \<Rightarrow> string" where
  "show_nat n = (if n < 10 then [char_of (48 + n)]
                 else show_nat (n div 10) @ [char_of (48 + n mod 10)])"

declare show_nat.simps [simp del]

definition read_nat :: "string \<Rightarrow> nat" where
  "read_nat = foldl (\<lambda>a c. a * 10 + (of_char c - 48)) 0"

lemma read_show_nat [simp]: "read_nat (show_nat n) = n"
proof (induction n rule: show_nat.induct)
  case (1 n)
  show ?case
  proof (cases "n < 10")
    case True
    then show ?thesis by (subst show_nat.simps) (simp add: read_nat_def)
  next
    case False
    from 1 [OF False] False show ?thesis
      by (subst show_nat.simps) (simp add: read_nat_def)
  qed
qed

lemma show_nat_inject [simp]: "show_nat m = show_nat n \<longleftrightarrow> m = n"
  by (metis read_show_nat)

definition show_int :: "int \<Rightarrow> string" where
  "show_int i = (if i < 0 then CHR ''-'' # show_nat (nat (- i)) else show_nat (nat i))"

section \<open>Words\<close>

lemma unat_succ:
  fixes n :: "'a :: len word"
  assumes "n \<noteq> -1"
  shows "unat (n + 1) = Suc (unat n)"
proof -
  have "1 + n \<noteq> 0" using assms by (metis add.commute add_eq_0_iff)
  then show ?thesis by (metis add.commute unatSuc)
qed

section \<open>Lists\<close>

lemma find_Some_iff_first:
  "find P xs = Some x \<Longrightarrow> P x \<and> x \<in> set xs"
  by (auto simp: find_Some_iff)

lemma map_of_map_snd: "map_of (map (\<lambda>e. (fst e, f (snd e))) m) k = map_option f (map_of m k)"
  by (induction m) auto

lemma sorted_wrt_map_fst_snd [simp]:
  "map fst (map (\<lambda>e. (fst e, f (snd e))) m) = map fst m"
  by simp

lemma length_filter_eq_count: "length (filter (\<lambda>y. y = x) xs) = count_list xs x"
  by (induction xs) auto

end
