(* ===== verification/Json.thy ===== *)
theory Json
  imports Prelude
begin

text \<open>
  JSON values as the program sees them through \<open>serde_json::Value\<close>, and
  the meaning of the \<open>serde\<close> attributes that the program's structs carry.
  The crate is built without \<open>preserve_order\<close> (see \<open>Cargo.lock\<close>), so
  an object is a \<open>BTreeMap\<close>. Reading and printing JSON text belongs to the
  crate: where the program does it, the reader and the printer are parameters.
\<close>

section \<open>Values\<close>

text \<open>
  \<open>serde_json::Number\<close>: a non-negative integer, a negative integer, or a
  float (kept as its bit pattern; the program never computes with it).
\<close>

datatype jnum = PosInt u64 | NegInt i64 | JFloat u64

datatype json =
    JNull
  | JBool bool
  | JNumber jnum
  | JString string
  | JArray "json list"
  | JObject "(string \<times> json) list"

type_synonym jobject = "(string, json) btree_map"

fun as_str :: "json \<Rightarrow> string option" where
  "as_str (JString s) = Some s"
| "as_str _ = None"

fun as_object :: "json \<Rightarrow> jobject option" where
  "as_object (JObject m) = Some m"
| "as_object _ = None"

fun as_array :: "json \<Rightarrow> json list option" where
  "as_array (JArray xs) = Some xs"
| "as_array _ = None"

text \<open>\<open>Number::as_i64\<close> and \<open>Number::as_u64\<close>.\<close>

fun num_as_i64 :: "jnum \<Rightarrow> i64 option" where
  "num_as_i64 (PosInt n) = (if 0 \<le> sint n then Some n else None)"
| "num_as_i64 (NegInt n) = Some n"
| "num_as_i64 (JFloat _) = None"

fun as_u64 :: "json \<Rightarrow> u64 option" where
  "as_u64 (JNumber (PosInt n)) = Some n"
| "as_u64 _ = None"

definition num_of_i64 :: "i64 \<Rightarrow> jnum" where
  "num_of_i64 n = (if sint n < 0 then NegInt n else PosInt n)"

lemma num_as_i64_of [simp]: "num_as_i64 (num_of_i64 n) = Some n"
  by (simp add: num_of_i64_def)

definition jget :: "string \<Rightarrow> json \<Rightarrow> json option" where
  "jget k v = (case v of JObject m \<Rightarrow> map_of m k | _ \<Rightarrow> None)"

text \<open>The \<open>json!\<close> macro on an object literal.\<close>

definition jobj_list :: "(string \<times> json) list \<Rightarrow> jobject" where
  "jobj_list kvs = foldl (\<lambda>m e. bm_put (fst e) (snd e) m) [] kvs"

definition jobj :: "(string \<times> json) list \<Rightarrow> json" where
  "jobj kvs = JObject (jobj_list kvs)"

lemma foldl_bm_put_get:
  "map_of (foldl (\<lambda>m e. bm_put (fst e) (snd e) m) m kvs) k =
     (case map_of (rev kvs) k of None \<Rightarrow> map_of m k | Some v \<Rightarrow> Some v)"
  by (induction kvs arbitrary: m) (auto simp: map_laws split: option.splits)

lemma foldl_bm_put_ok:
  "bm_ok m \<Longrightarrow> bm_ok (foldl (\<lambda>m e. bm_put (fst e) (snd e) m) m kvs)"
  by (induction kvs arbitrary: m) (simp_all add: bm_put_ok)

lemma map_of_jobj_list [simp]: "map_of (jobj_list kvs) k = map_of (rev kvs) k"
  by (simp add: jobj_list_def foldl_bm_put_get split: option.splits)

lemma jobj_list_ok: "bm_ok (jobj_list kvs)"
  by (simp add: jobj_list_def foldl_bm_put_ok)

lemma jget_jobj [simp]: "jget k (jobj kvs) = map_of (rev kvs) k"
  by (simp add: jget_def jobj_def)

lemma as_object_jobj [simp]: "as_object (jobj kvs) = Some (jobj_list kvs)"
  by (simp add: jobj_def)

text \<open>Every object inside a value has unique keys in ascending order.\<close>

fun wf_json :: "json \<Rightarrow> bool" where
  "wf_json (JArray xs) \<longleftrightarrow> (\<forall>x \<in> set xs. wf_json x)"
| "wf_json (JObject m) \<longleftrightarrow> bm_ok m \<and> (\<forall>e \<in> set m. wf_json (snd e))"
| "wf_json _ \<longleftrightarrow> True"

lemma wf_json_bm_put:
  assumes "wf_json (JObject m)" "wf_json v"
  shows "wf_json (JObject (bm_put k v m))"
  using assms bm.entries_put [of m k v] by (auto simp: bm_put_ok)

lemma wf_json_jobj: "\<forall>e \<in> set kvs. wf_json (snd e) \<Longrightarrow> wf_json (jobj kvs)"
proof -
  have "wf_json (JObject (foldl (\<lambda>m e. bm_put (fst e) (snd e) m) m kvs))"
    if "wf_json (JObject m)" "\<forall>e \<in> set kvs. wf_json (snd e)" for m
    using that
  proof (induction kvs arbitrary: m)
    case (Cons e kvs)
    then show ?case by (simp del: wf_json.simps) (metis wf_json_bm_put)
  qed simp
  from this [of "[]"] show "wf_json (jobj kvs)" if "\<forall>e \<in> set kvs. wf_json (snd e)"
    using that by (simp add: jobj_def jobj_list_def bm_ok_def)
qed

section \<open>Derived deserialisers\<close>

text \<open>
  \<open>#[derive(Deserialize)]\<close> on a struct reads an object by field name
  (unknown names are ignored unless \<open>deny_unknown_fields\<close> is given) or an
  array by position; a missing trailing position is a missing field.
\<close>

fun struct_map :: "string list \<Rightarrow> json \<Rightarrow> (string \<times> json) list option" where
  "struct_map fs (JObject m) = Some m"
| "struct_map fs (JArray xs) = (if length xs \<le> length fs then Some (zip fs xs) else None)"
| "struct_map fs _ = None"

lemma struct_map_jobj [simp]: "struct_map fs (jobj kvs) = Some (jobj_list kvs)"
  by (simp add: jobj_def)

text \<open>A required field, and a field with \<open>#[serde(default)]\<close>.\<close>

definition field_req :: "(json \<Rightarrow> 'a option) \<Rightarrow> string \<Rightarrow> (string \<times> json) list \<Rightarrow> 'a option" where
  "field_req d k m = Option.bind (map_of m k) d"

definition field_default :: "'a \<Rightarrow> (json \<Rightarrow> 'a option) \<Rightarrow> string \<Rightarrow> (string \<times> json) list \<Rightarrow> 'a option" where
  "field_default a d k m = (case map_of m k of None \<Rightarrow> Some a | Some v \<Rightarrow> d v)"

text \<open>\<open>Option<T>\<close> reads \<open>null\<close> as \<open>None\<close>.\<close>

definition dec_option :: "(json \<Rightarrow> 'a option) \<Rightarrow> json \<Rightarrow> 'a option option" where
  "dec_option d v = (case v of JNull \<Rightarrow> Some None | _ \<Rightarrow> map_option Some (d v))"

abbreviation field_opt :: "(json \<Rightarrow> 'a option) \<Rightarrow> string \<Rightarrow> (string \<times> json) list \<Rightarrow> 'a option option" where
  "field_opt d k m \<equiv> field_default None (dec_option d) k m"

fun dec_bool :: "json \<Rightarrow> bool option" where
  "dec_bool (JBool b) = Some b"
| "dec_bool _ = None"

abbreviation dec_string :: "json \<Rightarrow> string option" where "dec_string \<equiv> as_str"

definition dec_value :: "json \<Rightarrow> json option" where "dec_value v = Some v"

fun dec_i64 :: "json \<Rightarrow> i64 option" where
  "dec_i64 (JNumber n) = num_as_i64 n"
| "dec_i64 _ = None"

fun dec_u32 :: "json \<Rightarrow> u32 option" where
  "dec_u32 (JNumber (PosInt n)) = (if unat n < 2 ^ 32 then Some (ucast n) else None)"
| "dec_u32 _ = None"

fun dec_u8 :: "json \<Rightarrow> u8 option" where
  "dec_u8 (JNumber (PosInt n)) = (if unat n < 2 ^ 8 then Some (ucast n) else None)"
| "dec_u8 _ = None"

text \<open>\<open>Vec<T>\<close>: an array all of whose elements read.\<close>

fun dec_all :: "(json \<Rightarrow> 'a option) \<Rightarrow> json list \<Rightarrow> 'a list option" where
  "dec_all d [] = Some []"
| "dec_all d (x # xs) =
     Option.bind (d x) (\<lambda>a. Option.bind (dec_all d xs) (\<lambda>as. Some (a # as)))"

definition dec_list :: "(json \<Rightarrow> 'a option) \<Rightarrow> json \<Rightarrow> 'a list option" where
  "dec_list d v = Option.bind (as_array v) (dec_all d)"

lemma dec_all_map: "(\<And>a. a \<in> set as \<Longrightarrow> d (e a) = Some a) \<Longrightarrow> dec_all d (map e as) = Some as"
  by (induction as) auto

lemma dec_list_map: "(\<And>a. a \<in> set as \<Longrightarrow> d (e a) = Some a) \<Longrightarrow> dec_list d (JArray (map e as)) = Some as"
  by (simp add: dec_list_def dec_all_map)

lemma dec_value_simp [simp]: "dec_value v = Some v"
  by (simp add: dec_value_def)

definition enc_nat :: "nat \<Rightarrow> json" where "enc_nat n = JNumber (PosInt (of_nat n))"
definition enc_u32 :: "u32 \<Rightarrow> json" where "enc_u32 n = JNumber (PosInt (ucast n))"
definition enc_u64 :: "u64 \<Rightarrow> json" where "enc_u64 n = JNumber (PosInt n)"
definition enc_i64 :: "i64 \<Rightarrow> json" where "enc_i64 n = JNumber (num_of_i64 n)"

text \<open>\<open>skip_serializing_if = "Option::is_none"\<close>.\<close>

definition enc_opt :: "string \<Rightarrow> ('a \<Rightarrow> json) \<Rightarrow> 'a option \<Rightarrow> (string \<times> json) list" where
  "enc_opt k e x = (case x of None \<Rightarrow> [] | Some a \<Rightarrow> [(k, e a)])"

lemma enc_opt_simps [simp]: "enc_opt k e None = []" "enc_opt k e (Some a) = [(k, e a)]"
  by (simp_all add: enc_opt_def)

lemma dec_option_Some: "v \<noteq> JNull \<Longrightarrow> dec_option d v = map_option Some (d v)"
  by (cases v) (simp_all add: dec_option_def)

lemma dec_option_JNull [simp]: "dec_option d JNull = Some None"
  by (simp add: dec_option_def)

lemma dec_option_JString [simp]: "dec_option dec_string (JString s) = Some (Some s)"
  by (simp add: dec_option_def)

lemma dec_i64_enc [simp]: "dec_i64 (enc_i64 n) = Some n"
  by (simp add: enc_i64_def)

lemma dec_u32_enc [simp]: "dec_u32 (enc_u32 n) = Some n"
proof -
  have lt: "unat n < 2 ^ 32" using unsigned_less [of n, where ?'a = nat] by simp
  then have "unat n < 2 ^ 64" by simp
  then have "unat (ucast n :: u64) = unat n"
    by (simp add: unsigned_ucast_eq take_bit_nat_eq_self)
  moreover have "ucast (ucast n :: u64) = n"
    by (rule bit_word_eqI) (simp add: bit_simps)
  ultimately show ?thesis using lt by (simp add: enc_u32_def)
qed

end
