(* ===== verification/Protocol.thy ===== *)
theory Protocol
  imports Json
begin

text \<open>
  The JSON-RPC wire protocol between the manager and its clients
  (\<open>src/session_manager/protocol.rs\<close>): identifiers, error objects, the three
  message shapes with their reader and printer, and the parameter and result
  structs of the individual methods.
\<close>

section \<open>Identifiers and errors\<close>

datatype Id = Id_String string | Id_Number i64 | Id_Null

record JsonRpcError =
  err_code :: i64
  err_message :: string
  err_data :: "json option"

definition JsonRpcError_new :: "i64 \<Rightarrow> string \<Rightarrow> JsonRpcError" where
  "JsonRpcError_new c m = \<lparr>err_code = c, err_message = m, err_data = None\<rparr>"

abbreviation SESSION_REGISTER :: string where "SESSION_REGISTER \<equiv> ''session.register''"
abbreviation SESSION_BYE :: string where "SESSION_BYE \<equiv> ''session.bye''"
abbreviation SESSION_SHUTDOWN :: string where "SESSION_SHUTDOWN \<equiv> ''session.shutdown''"
abbreviation SESSION_TOOLS_CHANGED :: string where
  "SESSION_TOOLS_CHANGED \<equiv> ''session.tools_changed''"
abbreviation TOOL_CALL :: string where "TOOL_CALL \<equiv> ''tool.call''"
abbreviation TOOL_CANCEL :: string where "TOOL_CANCEL \<equiv> ''tool.cancel''"

definition SESSION_UID_COLLISION :: i64 where "SESSION_UID_COLLISION = -32010"
definition TOOL_CANCELLED :: i64 where "TOOL_CANCELLED = -32800"
definition INVALID_REQUEST :: i64 where "INVALID_REQUEST = -32600"
definition METHOD_NOT_FOUND :: i64 where "METHOD_NOT_FOUND = -32601"
definition INVALID_PARAMS :: i64 where "INVALID_PARAMS = -32602"
definition INTERNAL_ERROR :: i64 where "INTERNAL_ERROR = -32603"
definition PARSE_ERROR :: i64 where "PARSE_ERROR = -32700"

datatype WireMessage =
    Request Id string json
  | Response Id "(JsonRpcError, json) res"
  | Notification string json

datatype WireParseError = Json_Error | JsonRpcVersion | Shape | AmbiguousResponse

fun id_from_value :: "json \<Rightarrow> (WireParseError, Id) res" where
  "id_from_value JNull = Ok Id_Null"
| "id_from_value (JString s) = Ok (Id_String s)"
| "id_from_value (JNumber n) =
     (case num_as_i64 n of Some i \<Rightarrow> Ok (Id_Number i) | None \<Rightarrow> Err Shape)"
| "id_from_value _ = Err Shape"

fun id_to_value :: "Id \<Rightarrow> json" where
  "id_to_value Id_Null = JNull"
| "id_to_value (Id_String s) = JString s"
| "id_to_value (Id_Number n) = enc_i64 n"

lemma id_roundtrip [simp]: "id_from_value (id_to_value i) = Ok i"
  by (cases i) (simp_all add: enc_i64_def)

definition decode_error :: "json \<Rightarrow> JsonRpcError option" where
  "decode_error v =
     Option.bind (struct_map [''code'', ''message'', ''data''] v) (\<lambda>m.
     Option.bind (field_req dec_i64 ''code'' m) (\<lambda>c.
     Option.bind (field_req dec_string ''message'' m) (\<lambda>msg.
     Option.bind (field_opt dec_value ''data'' m) (\<lambda>d.
       Some \<lparr>err_code = c, err_message = msg, err_data = d\<rparr>))))"

definition encode_error :: "JsonRpcError \<Rightarrow> json" where
  "encode_error e = jobj ([(''code'', enc_i64 (err_code e)), (''message'', JString (err_message e))]
     @ enc_opt ''data'' id (err_data e))"

section \<open>Messages\<close>

definition from_value :: "json \<Rightarrow> (WireParseError, WireMessage) res" where
  "from_value v = (case v of
     JObject obj \<Rightarrow>
       (if Option.bind (map_of obj ''jsonrpc'') as_str \<noteq> Some ''2.0'' then Err JsonRpcVersion
        else
          (let params = unwrap_or JNull (map_of obj ''params'') in
           case (map_of obj ''id'', Option.bind (map_of obj ''method'') as_str,
                 map_of obj ''result'' \<noteq> None, map_of obj ''error'' \<noteq> None) of
             (Some idv, Some meth, False, False) \<Rightarrow>
               (case id_from_value idv of Inl e \<Rightarrow> Err e | Inr i \<Rightarrow> Ok (Request i meth params))
           | (None, Some meth, False, False) \<Rightarrow> Ok (Notification meth params)
           | (Some idv, None, True, False) \<Rightarrow>
               (case id_from_value idv of
                  Inl e \<Rightarrow> Err e
                | Inr i \<Rightarrow> Ok (Response i (Ok (unwrap_or JNull (map_of obj ''result'')))))
           | (Some idv, None, False, True) \<Rightarrow>
               (case map_of obj ''error'' of
                  None \<Rightarrow> Err Shape
                | Some ev \<Rightarrow>
                    (case decode_error ev of
                       None \<Rightarrow> Err Json_Error
                     | Some e \<Rightarrow>
                         (case id_from_value idv of
                            Inl er \<Rightarrow> Err er
                          | Inr i \<Rightarrow> Ok (Response i (Err e)))))
           | (_, _, True, True) \<Rightarrow> Err AmbiguousResponse
           | _ \<Rightarrow> Err Shape))
   | _ \<Rightarrow> Err Shape)"

fun to_value :: "WireMessage \<Rightarrow> json" where
  "to_value (Request i meth params) =
     jobj [(''jsonrpc'', JString ''2.0''), (''id'', id_to_value i),
           (''method'', JString meth), (''params'', params)]"
| "to_value (Notification meth params) =
     jobj [(''jsonrpc'', JString ''2.0''), (''method'', JString meth), (''params'', params)]"
| "to_value (Response i (Inr v)) =
     jobj [(''jsonrpc'', JString ''2.0''), (''id'', id_to_value i), (''result'', v)]"
| "to_value (Response i (Inl e)) =
     jobj [(''jsonrpc'', JString ''2.0''), (''id'', id_to_value i), (''error'', encode_error e)]"

text \<open>
  \<open>WireMessage::parse\<close> and \<open>to_text\<close> over the JSON reader and printer of
  the \<open>serde_json\<close> crate.
\<close>

definition wire_parse :: "(string \<Rightarrow> json option) \<Rightarrow> string \<Rightarrow> (WireParseError, WireMessage) res" where
  "wire_parse from_str text = (case from_str text of None \<Rightarrow> Err Json_Error | Some v \<Rightarrow> from_value v)"

definition to_text :: "(json \<Rightarrow> string) \<Rightarrow> WireMessage \<Rightarrow> string" where
  "to_text to_string m = to_string (to_value m)"

lemma error_roundtrip:
  "err_data e \<noteq> Some JNull \<Longrightarrow> decode_error (encode_error e) = Some e"
  by (cases "err_data e")
     (simp_all add: decode_error_def encode_error_def field_req_def field_default_def dec_option_Some)

text \<open>A message other than an error response whose \<open>data\<close> is an explicit \<open>null\<close>.\<close>

fun plain_message :: "WireMessage \<Rightarrow> bool" where
  "plain_message (Response i (Inl e)) \<longleftrightarrow> err_data e \<noteq> Some JNull"
| "plain_message _ \<longleftrightarrow> True"

lemma from_to_value: "plain_message m \<Longrightarrow> from_value (to_value m) = Ok m"
  by (cases m rule: to_value.cases) (simp_all add: from_value_def jobj_def error_roundtrip)

text \<open>
  C34: reading back a printed wire message gives the same message, for every
  message whose error object does not carry an explicit \<open>null\<close> as
  \<open>data\<close>, whenever the JSON reader inverts the JSON printer on it.
\<close>

theorem wire_roundtrip:
  assumes codec: "from_str (to_string (to_value m)) = Some (to_value m)"
    and plain: "plain_message m"
  shows "wire_parse from_str (to_text to_string m) = Ok m"
  using from_to_value [OF plain] by (simp add: wire_parse_def to_text_def codec)

text \<open>A JSON printer and reader that agree on one request, for the witness.\<close>

definition sample_request :: WireMessage where
  "sample_request = Request (Id_String ''mgr-0'') TOOL_CALL (jobj [(''name'', JString ''find'')])"

theorem wire_roundtrip_witness:
  "wire_parse (\<lambda>t. if t = ''frame'' then Some (to_value sample_request) else None)
     (to_text (\<lambda>v. if v = to_value sample_request then ''frame'' else ''other'') sample_request) =
     Ok sample_request"
  by (rule wire_roundtrip) (simp_all add: sample_request_def)

section \<open>Tools and their visibility\<close>

datatype ToolVisibility = Public | Internal

definition is_public :: "ToolVisibility \<Rightarrow> bool" where
  "is_public v \<longleftrightarrow> (case v of Public \<Rightarrow> True | Internal \<Rightarrow> False)"

lemma is_public_simps [simp]: "is_public Public" "\<not> is_public Internal"
  by (simp_all add: is_public_def)

record ToolDescriptor =
  td_name :: string
  td_description :: "string option"
  td_input_schema :: json
  td_visibility :: ToolVisibility

text \<open>A unit variant reads from its name, or from an object \<open>{name: null}\<close>.\<close>

fun dec_visibility_name :: "string \<Rightarrow> ToolVisibility option" where
  "dec_visibility_name s =
     (if s = ''public'' then Some Public else if s = ''internal'' then Some Internal else None)"

fun dec_visibility :: "json \<Rightarrow> ToolVisibility option" where
  "dec_visibility (JString s) = dec_visibility_name s"
| "dec_visibility (JObject [(k, JNull)]) = dec_visibility_name k"
| "dec_visibility _ = None"

definition decode_tool :: "json \<Rightarrow> ToolDescriptor option" where
  "decode_tool v =
     Option.bind (struct_map [''name'', ''description'', ''input_schema'', ''visibility''] v) (\<lambda>m.
     Option.bind (field_req dec_string ''name'' m) (\<lambda>n.
     Option.bind (field_opt dec_string ''description'' m) (\<lambda>d.
     Option.bind (field_req dec_value ''input_schema'' m) (\<lambda>s.
     Option.bind (field_default Public dec_visibility ''visibility'' m) (\<lambda>vis.
       Some \<lparr>td_name = n, td_description = d, td_input_schema = s, td_visibility = vis\<rparr>)))))"

definition encode_tool :: "ToolDescriptor \<Rightarrow> json" where
  "encode_tool t = jobj (
     [(''name'', JString (td_name t))]
     @ enc_opt ''description'' JString (td_description t)
     @ [(''input_schema'', td_input_schema t)]
     @ (if is_public (td_visibility t) then [] else [(''visibility'', JString ''internal'')]))"

lemma tool_roundtrip: "decode_tool (encode_tool t) = Some t"
  by (cases "td_description t"; cases "td_visibility t")
     (simp_all add: decode_tool_def encode_tool_def field_req_def field_default_def)

section \<open>Registration and tool updates\<close>

record SessionRegisterParams =
  rp_client_uid :: string
  rp_kind :: string
  rp_version :: string
  rp_infobase_name :: string
  rp_ib_session_number :: u32
  rp_tools :: "ToolDescriptor list"
  rp_config_id :: "string option"
  rp_host_id :: "string option"
  rp_pid :: "u32 option"
  rp_resources :: "json list option"
  rp_prompts :: "json list option"
  rp_extras :: "json option"
  rp_cluster_server :: "string option"
  rp_database_key :: "string option"

definition deserialize_non_empty_string :: "json \<Rightarrow> string option" where
  "deserialize_non_empty_string v =
     Option.bind (dec_string v) (\<lambda>s. if s = [] then None else Some s)"

text \<open>\<open>database_key\<close> is \<open>#[serde(skip)]\<close>: it never comes from the wire.\<close>

definition register_fields :: "string list" where
  "register_fields = [''client_uid'', ''kind'', ''version'', ''infobase_name'',
     ''ib_session_number'', ''tools'', ''config_id'', ''host_id'', ''pid'', ''resources'',
     ''prompts'', ''extras'', ''cluster_server'']"

definition decode_register :: "json \<Rightarrow> SessionRegisterParams option" where
  "decode_register v =
     Option.bind (struct_map register_fields v) (\<lambda>m.
     Option.bind (field_req dec_string ''client_uid'' m) (\<lambda>uid.
     Option.bind (field_req dec_string ''kind'' m) (\<lambda>k.
     Option.bind (field_req dec_string ''version'' m) (\<lambda>ver.
     Option.bind (field_req deserialize_non_empty_string ''infobase_name'' m) (\<lambda>ib.
     Option.bind (field_req dec_u32 ''ib_session_number'' m) (\<lambda>num.
     Option.bind (field_req (dec_list decode_tool) ''tools'' m) (\<lambda>ts.
     Option.bind (field_opt dec_string ''config_id'' m) (\<lambda>cid.
     Option.bind (field_opt dec_string ''host_id'' m) (\<lambda>hid.
     Option.bind (field_opt dec_u32 ''pid'' m) (\<lambda>pid.
     Option.bind (field_opt (dec_list dec_value) ''resources'' m) (\<lambda>rs.
     Option.bind (field_opt (dec_list dec_value) ''prompts'' m) (\<lambda>ps.
     Option.bind (field_opt dec_value ''extras'' m) (\<lambda>ex.
     Option.bind (field_opt dec_string ''cluster_server'' m) (\<lambda>cs.
       Some \<lparr>rp_client_uid = uid, rp_kind = k, rp_version = ver, rp_infobase_name = ib,
         rp_ib_session_number = num, rp_tools = ts, rp_config_id = cid, rp_host_id = hid,
         rp_pid = pid, rp_resources = rs, rp_prompts = ps, rp_extras = ex,
         rp_cluster_server = cs, rp_database_key = None\<rparr>))))))))))))))"

record SessionRegisterResult =
  rr_session_id :: string
  rr_server_version :: string
  rr_heartbeat_interval_ms :: u64
  rr_idle_timeout_secs :: u64
  rr_reconnected :: bool

definition is_false_default :: "bool \<Rightarrow> bool" where "is_false_default b \<longleftrightarrow> \<not> b"

definition encode_register_result :: "SessionRegisterResult \<Rightarrow> json" where
  "encode_register_result r = jobj (
     [(''session_id'', JString (rr_session_id r)),
      (''server_version'', JString (rr_server_version r)),
      (''heartbeat_interval_ms'', enc_u64 (rr_heartbeat_interval_ms r)),
      (''idle_timeout_secs'', enc_u64 (rr_idle_timeout_secs r))]
     @ (if is_false_default (rr_reconnected r) then [] else [(''reconnected'', JBool True)]))"

record SessionToolsChangedParams =
  tc_tools :: "ToolDescriptor list"
  tc_resources :: "json list option"
  tc_prompts :: "json list option"

definition decode_tools_changed :: "json \<Rightarrow> SessionToolsChangedParams option" where
  "decode_tools_changed v =
     Option.bind (struct_map [''tools'', ''resources'', ''prompts''] v) (\<lambda>m.
     Option.bind (field_req (dec_list decode_tool) ''tools'' m) (\<lambda>ts.
     Option.bind (field_opt (dec_list dec_value) ''resources'' m) (\<lambda>rs.
     Option.bind (field_opt (dec_list dec_value) ''prompts'' m) (\<lambda>ps.
       Some \<lparr>tc_tools = ts, tc_resources = rs, tc_prompts = ps\<rparr>))))"

definition encode_empty_result :: json where "encode_empty_result = jobj []"

section \<open>Calls from the manager to the client\<close>

record ToolCallParams =
  cp_name :: string
  cp_arguments :: json

definition encode_call_params :: "ToolCallParams \<Rightarrow> json" where
  "encode_call_params p = jobj [(''name'', JString (cp_name p)), (''arguments'', cp_arguments p)]"

datatype ToolContent = Text_Content string | Json_Content json

record ToolCallResult =
  cr_content :: "ToolContent list"
  cr_is_error :: bool
  cr_structured_content :: "json option"

text \<open>
  An internally tagged enum reads its tag from the key \<open>type\<close> of an object,
  or from the first element of an array.
\<close>

definition decode_tagged :: "string \<Rightarrow> json \<Rightarrow> ToolContent option" where
  "decode_tagged tag body =
     (if tag = ''text'' then
        Option.bind (struct_map [''text''] body) (\<lambda>m.
          map_option Text_Content (field_req dec_string ''text'' m))
      else if tag = ''json'' then
        Option.bind (struct_map [''json''] body) (\<lambda>m.
          map_option Json_Content (field_req dec_value ''json'' m))
      else None)"

fun decode_content :: "json \<Rightarrow> ToolContent option" where
  "decode_content (JObject m) =
     Option.bind (Option.bind (map_of m ''type'') as_str) (\<lambda>tag. decode_tagged tag (JObject m))"
| "decode_content (JArray (JString tag # xs)) = decode_tagged tag (JArray xs)"
| "decode_content _ = None"

fun encode_content :: "ToolContent \<Rightarrow> json" where
  "encode_content (Text_Content s) = jobj [(''type'', JString ''text''), (''text'', JString s)]"
| "encode_content (Json_Content v) = jobj [(''type'', JString ''json''), (''json'', v)]"

definition decode_call_result :: "json \<Rightarrow> ToolCallResult option" where
  "decode_call_result v =
     Option.bind (struct_map [''content'', ''is_error'', ''structured_content''] v) (\<lambda>m.
     Option.bind (field_default [] (dec_list decode_content) ''content'' m) (\<lambda>c.
     Option.bind (field_default False dec_bool ''is_error'' m) (\<lambda>e.
     Option.bind (field_opt dec_value ''structured_content'' m) (\<lambda>sc.
       Some \<lparr>cr_content = c, cr_is_error = e, cr_structured_content = sc\<rparr>))))"

definition encode_call_result :: "ToolCallResult \<Rightarrow> json" where
  "encode_call_result r = jobj (
     [(''content'', JArray (map encode_content (cr_content r)))]
     @ (if is_false_default (cr_is_error r) then [] else [(''is_error'', JBool True)])
     @ enc_opt ''structured_content'' id (cr_structured_content r))"

record ToolCancelParams =
  tcp_id :: Id
  tcp_reason :: "string option"

definition encode_cancel_params :: "ToolCancelParams \<Rightarrow> json" where
  "encode_cancel_params p = jobj ([(''id'', id_to_value (tcp_id p))]
     @ enc_opt ''reason'' JString (tcp_reason p))"

record SessionShutdownParams =
  sp_reason :: "string option"
  sp_grace_ms :: "u64 option"

definition encode_shutdown_params :: "SessionShutdownParams \<Rightarrow> json" where
  "encode_shutdown_params p = jobj (enc_opt ''reason'' JString (sp_reason p)
     @ enc_opt ''grace_ms'' enc_u64 (sp_grace_ms p))"

lemma content_roundtrip [simp]: "decode_content (encode_content c) = Some c"
  by (cases c) (simp_all add: jobj_def decode_tagged_def field_req_def)

lemma call_result_roundtrip:
  assumes "cr_structured_content r \<noteq> Some JNull"
  shows "decode_call_result (encode_call_result r) = Some r"
proof -
  have c: "dec_list decode_content (JArray (map encode_content (cr_content r))) = Some (cr_content r)"
    by (rule dec_list_map) simp
  from assms show ?thesis
    by (cases "cr_structured_content r"; cases "cr_is_error r")
       (simp_all add: decode_call_result_def encode_call_result_def field_default_def c
          is_false_default_def dec_option_Some)
qed

lemma decode_register_checked:
  assumes "decode_register v = Some p"
  shows "rp_database_key p = None" and "rp_infobase_name p \<noteq> []"
  using assms
  by (auto simp: decode_register_def deserialize_non_empty_string_def field_req_def
        bind_eq_Some_conv split: if_splits)

end
