(* ===== verification/Connection.thy ===== *)
theory Connection
  imports Protocol
begin

text \<open>
  One WebSocket connection (\<open>src/session_manager/connection.rs\<close>): the
  outbound channel, the table of requests that wait for a response, and the
  draining of that table. A oneshot channel is a numbered cell; the pending
  table holds the sending half and the caller the receiving half.
\<close>

section \<open>State\<close>

datatype ConnectionCallError = Rejected JsonRpcError | Timeout | Disconnected | WriterClosed

datatype ConnectionState = Conn_Active | Conn_Disconnected

text \<open>
  A oneshot cell: nothing sent yet, a value sent, the sender dropped without
  sending, or the receiver dropped.
\<close>

datatype oneshot = Empty | Full "(JsonRpcError, json) res" | SenderDropped | ReceiverDropped

record ConnectionHandle =
  outbound_tx :: bool \<comment> \<open>the \<open>Option\<close> still holds the sender\<close>
  receiver_open :: bool \<comment> \<open>the writer task still holds the receiving half\<close>
  sent :: "WireMessage list" \<comment> \<open>what was put into the channel, oldest first\<close>
  pending :: "(Id, nat) hash_map"
  next_id :: u64
  conn_state :: ConnectionState
  cells :: "nat \<Rightarrow> oneshot"
  next_cell :: nat

definition conn_new :: ConnectionHandle where
  "conn_new = \<lparr>outbound_tx = True, receiver_open = True, sent = [], pending = [], next_id = 0,
     conn_state = Conn_Active, cells = (\<lambda>_. SenderDropped), next_cell = 0\<rparr>"

definition conn_is_active :: "ConnectionHandle \<Rightarrow> bool" where
  "conn_is_active h \<longleftrightarrow> conn_state h = Conn_Active"

section \<open>Operations\<close>

definition mgr_id :: "u64 \<Rightarrow> Id" where
  "mgr_id n = Id_String (''mgr-'' @ show_nat (unat n))"

definition fresh_id :: "ConnectionHandle \<Rightarrow> Id \<times> ConnectionHandle" where
  "fresh_id h = (mgr_id (next_id h), h\<lparr>next_id := next_id h + 1\<rparr>)"

text \<open>Dropping the sending half of a cell.\<close>

definition drop_sender :: "nat \<Rightarrow> (nat \<Rightarrow> oneshot) \<Rightarrow> (nat \<Rightarrow> oneshot)" where
  "drop_sender c cs = (if cs c = Empty then cs(c := SenderDropped) else cs)"

text \<open>Dropping the receiving half of a cell.\<close>

definition drop_receiver :: "nat \<Rightarrow> ConnectionHandle \<Rightarrow> ConnectionHandle" where
  "drop_receiver c h = h\<lparr>cells := (cells h)(c := ReceiverDropped)\<rparr>"

text \<open>\<open>pending.lock().remove(id)\<close>, the removed sender being dropped.\<close>

definition cancel_pending :: "Id \<Rightarrow> ConnectionHandle \<Rightarrow> ConnectionHandle" where
  "cancel_pending i h = (case map_of (pending h) i of
     None \<Rightarrow> h
   | Some c \<Rightarrow> h\<lparr>pending := hm_del i (pending h), cells := drop_sender c (cells h)\<rparr>)"

text \<open>
  The two critical sections of \<open>dispatch_request\<close> after its state check:
  entering a fresh id into the table, and sending the message. The table and the
  channel have separate locks.
\<close>

definition insert_pending :: "ConnectionHandle \<Rightarrow> (Id \<times> nat) \<times> ConnectionHandle" where
  "insert_pending h =
     (let (i, h1) = fresh_id h; c = next_cell h1 in
      ((i, c),
       (cancel_pending i h1)\<lparr>pending := hm_put i c (pending (cancel_pending i h1)),
          cells := (cells (cancel_pending i h1))(c := Empty), next_cell := Suc c\<rparr>))"

definition send_request ::
  "Id \<times> nat \<Rightarrow> string \<Rightarrow> json \<Rightarrow> ConnectionHandle \<Rightarrow>
     (ConnectionCallError, Id \<times> nat) res \<times> ConnectionHandle" where
  "send_request ic meth params h =
     (if outbound_tx h \<and> receiver_open h
      then (Ok ic, h\<lparr>sent := sent h @ [Request (fst ic) meth params]\<rparr>)
      else (Err WriterClosed, cancel_pending (fst ic) h))"

definition dispatch_request ::
  "string \<Rightarrow> json \<Rightarrow> ConnectionHandle \<Rightarrow>
     (ConnectionCallError, Id \<times> nat) res \<times> ConnectionHandle" where
  "dispatch_request meth params h =
     (if \<not> conn_is_active h then (Err Disconnected, h)
      else (let (ic, h1) = insert_pending h in send_request ic meth params h1))"

definition complete_response :: "Id \<Rightarrow> (JsonRpcError, json) res \<Rightarrow> ConnectionHandle \<Rightarrow> bool \<times> ConnectionHandle" where
  "complete_response i r h = (case map_of (pending h) i of
     None \<Rightarrow> (False, h)
   | Some c \<Rightarrow>
       (let h1 = h\<lparr>pending := hm_del i (pending h)\<rparr> in
        if cells h c = Empty then (True, h1\<lparr>cells := (cells h)(c := Full r)\<rparr>) else (False, h1)))"

text \<open>The three parts of \<open>drain_pending\<close>, each atomic.\<close>

definition drain_state :: "ConnectionHandle \<Rightarrow> ConnectionHandle" where
  "drain_state h = h\<lparr>conn_state := Conn_Disconnected\<rparr>"

definition drain_table :: "ConnectionHandle \<Rightarrow> ConnectionHandle" where
  "drain_table h = h\<lparr>pending := [],
     cells := fold drop_sender (map snd (pending h)) (cells h)\<rparr>"

definition drain_outbound :: "ConnectionHandle \<Rightarrow> ConnectionHandle" where
  "drain_outbound h = h\<lparr>outbound_tx := False\<rparr>"

definition drain_pending :: "ConnectionHandle \<Rightarrow> ConnectionHandle" where
  "drain_pending h = drain_outbound (drain_table (drain_state h))"

definition pending_len :: "ConnectionHandle \<Rightarrow> nat" where
  "pending_len h = length (pending h)"

text \<open>
  \<open>call\<close>: the request, then \<open>timeout_at(deadline, rx)\<close>, which looks at
  the receiver before the clock. \<open>call_poll\<close> is one poll: \<open>None\<close> while
  the call goes on waiting.
\<close>

definition call_poll ::
  "Id \<times> nat \<Rightarrow> bool \<Rightarrow> ConnectionHandle \<Rightarrow>
     (ConnectionCallError, json) res option \<times> ConnectionHandle" where
  "call_poll ic elapsed h = (case cells h (snd ic) of
     Full (Inr v) \<Rightarrow> (Some (Ok v), h)
   | Full (Inl e) \<Rightarrow> (Some (Err (Rejected e)), h)
   | Empty \<Rightarrow> if elapsed then (Some (Err Timeout), cancel_pending (fst ic) h) else (None, h)
   | _ \<Rightarrow> (Some (Err Disconnected), h))"

section \<open>Invariant\<close>

lemma hm_put_new: "map_of m k = None \<Longrightarrow> hm_put k v m = m @ [(k, v)]"
  by (induction m) (auto split: if_splits)

text \<open>
  The ids in the table were issued by this connection, each with a cell of its
  own that has not been resolved.
\<close>

definition issued :: "u64 \<Rightarrow> Id \<Rightarrow> bool" where
  "issued n i \<longleftrightarrow> (\<exists>k < n. i = mgr_id k)"

definition unresolved :: "ConnectionHandle \<Rightarrow> nat \<Rightarrow> bool" where
  "unresolved h c \<longleftrightarrow> c < next_cell h \<and> (cells h c = Empty \<or> cells h c = ReceiverDropped)"

definition conn_inv :: "ConnectionHandle \<Rightarrow> bool" where
  "conn_inv h \<longleftrightarrow> hm_ok (pending h) \<and> distinct (map snd (pending h)) \<and>
     (\<forall>i c. (i, c) \<in> set (pending h) \<longrightarrow> issued (next_id h) i \<and> unresolved h c)"

lemma conn_inv_entry:
  assumes "conn_inv h" "(i, c) \<in> set (pending h)"
  shows "issued (next_id h) i" "c < next_cell h" "cells h c = Empty \<or> cells h c = ReceiverDropped"
  using assms unfolding conn_inv_def unresolved_def by blast+

lemma conn_inv_table: "conn_inv h \<Longrightarrow> hm_ok (pending h)" "conn_inv h \<Longrightarrow> distinct (map snd (pending h))"
  by (simp_all add: conn_inv_def)

lemma mgr_id_eq [simp]: "mgr_id m = mgr_id n \<longleftrightarrow> m = n"
  by (simp add: mgr_id_def word_unat_eq_iff)

lemma conn_inv_new [inv_intros]: "conn_inv conn_new"
  by (simp add: conn_inv_def conn_new_def)

lemma mgr_id_fresh:
  assumes "conn_inv h"
  shows "map_of (pending h) (mgr_id (next_id h)) = None"
  using assms by (force simp: conn_inv_def map_of_eq_None_iff issued_def)

lemma insert_pending_fresh:
  assumes "conn_inv h"
  shows "insert_pending h =
     ((mgr_id (next_id h), next_cell h),
      h\<lparr>next_id := next_id h + 1, pending := pending h @ [(mgr_id (next_id h), next_cell h)],
        cells := (cells h)(next_cell h := Empty), next_cell := Suc (next_cell h)\<rparr>)"
  using mgr_id_fresh [OF assms]
  by (simp add: insert_pending_def fresh_id_def cancel_pending_def Let_def hm_put_new)

lemma issued_succ: "n \<noteq> -1 \<Longrightarrow> issued (n + 1) i \<longleftrightarrow> issued n i \<or> i = mgr_id n"
proof -
  assume "n \<noteq> -1"
  then have "k < n + 1 \<longleftrightarrow> k < n \<or> k = n" for k :: u64
    by (auto simp: word_less_nat_alt unat_succ less_Suc_eq word_unat_eq_iff)
  then show ?thesis by (auto simp: issued_def)
qed

lemma conn_inv_insert [inv_intros]:
  assumes inv: "conn_inv h" and room: "next_id h \<noteq> -1"
  shows "conn_inv (snd (insert_pending h))"
proof -
  have "mgr_id (next_id h) \<notin> fst ` set (pending h)" "next_cell h \<notin> snd ` set (pending h)"
    using mgr_id_fresh [OF inv] conn_inv_entry(2) [OF inv] by (force simp: map_of_eq_None_iff)+
  moreover have "issued (next_id h + 1) i \<and> c < Suc (next_cell h) \<and> c \<noteq> next_cell h \<and>
      (cells h c = Empty \<or> cells h c = ReceiverDropped)" if "(i, c) \<in> set (pending h)" for i c
    using conn_inv_entry [OF inv that] issued_succ [OF room] by auto
  ultimately show ?thesis
    using conn_inv_table [OF inv] issued_succ [OF room]
    by (auto simp: insert_pending_fresh [OF inv] conn_inv_def hm_ok_def unresolved_def)
qed

lemma conn_inv_irrelevant [simp]:
  "conn_inv (h\<lparr>conn_state := x\<rparr>) = conn_inv h" "conn_inv (h\<lparr>outbound_tx := b\<rparr>) = conn_inv h"
  "conn_inv (h\<lparr>receiver_open := b\<rparr>) = conn_inv h" "conn_inv (h\<lparr>sent := ms\<rparr>) = conn_inv h"
  by (simp_all add: conn_inv_def unresolved_def)

lemma set_hm_del: "set (hm_del k m) = {e \<in> set m. fst e \<noteq> k}"
  by (auto simp: hm_del_def)

lemma distinct_snd_hm_del: "distinct (map snd m) \<Longrightarrow> distinct (map snd (hm_del k m))"
  unfolding hm_del_def by (induction m) auto

text \<open>Removing an entry and changing only its cell keeps the invariant.\<close>

lemma conn_inv_remove:
  assumes inv: "conn_inv h" and c: "map_of (pending h) i = Some c"
    and frame: "\<And>d. d \<noteq> c \<Longrightarrow> cs d = cells h d"
  shows "conn_inv (h\<lparr>pending := hm_del i (pending h), cells := cs\<rparr>)"
proof -
  have ic: "(i, c) \<in> set (pending h)" by (rule map_of_SomeD [OF c])
  have "d \<noteq> c" if "(j, d) \<in> set (pending h)" "j \<noteq> i" for j d
    using that ic conn_inv_table(2) [OF inv] by (force simp: distinct_map inj_on_def)
  then have "issued (next_id h) j \<and> d < next_cell h \<and> (cs d = Empty \<or> cs d = ReceiverDropped)"
    if "(j, d) \<in> set (pending h)" "j \<noteq> i" for j d
    using that frame conn_inv_entry [OF inv] by metis
  then show ?thesis
    using conn_inv_table [OF inv]
    by (auto simp: conn_inv_def hm_del_ok distinct_snd_hm_del set_hm_del unresolved_def)
qed

lemma conn_inv_remove_only:
  "conn_inv h \<Longrightarrow> map_of (pending h) i = Some c \<Longrightarrow> conn_inv (h\<lparr>pending := hm_del i (pending h)\<rparr>)"
  using conn_inv_remove [of h i c "cells h"] by simp

lemma conn_inv_cancel [inv_intros]: "conn_inv h \<Longrightarrow> conn_inv (cancel_pending i h)"
  by (cases "map_of (pending h) i")
     (auto simp: cancel_pending_def drop_sender_def conn_inv_remove_only intro!: conn_inv_remove)

lemma conn_inv_complete [inv_intros]: "conn_inv h \<Longrightarrow> conn_inv (snd (complete_response i r h))"
  by (cases "map_of (pending h) i")
     (auto simp: complete_response_def Let_def conn_inv_remove_only intro!: conn_inv_remove)

lemma conn_inv_send [inv_intros]: "conn_inv h \<Longrightarrow> conn_inv (snd (send_request ic meth ps h))"
  using conn_inv_cancel [of h "fst ic"]
  by (auto simp: send_request_def conn_inv_def unresolved_def)

lemma conn_inv_dispatch [inv_intros]:
  "conn_inv h \<Longrightarrow> next_id h \<noteq> -1 \<Longrightarrow> conn_inv (snd (dispatch_request meth ps h))"
  by (auto simp: dispatch_request_def split: prod.splits
        dest: conn_inv_insert intro!: conn_inv_send)

lemma conn_inv_drain [inv_intros]: "conn_inv (drain_pending h)"
  by (simp add: drain_pending_def drain_outbound_def drain_table_def conn_inv_def)

lemma conn_inv_drop_receiver [inv_intros]:
  "conn_inv h \<Longrightarrow> conn_inv (drop_receiver c h)"
  by (auto simp: drop_receiver_def conn_inv_def unresolved_def)

section \<open>Requests and their responses\<close>

lemma fold_drop_sender:
  "fold drop_sender cl cs c = (if c \<in> set cl \<and> cs c = Empty then SenderDropped else cs c)"
  by (induction cl arbitrary: cs) (auto simp: drop_sender_def)

lemma drain_table_cells:
  "cells (drain_table h) c =
     (if c \<in> snd ` set (pending h) \<and> cells h c = Empty then SenderDropped else cells h c)"
  by (simp add: drain_table_def fold_drop_sender)

lemma drain_fields [simp]:
  "pending (drain_pending h) = []" "outbound_tx (drain_pending h) = False"
  "conn_state (drain_pending h) = Conn_Disconnected" "next_cell (drain_pending h) = next_cell h"
  "sent (drain_pending h) = sent h"
  by (simp_all add: drain_pending_def drain_outbound_def drain_table_def drain_state_def)

lemma drain_cells:
  "cells (drain_pending h) c =
     (if c \<in> snd ` set (pending h) \<and> cells h c = Empty then SenderDropped else cells h c)"
  by (simp add: drain_pending_def drain_outbound_def drain_table_cells drain_state_def)

lemma dispatch_request_ok:
  assumes "conn_inv h" "conn_is_active h" "outbound_tx h" "receiver_open h"
  shows "dispatch_request meth ps h =
     (Ok (mgr_id (next_id h), next_cell h),
      h\<lparr>next_id := next_id h + 1, pending := pending h @ [(mgr_id (next_id h), next_cell h)],
        cells := (cells h)(next_cell h := Empty), next_cell := Suc (next_cell h),
        sent := sent h @ [Request (mgr_id (next_id h)) meth ps]\<rparr>)"
  using assms by (simp add: dispatch_request_def insert_pending_fresh send_request_def)

text \<open>
  Request and response are correlated by id. A request that was accepted
  puts exactly one message on the wire under an id no other waiting request
  has; a response with that id is delivered to that caller's cell and to no
  other, and leaves the pending table as it was before the request.
\<close>

theorem response_reaches_its_caller:
  assumes inv: "conn_inv h"
    and req: "dispatch_request meth ps h = (Ok (i, c), h')"
    and resp: "complete_response i r h' = (ok, h'')"
  shows "ok \<and> sent h' = sent h @ [Request i meth ps] \<and> map_of (pending h) i = None \<and>
    cells h'' c = Full r \<and> (\<forall>d. d \<noteq> c \<longrightarrow> cells h'' d = cells h d) \<and> pending h'' = pending h"
proof -
  have act: "conn_is_active h" and out: "outbound_tx h" "receiver_open h"
    using req inv
    by (auto simp: dispatch_request_def insert_pending_fresh send_request_def split: if_splits)
  note new = mgr_id_fresh [OF inv]
  from req have i: "i = mgr_id (next_id h)" and c: "c = next_cell h"
    and h': "h' = h\<lparr>next_id := next_id h + 1, pending := pending h @ [(i, c)],
        cells := (cells h)(c := Empty), next_cell := Suc c, sent := sent h @ [Request i meth ps]\<rparr>"
    by (auto simp: dispatch_request_ok [OF inv act out])
  have look: "map_of (pending h') i = Some c"
    using new by (simp add: h' i map_add_def)
  have "hm_del i (pending h') = pending h"
    using new by (force simp: h' i hm_del_def map_of_eq_None_iff filter_id_conv)
  with resp look show ?thesis
    by (auto simp: complete_response_def Let_def h' new [folded i])
qed

text \<open>One accepted request and its answer, for the witness.\<close>

theorem response_reaches_its_caller_witness:
  "conn_inv conn_new \<and>
   fst (dispatch_request TOOL_CALL JNull conn_new) = Ok (mgr_id 0, 0) \<and>
   fst (complete_response (mgr_id 0) (Ok JNull)
     (snd (dispatch_request TOOL_CALL JNull conn_new)))"
proof -
  let ?d = "dispatch_request TOOL_CALL JNull conn_new"
  have d: "?d = (Ok (mgr_id 0, 0), snd ?d)"
    by (simp add: dispatch_request_def conn_is_active_def conn_new_def insert_pending_def
        fresh_id_def cancel_pending_def send_request_def Let_def)
  from response_reaches_its_caller [OF conn_inv_new d prod.collapse [symmetric]]
  show ?thesis using d conn_inv_new by (metis fst_conv)
qed

text \<open>
  Draining a connection ends every wait. After \<open>drain_pending\<close> the table
  is empty, every call that was still waiting sees a closed channel, no response
  can be delivered any more, and every later request is refused as disconnected.
\<close>

theorem drain_ends_all_waits:
  "pending_len (drain_pending h) = 0 \<and>
   (\<forall>i c. map_of (pending h) i = Some c \<longrightarrow> cells h c = Empty \<longrightarrow>
      fst (call_poll (i, c) elapsed (drain_pending h)) = Some (Err Disconnected)) \<and>
   fst (complete_response j r (drain_pending h)) = False \<and>
   fst (dispatch_request meth ps (drain_pending h)) = Err Disconnected \<and>
   drain_pending (drain_pending h) = drain_pending h"
proof -
  have "fst (call_poll (i, c) elapsed (drain_pending h)) = Some (Err Disconnected)"
    if "map_of (pending h) i = Some c" "cells h c = Empty" for i c
  proof -
    have "c \<in> snd ` set (pending h)" using map_of_SomeD [OF that(1)] by force
    with that(2) show ?thesis by (simp add: call_poll_def drain_cells)
  qed
  then show ?thesis
    by (simp add: pending_len_def complete_response_def dispatch_request_def conn_is_active_def,
        simp add: drain_pending_def drain_outbound_def drain_table_def drain_state_def)
qed

theorem drain_ends_all_waits_witness:
  "fst (call_poll (mgr_id 0, 0) True (drain_pending (snd (dispatch_request TOOL_CALL JNull conn_new))))
     = Some (Err Disconnected)"
proof -
  let ?h = "snd (dispatch_request TOOL_CALL JNull conn_new)"
  have "map_of (pending ?h) (mgr_id 0) = Some 0" "cells ?h 0 = Empty"
    by (simp_all add: dispatch_request_def conn_is_active_def conn_new_def insert_pending_def
        fresh_id_def cancel_pending_def send_request_def Let_def)
  then show ?thesis using drain_ends_all_waits [of ?h] by blast
qed

section \<open>A request racing with disconnection\<close>

text \<open>
  \<open>dispatch_request\<close> takes no lock across its three parts, and neither does
  \<open>drain_pending\<close>. The requester is at one of four points; the drainer has
  executed some number of its atomic parts. A closing connection is drained
  twice: by \<open>run_connection\<close> and then by \<open>mark_disconnected_if_generation\<close>,
  which makes six parts.
\<close>

datatype req_pc = Req_Start | Req_Checked | Req_Inserted "Id \<times> nat"
  | Req_Done "(ConnectionCallError, Id \<times> nat) res"

fun drain_part :: "nat \<Rightarrow> ConnectionHandle \<Rightarrow> ConnectionHandle" where
  "drain_part n h =
     (if n mod 3 = 0 then drain_state h else if n mod 3 = 1 then drain_table h else drain_outbound h)"

inductive race_step ::
  "string \<Rightarrow> json \<Rightarrow> nat \<Rightarrow> ConnectionHandle \<times> req_pc \<times> nat \<Rightarrow> ConnectionHandle \<times> req_pc \<times> nat \<Rightarrow> bool"
  for meth :: string and ps :: json and parts :: nat where
  check_active: "conn_is_active h \<Longrightarrow> race_step meth ps parts (h, Req_Start, n) (h, Req_Checked, n)"
| check_gone: "\<not> conn_is_active h \<Longrightarrow>
     race_step meth ps parts (h, Req_Start, n) (h, Req_Done (Err Disconnected), n)"
| insert: "race_step meth ps parts (h, Req_Checked, n)
     (snd (insert_pending h), Req_Inserted (fst (insert_pending h)), n)"
| send: "race_step meth ps parts (h, Req_Inserted ic, n)
     (snd (send_request ic meth ps h), Req_Done (fst (send_request ic meth ps h)), n)"
| drain: "n < parts \<Longrightarrow> race_step meth ps parts (h, pc, n) (drain_part n h, pc, Suc n)"

inductive_cases race_stepE: "race_step meth ps parts (h, pc, n) s"

inductive race_reach ::
  "string \<Rightarrow> json \<Rightarrow> nat \<Rightarrow> ConnectionHandle \<Rightarrow> ConnectionHandle \<times> req_pc \<times> nat \<Rightarrow> bool"
  for meth :: string and ps :: json and parts :: nat and h0 :: ConnectionHandle where
  race_init: "race_reach meth ps parts h0 (h0, Req_Start, 0)"
| race_more: "race_reach meth ps parts h0 s \<Longrightarrow> race_step meth ps parts s t \<Longrightarrow>
     race_reach meth ps parts h0 t"

text \<open>What holds at every moment of the race; after the fifth part the table stays clean.\<close>

fun race_inv :: "ConnectionHandle \<times> req_pc \<times> nat \<Rightarrow> bool" where
  "race_inv (h, pc, n) \<longleftrightarrow>
     conn_inv h \<and>
     (3 \<le> n \<longrightarrow> \<not> outbound_tx h) \<and>
     (5 \<le> n \<longrightarrow> (\<forall>e \<in> set (pending h). pc = Req_Inserted e)) \<and>
     (pc \<in> {Req_Start, Req_Checked} \<longrightarrow> next_id h \<noteq> -1) \<and>
     (\<forall>i c. pc = Req_Inserted (i, c) \<or> pc = Req_Done (Ok (i, c)) \<longrightarrow>
        cells h c = SenderDropped \<or> cells h c = Empty \<and> map_of (pending h) i = Some c)"

lemma drain_part_cases:
  "drain_part n h = drain_state h \<or> drain_part n h = drain_table h \<and> n mod 3 = 1 \<or>
   drain_part n h = drain_outbound h"
  by simp

lemma conn_inv_drain_table: "conn_inv (drain_table h)"
  by (simp add: drain_table_def conn_inv_def)

lemma conn_inv_drain_part:
  "conn_inv h \<Longrightarrow> conn_inv (drain_part n h)"
  using drain_part_cases [of n h]
  by (auto simp: drain_state_def drain_outbound_def conn_inv_drain_table simp del: drain_part.simps)

lemma drain_part_outbound: "outbound_tx (drain_part n h) \<longrightarrow> outbound_tx h \<and> n mod 3 \<noteq> 2"
  by (auto simp: drain_state_def drain_table_def drain_outbound_def)

lemma drain_part_pending: "set (pending (drain_part n h)) \<subseteq> set (pending h)"
  by (auto simp: drain_state_def drain_table_def drain_outbound_def)

lemma drain_part_next_id: "next_id (drain_part n h) = next_id h"
  by (simp add: drain_state_def drain_table_def drain_outbound_def)

lemma drain_part_entry:
  assumes "cells h c = SenderDropped \<or> cells h c = Empty \<and> map_of (pending h) i = Some c"
  shows "cells (drain_part n h) c = SenderDropped \<or>
    cells (drain_part n h) c = Empty \<and> map_of (pending (drain_part n h)) i = Some c"
proof -
  have "map_of (pending h) i = Some c \<Longrightarrow> c \<in> snd ` set (pending h)"
    using map_of_SomeD by force
  with assms drain_part_cases [of n h] show ?thesis
    by (auto simp: drain_state_def drain_outbound_def drain_table_cells simp del: drain_part.simps)
qed

lemma race_inv_drain:
  assumes "race_inv (h, pc, n)" "n < 6"
  shows "race_inv (drain_part n h, pc, Suc n)"
proof -
  have "3 \<le> Suc n \<longrightarrow> \<not> outbound_tx (drain_part n h)"
    using assms drain_part_outbound [of n h] by (cases "n = 2") auto
  moreover have "5 \<le> Suc n \<longrightarrow> (\<forall>e \<in> set (pending (drain_part n h)). pc = Req_Inserted e)"
    using assms drain_part_pending [of n h] by (cases "n = 4") (auto simp: drain_table_def)
  ultimately show ?thesis
    using assms conn_inv_drain_part [of h n] drain_part_entry [of h _ _ n] drain_part_next_id [of n h]
    by (simp del: drain_part.simps)
qed

lemma race_inv_insert:
  assumes "race_inv (h, Req_Checked, n)"
  shows "race_inv (snd (insert_pending h), Req_Inserted (fst (insert_pending h)), n)"
proof -
  have inv: "conn_inv h" and room: "next_id h \<noteq> -1" using assms by auto
  then show ?thesis
    using assms conn_inv_insert [OF inv room] mgr_id_fresh [OF inv]
    by (auto simp: insert_pending_fresh map_add_def)
qed

lemma race_inv_send:
  assumes "race_inv (h, Req_Inserted (i, c), n)"
  shows "race_inv (snd (send_request (i, c) meth ps h), Req_Done (fst (send_request (i, c) meth ps h)), n)"
proof -
  have inv: "conn_inv h" using assms by simp
  have clean: "set (pending (cancel_pending i h)) = {}" if "5 \<le> n"
  proof (cases "map_of (pending h) i")
    case None
    then have "(i, c) \<notin> set (pending h)" by (force simp: map_of_eq_None_iff)
    moreover have "\<forall>e \<in> set (pending h). e = (i, c)" using assms that by auto
    ultimately have "e \<notin> set (pending h)" for e by metis
    then show ?thesis by (simp add: cancel_pending_def None) (cases "pending h"; auto)
  next
    case (Some d)
    then show ?thesis using assms that by (auto simp: cancel_pending_def set_hm_del)
  qed
  show ?thesis
  proof (cases "outbound_tx h \<and> receiver_open h")
    case True
    then show ?thesis using assms by (auto simp: send_request_def)
  next
    case False
    have "\<not> outbound_tx (cancel_pending i h)" if "3 \<le> n"
      using assms that by (auto simp: cancel_pending_def split: option.splits)
    with False show ?thesis
      using clean conn_inv_cancel [OF inv] by (auto simp: send_request_def)
  qed
qed

lemma race_inv_step:
  assumes "race_step meth ps 6 s t" "race_inv s"
  shows "race_inv t"
  using assms
proof (cases rule: race_step.cases)
  case (check_active h n)
  then show ?thesis using assms(2) by simp
next
  case (check_gone h n)
  then show ?thesis using assms(2) by simp
next
  case (insert h n)
  then show ?thesis using assms(2) race_inv_insert by (simp del: race_inv.simps)
next
  case (send h ic n)
  then show ?thesis using assms(2) race_inv_send by (cases ic) (simp del: race_inv.simps)
next
  case (drain n h pc)
  then show ?thesis using assms(2) race_inv_drain by (simp del: race_inv.simps drain_part.simps)
qed

lemma race_inv_reach:
  assumes "race_reach meth ps 6 h0 s" "conn_inv h0" "next_id h0 \<noteq> -1"
  shows "race_inv s"
  using assms
proof (induction rule: race_reach.induct)
  case race_init
  then show ?case by simp
next
  case (race_more s t)
  then show ?case using race_inv_step by blast
qed

text \<open>
  C17: a request racing with the closing of its connection never hangs. In every
  interleaving of \<open>dispatch_request\<close> with the two drains of a closing
  connection, once both are through the table is empty and the caller has either
  an error or a closed channel; no caller is left waiting.
\<close>

theorem request_disconnect_race_never_hangs:
  assumes "race_reach meth ps 6 h0 (h, Req_Done r, 6)" "conn_inv h0" "next_id h0 \<noteq> -1"
  shows "pending h = [] \<and>
    (case r of Inl e \<Rightarrow> True | Inr (i, c) \<Rightarrow> cells h c = SenderDropped)"
proof -
  from race_inv_reach [OF assms] have none: "e \<notin> set (pending h)" for e by (cases e) auto
  then have "pending h = []" by (cases "pending h") auto
  moreover have "cells h c = SenderDropped" if "r = Ok (i, c)" for i c
    using race_inv_reach [OF assms] that calculation by auto
  ultimately show ?thesis by (auto split: sum.splits)
qed

text \<open>
  The second drain is needed. With a single drain there is an interleaving
  that leaves the caller waiting: the request passed its state check before the
  drain and entered the table after the table was emptied, but before the sender
  was taken, so its message was sent and its cell is never resolved.
\<close>

theorem single_drain_can_orphan_a_request:
  assumes inv: "conn_inv h0" and act: "conn_is_active h0" "outbound_tx h0" "receiver_open h0"
    and room: "next_id h0 \<noteq> -1"
  shows "\<exists>h i c. race_reach meth ps 3 h0 (h, Req_Done (Ok (i, c)), 3) \<and>
    cells h c = Empty \<and> map_of (pending h) i = Some c \<and> \<not> outbound_tx h \<and> \<not> conn_is_active h"
proof -
  let ?h1 = "drain_table (drain_state h0)"
  have inv1: "conn_inv ?h1"
    by (simp add: drain_table_def conn_inv_def)
  let ?ic = "(mgr_id (next_id h0), next_cell h0)"
  define h2 where "h2 = snd (insert_pending ?h1)"
  define h3 where "h3 = snd (send_request ?ic meth ps h2)"
  have ins: "fst (insert_pending ?h1) = ?ic"
    by (subst insert_pending_fresh [OF inv1]) (simp add: drain_table_def drain_state_def)
  have h2: "outbound_tx h2" "receiver_open h2" "cells h2 (next_cell h0) = Empty"
     "map_of (pending h2) (mgr_id (next_id h0)) = Some (next_cell h0)" "\<not> conn_is_active h2"
    unfolding h2_def insert_pending_fresh [OF inv1] using act
    by (simp_all add: drain_table_def drain_state_def conn_is_active_def)
  have "race_reach meth ps 3 h0 (h0, Req_Checked, 0)"
    by (rule race_more [OF race_init]) (rule check_active [OF act(1)])
  then have "race_reach meth ps 3 h0 (drain_part 0 h0, Req_Checked, Suc 0)"
    by (rule race_more) (rule drain, simp)
  then have "race_reach meth ps 3 h0 (drain_part (Suc 0) (drain_part 0 h0), Req_Checked, Suc (Suc 0))"
    by (rule race_more) (rule drain, simp)
  then have "race_reach meth ps 3 h0 (h2, Req_Inserted ?ic, Suc (Suc 0))"
    unfolding h2_def ins [symmetric] by (rule race_more) (simp, rule race_step.insert)
  then have "race_reach meth ps 3 h0 (h3, Req_Done (fst (send_request ?ic meth ps h2)), Suc (Suc 0))"
    unfolding h3_def by (rule race_more) (rule race_step.send)
  then have "race_reach meth ps 3 h0 (drain_part (Suc (Suc 0)) h3, Req_Done (Ok ?ic), 3)"
    using h2 race_step.drain [of "Suc (Suc 0)" 3 meth ps h3] race_more
    by (fastforce simp: send_request_def numeral_3_eq_3 simp del: drain_part.simps)
  moreover have "cells (drain_part (Suc (Suc 0)) h3) (next_cell h0) = Empty"
    "map_of (pending (drain_part (Suc (Suc 0)) h3)) (mgr_id (next_id h0)) = Some (next_cell h0)"
    "\<not> outbound_tx (drain_part (Suc (Suc 0)) h3)" "\<not> conn_is_active (drain_part (Suc (Suc 0)) h3)"
    using h2 by (simp_all add: h3_def send_request_def drain_outbound_def conn_is_active_def)
  ultimately show ?thesis by blast
qed

theorem single_drain_can_orphan_a_request_witness:
  "\<exists>h i c. race_reach TOOL_CALL JNull 3 conn_new (h, Req_Done (Ok (i, c)), 3) \<and>
    cells h c = Empty \<and> map_of (pending h) i = Some c \<and> \<not> outbound_tx h \<and> \<not> conn_is_active h"
  by (rule single_drain_can_orphan_a_request)
     (simp_all add: conn_inv_new, simp_all add: conn_new_def conn_is_active_def)

theorem request_disconnect_race_never_hangs_witness:
  "pending (drain_pending (drain_pending conn_new)) = []"
proof -
  let ?R = "race_reach TOOL_CALL JNull 6 conn_new" and ?h = "drain_pending conn_new"
  have step: "?R (h', pc, m)"
    if "?R (h, pc, n)" "n < 6" "drain_part n h = h'" "m = Suc n" for h h' pc n m
    using that race_more race_step.drain by blast
  have "?R (conn_new, Req_Start, 0)" by (rule race_init)
  then have "?R (drain_state conn_new, Req_Start, 1)" by (rule step) simp_all
  then have "?R (drain_table (drain_state conn_new), Req_Start, 2)" by (rule step) simp_all
  then have "?R (?h, Req_Start, 3)" by (rule step) (simp_all add: drain_pending_def)
  then have "?R (drain_state ?h, Req_Start, 4)" by (rule step) simp_all
  then have "?R (drain_table (drain_state ?h), Req_Start, 5)" by (rule step) simp_all
  then have "?R (drain_pending ?h, Req_Start, 6)"
    by (rule step) (simp_all add: drain_pending_def [of ?h])
  then have "race_reach TOOL_CALL JNull 6 conn_new
      (drain_pending (drain_pending conn_new), Req_Done (Err Disconnected), 6)"
    by (rule race_more) (rule check_gone, simp add: conn_is_active_def)
  from request_disconnect_race_never_hangs [OF this conn_inv_new]
  show ?thesis by (simp add: conn_new_def)
qed

end
