(* ===== verification/Dispatcher.thy ===== *)
theory Dispatcher
  imports Connection "HOL-Library.Sublist"
begin

text \<open>
  The per-session dispatcher (\<open>src/session_manager/dispatcher.rs\<close>): an
  admission semaphore with one permit, the inflight counter and the drained
  flag. \<open>enqueue\<close> is an \<open>async\<close> function; it is cut at its
  suspension points into the pieces that run without interruption, and the
  pieces of concurrent calls are interleaved by the events of \<open>disp_step\<close>.
\<close>

section \<open>State and error values\<close>

datatype DispatcherError =
    CancelledWhileQueued
  | Cancelled
  | TimedOutWhileQueued
  | TimedOutWhileRunning
  | SessionGone
  | ClientError JsonRpcError
  | InvalidResult string
  | Disp_WriterClosed

text \<open>
  The semaphore is fair: waiters are served in arrival order, and a released
  permit goes to the first of them.
\<close>

record SessionDispatcher =
  permits :: nat
  waiters :: "nat list"
  inflight :: u32
  drained :: bool

definition dispatcher_new :: SessionDispatcher where
  "dispatcher_new = \<lparr>permits = 1, waiters = [], inflight = 0, drained = False\<rparr>"

definition is_drained :: "SessionDispatcher \<Rightarrow> bool" where
  "is_drained d \<longleftrightarrow> drained d"

definition disp_drain :: "SessionDispatcher \<Rightarrow> SessionDispatcher" where
  "disp_drain d = d\<lparr>drained := True\<rparr>"

fun map_call_err_send :: "ConnectionCallError \<Rightarrow> DispatcherError" where
  "map_call_err_send Disconnected = SessionGone"
| "map_call_err_send WriterClosed = Disp_WriterClosed"
| "map_call_err_send Timeout = TimedOutWhileRunning"
| "map_call_err_send (Rejected e) = ClientError e"

section \<open>The pieces of enqueue\<close>

text \<open>The check on entry; an admitted caller joins the queue of the semaphore.\<close>

definition enqueue_start :: "nat \<Rightarrow> SessionDispatcher \<Rightarrow> (DispatcherError, SessionDispatcher) res" where
  "enqueue_start k d =
     (if is_drained d then Err SessionGone else Ok (d\<lparr>waiters := waiters d @ [k]\<rparr>))"

datatype admission = Adm_Fail DispatcherError | Adm_Pending | Adm_Granted

text \<open>
  One poll of the first \<open>select!\<close>, whose branches are tried in order
  (\<open>biased\<close>): cancellation, deadline, permit. A caller that gives up leaves
  the queue.
\<close>

definition poll_admission :: "bool \<Rightarrow> bool \<Rightarrow> nat \<Rightarrow> SessionDispatcher \<Rightarrow> admission \<times> SessionDispatcher" where
  "poll_admission cancelled dl k d =
     (if cancelled then (Adm_Fail CancelledWhileQueued, d\<lparr>waiters := remove1 k (waiters d)\<rparr>)
      else if dl then (Adm_Fail TimedOutWhileQueued, d\<lparr>waiters := remove1 k (waiters d)\<rparr>)
      else (case waiters d of
              w # ws \<Rightarrow> if w = k \<and> 0 < permits d
                        then (Adm_Granted, d\<lparr>permits := permits d - 1, waiters := ws\<rparr>)
                        else (Adm_Pending, d)
            | [] \<Rightarrow> (Adm_Pending, d)))"

text \<open>The permit goes back when the call ends; the inflight guard is dropped with it.\<close>

definition release_permit :: "SessionDispatcher \<Rightarrow> SessionDispatcher" where
  "release_permit d = d\<lparr>permits := permits d + 1\<rparr>"

definition drop_inflight_guard :: "SessionDispatcher \<Rightarrow> SessionDispatcher" where
  "drop_inflight_guard d = d\<lparr>inflight := inflight d - 1\<rparr>"

text \<open>With the permit in hand: the second drained check, the counter, the request.\<close>

definition enqueue_admitted ::
  "ToolCallParams \<Rightarrow> SessionDispatcher \<Rightarrow> ConnectionHandle \<Rightarrow>
     (DispatcherError, Id \<times> nat) res \<times> SessionDispatcher \<times> ConnectionHandle" where
  "enqueue_admitted ps d h =
     (if is_drained d then (Err SessionGone, release_permit d, h)
      else
        (let d1 = d\<lparr>inflight := inflight d + 1\<rparr>;
             (r, h1) = dispatch_request TOOL_CALL (encode_call_params ps) h
         in case r of
              Inl e \<Rightarrow> (Err (map_call_err_send e), release_permit (drop_inflight_guard d1), h1)
            | Inr ic \<Rightarrow> (Ok ic, d1, h1)))"

definition send_tool_cancel :: "Id \<Rightarrow> ConnectionHandle \<Rightarrow> ConnectionHandle" where
  "send_tool_cancel i h =
     (let ps = encode_cancel_params \<lparr>tcp_id = i, tcp_reason = Some ''cancelled by manager''\<rparr>;
          (r, h1) = dispatch_request TOOL_CANCEL ps h
      in case r of Inl e \<Rightarrow> h1 | Inr ic \<Rightarrow> drop_receiver (snd ic) h1)"

datatype running = Run_Pending bool | Run_Done "(DispatcherError, json) res"

text \<open>
  One poll of the second \<open>select!\<close>: response, deadline, cancellation (once).
  After sending \<open>tool.cancel\<close> the loop goes on waiting for the terminal.
\<close>

definition poll_running ::
  "bool \<Rightarrow> bool \<Rightarrow> bool \<Rightarrow> Id \<times> nat \<Rightarrow> ConnectionHandle \<Rightarrow> running \<times> ConnectionHandle" where
  "poll_running cancelled dl cancel_sent ic h = (case cells h (snd ic) of
     Full (Inr v) \<Rightarrow> (Run_Done (Ok v), h)
   | Full (Inl e) \<Rightarrow>
       (Run_Done (Err (if err_code e = TOOL_CANCELLED then Cancelled else ClientError e)), h)
   | SenderDropped \<Rightarrow> (Run_Done (Err SessionGone), h)
   | _ \<Rightarrow>
       if dl then (Run_Done (Err TimedOutWhileRunning), cancel_pending (fst ic) h)
       else if cancelled \<and> \<not> cancel_sent then (Run_Pending True, send_tool_cancel (fst ic) h)
       else (Run_Pending cancel_sent, h))"

definition finish_call :: "(DispatcherError, json) res \<Rightarrow> (DispatcherError, ToolCallResult) res" where
  "finish_call out = (case out of
     Inr v \<Rightarrow> (case decode_call_result v of
                 Some r \<Rightarrow> Ok r
               | None \<Rightarrow> Err (InvalidResult ''invalid tool.call result''))
   | Inl e \<Rightarrow> Err e)"

section \<open>Concurrent calls on one dispatcher\<close>

datatype call_state =
    Call_New
  | Call_Queued
  | Call_Running "Id \<times> nat" bool
  | Call_Done "(DispatcherError, ToolCallResult) res"
  | Call_Dropped

text \<open>
  The calls of one session, numbered; what each caller passed; the clock; and two
  ghost lists that record in which order calls joined the queue and in which
  order they got the permit.
\<close>

record disp_sys =
  disp :: SessionDispatcher
  conn :: ConnectionHandle
  calls :: "nat \<Rightarrow> call_state"
  call_params :: "nat \<Rightarrow> ToolCallParams"
  call_deadline :: "nat \<Rightarrow> instant option"
  call_cancelled :: "nat \<Rightarrow> bool"
  clock :: instant
  arrivals :: "nat list"
  admissions :: "nat list"

definition deadline_hit :: "disp_sys \<Rightarrow> nat \<Rightarrow> bool" where
  "deadline_hit s k = (case call_deadline s k of None \<Rightarrow> False | Some t \<Rightarrow> t \<le> clock s)"

datatype disp_event =
    Ev_Enqueue nat
  | Ev_Poll nat
  | Ev_Cancel nat
  | Ev_Response Id "(JsonRpcError, json) res"
  | Ev_Drain
  | Ev_Tick nat
  | Ev_Abandon nat

definition step_queued :: "disp_sys \<Rightarrow> nat \<Rightarrow> disp_sys" where
  "step_queued s k =
     (case poll_admission (call_cancelled s k) (deadline_hit s k) k (disp s) of
        (Adm_Fail e, d) \<Rightarrow> s\<lparr>disp := d, calls := (calls s)(k := Call_Done (Err e))\<rparr>
      | (Adm_Pending, d) \<Rightarrow> s
      | (Adm_Granted, d) \<Rightarrow>
          (case enqueue_admitted (call_params s k) d (conn s) of
             (Inl e, d', h') \<Rightarrow>
               s\<lparr>disp := d', conn := h', calls := (calls s)(k := Call_Done (Err e)),
                 admissions := admissions s @ [k]\<rparr>
           | (Inr ic, d', h') \<Rightarrow>
               s\<lparr>disp := d', conn := h', calls := (calls s)(k := Call_Running ic False),
                 admissions := admissions s @ [k]\<rparr>))"

definition step_running :: "disp_sys \<Rightarrow> nat \<Rightarrow> Id \<times> nat \<Rightarrow> bool \<Rightarrow> disp_sys" where
  "step_running s k ic cs =
     (case poll_running (call_cancelled s k) (deadline_hit s k) cs ic (conn s) of
        (Run_Pending cs', h) \<Rightarrow> s\<lparr>conn := h, calls := (calls s)(k := Call_Running ic cs')\<rparr>
      | (Run_Done out, h) \<Rightarrow>
          s\<lparr>conn := h, disp := release_permit (drop_inflight_guard (disp s)),
            calls := (calls s)(k := Call_Done (finish_call out))\<rparr>)"

text \<open>
  The future of a call may be dropped at a suspension point: a queued call
  leaves the queue, a running one drops its guard, its permit and its receiver.
\<close>

definition abandon_call :: "disp_sys \<Rightarrow> nat \<Rightarrow> disp_sys" where
  "abandon_call s k = (case calls s k of
     Call_Queued \<Rightarrow> s\<lparr>disp := (disp s)\<lparr>waiters := remove1 k (waiters (disp s))\<rparr>,
                       calls := (calls s)(k := Call_Dropped)\<rparr>
   | Call_Running ic cs \<Rightarrow> s\<lparr>disp := release_permit (drop_inflight_guard (disp s)),
                       conn := drop_receiver (snd ic) (conn s),
                       calls := (calls s)(k := Call_Dropped)\<rparr>
   | _ \<Rightarrow> s)"

text \<open>
  In the code the entry check and the first poll run without suspension in
  between; here other calls may run between the two events, which only adds
  interleavings.
\<close>

fun disp_step :: "disp_sys \<Rightarrow> disp_event \<Rightarrow> disp_sys" where
  "disp_step s (Ev_Enqueue k) =
     (if calls s k = Call_New then
        (case enqueue_start k (disp s) of
           Inl e \<Rightarrow> s\<lparr>calls := (calls s)(k := Call_Done (Err e))\<rparr>
         | Inr d \<Rightarrow> s\<lparr>disp := d, calls := (calls s)(k := Call_Queued), arrivals := arrivals s @ [k]\<rparr>)
      else s)"
| "disp_step s (Ev_Poll k) =
     (case calls s k of
        Call_Queued \<Rightarrow> step_queued s k
      | Call_Running ic cs \<Rightarrow> step_running s k ic cs
      | _ \<Rightarrow> s)"
| "disp_step s (Ev_Cancel k) = s\<lparr>call_cancelled := (call_cancelled s)(k := True)\<rparr>"
| "disp_step s (Ev_Response i r) = s\<lparr>conn := snd (complete_response i r (conn s))\<rparr>"
| "disp_step s Ev_Drain = s\<lparr>conn := drain_pending (conn s), disp := disp_drain (disp s)\<rparr>"
| "disp_step s (Ev_Tick n) = s\<lparr>clock := clock s + n\<rparr>"
| "disp_step s (Ev_Abandon k) = abandon_call s k"

definition disp_run :: "disp_sys \<Rightarrow> disp_event list \<Rightarrow> disp_sys" where
  "disp_run s es = foldl disp_step s es"

definition disp_init :: "(nat \<Rightarrow> ToolCallParams) \<Rightarrow> (nat \<Rightarrow> instant option) \<Rightarrow> disp_sys" where
  "disp_init ps dls = \<lparr>disp = dispatcher_new, conn = conn_new, calls = (\<lambda>_. Call_New),
     call_params = ps, call_deadline = dls, call_cancelled = (\<lambda>_. False), clock = 0,
     arrivals = [], admissions = []\<rparr>"

section \<open>Invariant\<close>

definition is_running :: "call_state \<Rightarrow> bool" where
  "is_running c \<longleftrightarrow> (\<exists>ic cs. c = Call_Running ic cs)"

lemma is_running_simps [simp]:
  "\<not> is_running Call_New" "\<not> is_running Call_Queued" "is_running (Call_Running ic cs)"
  "\<not> is_running (Call_Done r)" "\<not> is_running Call_Dropped"
  by (auto simp: is_running_def)

text \<open>
  Either the permit is free, nothing runs and the counter is 0, or it is taken,
  exactly one call runs and the counter is 1. The queue holds the queued calls,
  and the permit has been given in the order in which they arrived.
\<close>

definition slot_inv :: "SessionDispatcher \<Rightarrow> (nat \<Rightarrow> call_state) \<Rightarrow> bool" where
  "slot_inv d cs \<longleftrightarrow>
     permits d = 1 \<and> inflight d = 0 \<and> (\<forall>k. \<not> is_running (cs k)) \<or>
     permits d = 0 \<and> inflight d = 1 \<and> (\<exists>j. is_running (cs j) \<and> (\<forall>k. is_running (cs k) \<longrightarrow> k = j))"

definition queue_inv :: "nat list \<Rightarrow> (nat \<Rightarrow> call_state) \<Rightarrow> bool" where
  "queue_inv ws cs \<longleftrightarrow> distinct ws \<and> set ws = {k. cs k = Call_Queued}"

definition disp_inv :: "disp_sys \<Rightarrow> bool" where
  "disp_inv s \<longleftrightarrow> slot_inv (disp s) (calls s) \<and> queue_inv (waiters (disp s)) (calls s) \<and>
     subseq (admissions s @ waiters (disp s)) (arrivals s) \<and>
     distinct (arrivals s) \<and> (\<forall>k \<in> set (arrivals s). calls s k \<noteq> Call_New)"

lemma disp_inv_init [inv_intros]: "disp_inv (disp_init ps dls)"
  by (simp add: disp_inv_def slot_inv_def queue_inv_def disp_init_def dispatcher_new_def)

lemma slot_inv_idle:
  "slot_inv d cs \<Longrightarrow> \<not> is_running (cs k) \<Longrightarrow> \<not> is_running c \<Longrightarrow> slot_inv d (cs(k := c))"
  unfolding slot_inv_def by (metis fun_upd_other fun_upd_same)

lemma slot_inv_cong:
  "permits d = permits d' \<Longrightarrow> inflight d = inflight d' \<Longrightarrow> slot_inv d cs = slot_inv d' cs"
  by (simp add: slot_inv_def)

lemma slot_inv_upd [simp]:
  "slot_inv (d\<lparr>waiters := ws\<rparr>) cs = slot_inv d cs"
  "slot_inv (d\<lparr>drained := b\<rparr>) cs = slot_inv d cs"
  by (simp_all add: slot_inv_def)

lemma slot_inv_take:
  assumes "slot_inv d cs" "0 < permits d" "permits d' = permits d - 1" "inflight d' = inflight d + 1"
  shows "slot_inv d' (cs(k := Call_Running ic c))"
  using assms by (auto simp: slot_inv_def)

lemma slot_inv_keep:
  assumes "slot_inv d cs" "is_running (cs k)"
  shows "slot_inv d (cs(k := Call_Running ic c))"
  using assms by (auto simp: slot_inv_def)

lemma slot_inv_release:
  assumes "slot_inv d cs" "is_running (cs k)" "\<not> is_running c"
  shows "slot_inv (release_permit (drop_inflight_guard d)) (cs(k := c))"
  using assms by (auto simp: slot_inv_def release_permit_def drop_inflight_guard_def)

lemma queue_inv_join:
  "queue_inv ws cs \<Longrightarrow> cs k = Call_New \<Longrightarrow> queue_inv (ws @ [k]) (cs(k := Call_Queued))"
  by (auto simp: queue_inv_def)

lemma queue_inv_leave:
  "queue_inv ws cs \<Longrightarrow> c \<noteq> Call_Queued \<Longrightarrow> queue_inv (remove1 k ws) (cs(k := c))"
  by (auto simp: queue_inv_def)

lemma queue_inv_other:
  "queue_inv ws cs \<Longrightarrow> cs k \<noteq> Call_Queued \<Longrightarrow> c \<noteq> Call_Queued \<Longrightarrow> queue_inv ws (cs(k := c))"
  by (auto simp: queue_inv_def)

lemma subseq_remove1: "subseq (remove1 x xs) xs"
  by (induction xs) auto

lemma distinct_subseq: "subseq xs ys \<Longrightarrow> distinct ys \<Longrightarrow> distinct xs"
  by (auto simp: subseq_conv_nths distinct_nthsI)

lemma subseq_leave: "subseq (as @ ws) ys \<Longrightarrow> subseq (as @ remove1 k ws) ys"
  by (meson list_emb_append_mono subseq_order.order_trans subseq_order.order_refl subseq_remove1)

lemma poll_admission_cases:
  obtains (fail) e where "poll_admission c dl k d = (Adm_Fail e, d\<lparr>waiters := remove1 k (waiters d)\<rparr>)"
  | (pending) "poll_admission c dl k d = (Adm_Pending, d)"
  | (granted) ws where "waiters d = k # ws" "0 < permits d"
      "poll_admission c dl k d = (Adm_Granted, d\<lparr>permits := permits d - 1, waiters := ws\<rparr>)"
proof (cases "c \<or> dl")
  case True
  then show ?thesis
    by (cases c) (auto simp: poll_admission_def intro: fail)
next
  case False
  show ?thesis
  proof (cases "\<exists>ws. waiters d = k # ws \<and> 0 < permits d")
    case True
    then obtain ws where "waiters d = k # ws" "0 < permits d" by blast
    with False show ?thesis by (intro granted) (auto simp: poll_admission_def)
  next
    case no: False
    with False show ?thesis
      by (intro pending) (auto simp: poll_admission_def split: list.splits)
  qed
qed

lemma enqueue_admitted_slot:
  assumes "enqueue_admitted ps d h = (r, d', h')"
  shows "waiters d' = waiters d \<and> drained d' = drained d \<and>
    (case r of Inl e \<Rightarrow> permits d' = Suc (permits d) \<and> inflight d' = inflight d
             | Inr ic \<Rightarrow> permits d' = permits d \<and> inflight d' = inflight d + 1)"
  using assms
  by (auto simp: enqueue_admitted_def Let_def release_permit_def drop_inflight_guard_def
      split: if_splits prod.splits sum.splits)

lemma disp_inv_queued:
  assumes inv: "disp_inv s" and k: "calls s k = Call_Queued"
  shows "disp_inv (step_queued s k)"
proof (cases rule: poll_admission_cases [of "call_cancelled s k" "deadline_hit s k" k "disp s"])
  case (fail e)
  then show ?thesis
    using inv k slot_inv_idle [of "disp s" "calls s" k "Call_Done (Err e)"]
    by (simp add: step_queued_def disp_inv_def queue_inv_leave subseq_leave)
next
  case pending
  with inv show ?thesis by (simp add: step_queued_def)
next
  case (granted ws)
  let ?d = "(disp s)\<lparr>permits := permits (disp s) - 1, waiters := ws\<rparr>"
  obtain r d' h' where adm: "enqueue_admitted (call_params s k) ?d (conn s) = (r, d', h')"
    by (metis prod_cases3)
  note slot = enqueue_admitted_slot [OF adm]
  have sub: "subseq ((admissions s @ [k]) @ ws) (arrivals s)"
    and queue: "\<And>c. c \<noteq> Call_Queued \<Longrightarrow> queue_inv ws ((calls s)(k := c))"
    using inv granted queue_inv_leave [of "k # ws" "calls s" _ k] by (auto simp: disp_inv_def)
  show ?thesis
  proof (cases r)
    case (Inl e)
    have "slot_inv d' ((calls s)(k := Call_Done (Err e)))"
      using inv k granted slot Inl slot_inv_idle [of "disp s" "calls s" k "Call_Done (Err e)"]
      by (simp add: disp_inv_def slot_inv_cong [of d' "disp s"])
    then show ?thesis
      using inv granted adm Inl sub queue slot by (simp add: step_queued_def disp_inv_def)
  next
    case (Inr ic)
    have "slot_inv d' ((calls s)(k := Call_Running ic False))"
      using inv granted slot Inr slot_inv_take [of "disp s" "calls s" d' k ic False]
      by (simp add: disp_inv_def)
    then show ?thesis
      using inv granted adm Inr sub queue slot by (simp add: step_queued_def disp_inv_def)
  qed
qed

lemma disp_inv_running:
  assumes inv: "disp_inv s" and k: "calls s k = Call_Running ic cs"
  shows "disp_inv (step_running s k ic cs)"
proof -
  obtain p h where poll: "poll_running (call_cancelled s k) (deadline_hit s k) cs ic (conn s) = (p, h)"
    by (metis surj_pair)
  have run: "is_running (calls s k)" using k by simp
  have queue: "\<And>c. c \<noteq> Call_Queued \<Longrightarrow> queue_inv (waiters (disp s)) ((calls s)(k := c))"
    using inv k by (auto simp: disp_inv_def intro: queue_inv_other)
  show ?thesis
    using inv poll queue slot_inv_keep [of "disp s" "calls s" k ic, OF _ run]
      slot_inv_release [of "disp s" "calls s" k, OF _ run]
    by (cases p) (auto simp: step_running_def disp_inv_def release_permit_def drop_inflight_guard_def)
qed

lemma disp_inv_step [inv_intros]: "disp_inv s \<Longrightarrow> disp_inv (disp_step s e)"
proof (cases e)
  case (Ev_Enqueue k)
  assume inv: "disp_inv s"
  show ?thesis
  proof (cases "calls s k = Call_New")
    case True
    then show ?thesis
      using inv Ev_Enqueue slot_inv_idle [of "disp s" "calls s" k]
      by (auto simp: enqueue_start_def disp_inv_def queue_inv_join queue_inv_other
          simp flip: append_assoc)
  qed (use inv Ev_Enqueue in simp)
next
  case (Ev_Poll k)
  assume "disp_inv s"
  then show ?thesis
    using Ev_Poll disp_inv_queued disp_inv_running by (auto split: call_state.splits)
next
  case (Ev_Abandon k)
  assume inv: "disp_inv s"
  show ?thesis
    using inv Ev_Abandon slot_inv_idle [of "disp s" "calls s" k Call_Dropped]
      slot_inv_release [of "disp s" "calls s" k Call_Dropped]
    by (auto simp: abandon_call_def disp_inv_def queue_inv_leave queue_inv_other subseq_leave
        release_permit_def drop_inflight_guard_def split: call_state.splits)
next
  case Ev_Drain
  assume "disp_inv s"
  then show ?thesis
    using Ev_Drain by (simp add: disp_inv_def disp_drain_def)
qed (simp_all add: disp_inv_def)

interpretation dm: event_machine disp_step disp_inv
  by unfold_locales (rule disp_inv_step)

lemma disp_inv_run: "disp_inv s \<Longrightarrow> disp_inv (disp_run s es)"
  unfolding disp_run_def by (rule dm.run_keeps)

text \<open>Every state that a sequence of events can lead to.\<close>

abbreviation disp_after ::
  "(nat \<Rightarrow> ToolCallParams) \<Rightarrow> (nat \<Rightarrow> instant option) \<Rightarrow> disp_event list \<Rightarrow> disp_sys" where
  "disp_after ps dls es \<equiv> disp_run (disp_init ps dls) es"

lemma disp_inv_after: "disp_inv (disp_after ps dls es)"
  by (intro disp_inv_run disp_inv_init)

section \<open>Exclusion and order\<close>

text \<open>
  The calls of a session run one at a time. After any sequence of
  events the number of running calls is the inflight counter, it is at most
  one, and the permit is free exactly when it is zero (so the counter never wraps).
\<close>

theorem one_call_runs_at_a_time:
  "card {k. is_running (calls (disp_after ps dls es) k)} = unat (inflight (disp (disp_after ps dls es))) \<and>
   permits (disp (disp_after ps dls es)) + unat (inflight (disp (disp_after ps dls es))) = 1"
proof -
  let ?s = "disp_after ps dls es"
  consider "permits (disp ?s) = 1" "inflight (disp ?s) = 0" "{k. is_running (calls ?s k)} = {}"
    | j where "permits (disp ?s) = 0" "inflight (disp ?s) = 1" "{k. is_running (calls ?s k)} = {j}"
    using disp_inv_after [of ps dls es] unfolding disp_inv_def slot_inv_def by blast
  then show ?thesis by cases simp_all
qed

text \<open>
  Calls are served in the order in which they arrived. The permit has been
  given to a subsequence of the arrivals, and the calls still waiting come after
  all of them in the same order; each call gets the permit at most once.
\<close>

theorem calls_are_served_in_order:
  "subseq (admissions (disp_after ps dls es) @ waiters (disp (disp_after ps dls es)))
     (arrivals (disp_after ps dls es)) \<and>
   distinct (admissions (disp_after ps dls es) @ waiters (disp (disp_after ps dls es))) \<and>
   set (waiters (disp (disp_after ps dls es))) = {k. calls (disp_after ps dls es) k = Call_Queued}"
  using disp_inv_after [of ps dls es] unfolding disp_inv_def queue_inv_def
  by (meson distinct_subseq)

lemma deadline_hit_upd [simp]:
  "deadline_hit (s\<lparr>conn := h\<rparr>) k = deadline_hit s k"
  "deadline_hit (s\<lparr>calls := cs\<rparr>) k = deadline_hit s k"
  by (simp_all add: deadline_hit_def split: option.split)

section \<open>Deadlines, cancellation and results\<close>

text \<open>
  No call outlives its deadline. A call whose deadline has passed is
  finished by its next poll, whether it waits in the queue or runs; while it is
  queued the reason is the timeout unless it was cancelled as well.
\<close>

theorem deadline_finishes_call:
  assumes "deadline_hit s k" "calls s k = Call_Queued \<or> is_running (calls s k)"
  shows "\<exists>r. calls (disp_step s (Ev_Poll k)) k = Call_Done r \<and>
    (calls s k = Call_Queued \<longrightarrow>
       r = Err (if call_cancelled s k then CancelledWhileQueued else TimedOutWhileQueued))"
  using assms
  by (auto simp: step_queued_def poll_admission_def step_running_def poll_running_def is_running_def
      split: oneshot.splits sum.splits)

text \<open>A call with its parameters, for the witnesses.\<close>

definition sample_call :: ToolCallParams where
  "sample_call = \<lparr>cp_name = ''find'', cp_arguments = JNull\<rparr>"

lemmas disp_eval = disp_run_def disp_init_def enqueue_start_def is_drained_def dispatcher_new_def
  step_queued_def poll_admission_def enqueue_admitted_def deadline_hit_def
  dispatch_request_def conn_is_active_def conn_new_def insert_pending_def
  fresh_id_def cancel_pending_def send_request_def Let_def

theorem deadline_finishes_call_witness:
  "\<exists>r. calls (disp_step (disp_after (\<lambda>_. sample_call) (\<lambda>_. Some 0) [Ev_Enqueue 7]) (Ev_Poll 7)) 7 = Call_Done r"
  using deadline_finishes_call [of "disp_after (\<lambda>_. sample_call) (\<lambda>_. Some 0) [Ev_Enqueue 7]" 7]
  by (simp add: deadline_hit_def disp_run_def disp_init_def enqueue_start_def is_drained_def
      dispatcher_new_def)

text \<open>
  Cancelling a running call is cooperative. The poll that sees the
  cancellation puts exactly one \<open>tool.cancel\<close> naming the call's request on the
  wire and the call goes on running; later polls send nothing more and wait for the
  terminal answer. A cancelled call that is still queued never reaches the client.
\<close>

theorem cancellation_is_cooperative:
  assumes c: "call_cancelled s k" and dl: "\<not> deadline_hit s k"
    and run: "calls s k = Call_Running (i, c) False"
    and wait: "cells (conn s) c = Empty" and fresh: "c < next_cell (conn s)"
    and conn: "conn_inv (conn s)" "conn_is_active (conn s)" "outbound_tx (conn s)" "receiver_open (conn s)"
  shows "let s1 = disp_step s (Ev_Poll k) in
    calls s1 k = Call_Running (i, c) True \<and> cells (conn s1) c = Empty \<and>
    sent (conn s1) = sent (conn s) @ [Request (mgr_id (next_id (conn s))) TOOL_CANCEL
       (encode_cancel_params \<lparr>tcp_id = i, tcp_reason = Some ''cancelled by manager''\<rparr>)] \<and>
    disp_step s1 (Ev_Poll k) = s1"
  using assms
  by (simp add: step_running_def poll_running_def send_tool_cancel_def dispatch_request_ok Let_def
      drop_receiver_def fun_upd_idem)

text \<open>A session with one running call that its caller has cancelled.\<close>

definition sample_running :: disp_sys where
  "sample_running =
     disp_after (\<lambda>_. sample_call) (\<lambda>_. None) [Ev_Enqueue 7, Ev_Poll 7, Ev_Cancel 7]"

lemma sample_running_facts:
  "call_cancelled sample_running 7" "\<not> deadline_hit sample_running 7"
  "calls sample_running 7 = Call_Running (mgr_id 0, 0) False"
  "cells (conn sample_running) 0 = Empty" "0 < next_cell (conn sample_running)"
  "map_of (pending (conn sample_running)) (mgr_id 0) = Some 0"
  "conn_is_active (conn sample_running)" "outbound_tx (conn sample_running)"
  "receiver_open (conn sample_running)"
  by (simp_all add: sample_running_def disp_eval)

lemma sample_running_inv: "conn_inv (conn sample_running)"
proof -
  have "conn sample_running = snd (dispatch_request TOOL_CALL (encode_call_params sample_call) conn_new)"
    by (simp add: sample_running_def disp_eval)
  moreover have "next_id conn_new \<noteq> -1" by (simp add: conn_new_def)
  ultimately show ?thesis using conn_inv_dispatch [OF conn_inv_new] by metis
qed

theorem cancellation_is_cooperative_witness:
  "calls (disp_step sample_running (Ev_Poll 7)) 7 = Call_Running (mgr_id 0, 0) True"
  using cancellation_is_cooperative [OF sample_running_facts(1-5) sample_running_inv
      sample_running_facts(7-9)]
  unfolding Let_def by blast

text \<open>
  The client's answer is the caller's result. When the client answers the
  request of a running call, the next poll finishes the call with the decoded
  result; an error with code \<open>-32800\<close> becomes \<open>Cancelled\<close>, any other error
  is passed on, an undecodable result is \<open>InvalidResult\<close>; the answer wins over a
  deadline that has passed meanwhile.
\<close>

theorem client_answer_is_returned:
  assumes run: "calls s k = Call_Running (i, c) cs"
    and wait: "map_of (pending (conn s)) i = Some c" "cells (conn s) c = Empty"
  shows "calls (disp_run s [Ev_Response i a, Ev_Tick n, Ev_Poll k]) k = Call_Done (case a of
      Inr v \<Rightarrow> (case decode_call_result v of
         Some r \<Rightarrow> Ok r | None \<Rightarrow> Err (InvalidResult ''invalid tool.call result''))
    | Inl e \<Rightarrow> Err (if err_code e = -32800 then Cancelled else ClientError e)) \<and>
    (cr_structured_content r \<noteq> Some JNull \<longrightarrow>
      calls (disp_run s [Ev_Response i (Ok (encode_call_result r)), Ev_Poll k]) k = Call_Done (Ok r))"
  using assms
  by (auto simp: disp_run_def complete_response_def Let_def step_running_def poll_running_def
      finish_call_def TOOL_CANCELLED_def call_result_roundtrip split: sum.splits)

theorem client_answer_is_returned_witness:
  "calls (disp_run sample_running [Ev_Response (mgr_id 0) (Err (JsonRpcError_new (-32800) ''cancelled'')),
     Ev_Tick 5, Ev_Poll 7]) 7 = Call_Done (Err Cancelled)"
  using client_answer_is_returned [OF sample_running_facts(3,6,4)]
  by (simp add: JsonRpcError_new_def)

section \<open>Draining\<close>

text \<open>
  Every unresolved cell is in the table of its connection, so that draining the
  connection resolves it.
\<close>

definition covered :: "ConnectionHandle \<Rightarrow> bool" where
  "covered h \<longleftrightarrow> hm_ok (pending h) \<and> (\<forall>c. cells h c = Empty \<longrightarrow> c \<in> snd ` set (pending h))"

lemma covered_new [inv_intros]: "covered conn_new"
  by (simp add: covered_def conn_new_def)

lemma covered_del:
  assumes "covered h" "map_of (pending h) i = Some c" "cells h d = Empty" "d \<noteq> c"
  shows "d \<in> snd ` set (hm_del i (pending h))"
  using assms hm.entries_get [of "pending h"] by (force simp: covered_def set_hm_del)

lemma covered_cancel [inv_intros]:
  assumes "covered h"
  shows "covered (cancel_pending i h)"
proof (cases "map_of (pending h) i")
  case (Some c)
  with assms show ?thesis
    by (auto simp: covered_def cancel_pending_def drop_sender_def hm_del_ok
        intro: covered_del [OF assms] split: if_splits)
qed (use assms in \<open>simp add: cancel_pending_def\<close>)

lemma cancel_pending_gone: "map_of (pending (cancel_pending i h)) i = None"
  by (simp add: cancel_pending_def hm_del_get split: option.splits)

lemma covered_insert [inv_intros]:
  assumes "covered h"
  shows "covered (snd (insert_pending h))"
proof -
  let ?i = "mgr_id (next_id h)" and ?h = "h\<lparr>next_id := next_id h + 1\<rparr>"
  have "covered ?h" using assms by (simp add: covered_def)
  then have "covered (cancel_pending ?i ?h)" by (rule covered_cancel)
  then show ?thesis
    using hm_put_ok [of "pending (cancel_pending ?i ?h)" ?i "next_cell h"]
    by (auto simp: insert_pending_def fresh_id_def Let_def covered_def
        hm_put_new [OF cancel_pending_gone])
qed

lemma covered_dispatch [inv_intros]:
  assumes "covered h"
  shows "covered (snd (dispatch_request meth ps h))"
proof -
  have "covered (snd (send_request ic meth ps (snd (insert_pending h))))" for ic
    using covered_insert [OF assms] covered_cancel [OF covered_insert [OF assms], of "fst ic"]
    by (auto simp: send_request_def covered_def)
  then show ?thesis using assms by (simp add: dispatch_request_def split_beta)
qed

lemma covered_drop_receiver [inv_intros]: "covered h \<Longrightarrow> covered (drop_receiver c h)"
  by (simp add: covered_def drop_receiver_def)

lemma covered_complete [inv_intros]:
  assumes "covered h"
  shows "covered (snd (complete_response i r h))"
proof (cases "map_of (pending h) i")
  case (Some c)
  with assms show ?thesis
    by (auto simp: covered_def complete_response_def Let_def hm_del_ok
        intro: covered_del [OF assms] split: if_splits)
qed (use assms in \<open>simp add: complete_response_def\<close>)

lemma covered_drain: "covered h \<Longrightarrow> cells (drain_pending h) c \<noteq> Empty"
  by (auto simp: covered_def drain_cells)

lemma covered_send_cancel [inv_intros]: "covered h \<Longrightarrow> covered (send_tool_cancel i h)"
  by (simp add: send_tool_cancel_def Let_def split_beta covered_dispatch covered_drop_receiver
      split: sum.splits)

lemma covered_admitted: "covered h \<Longrightarrow> enqueue_admitted ps d h = (r, d', h') \<Longrightarrow> covered h'"
  using covered_dispatch [of h]
  by (auto simp: enqueue_admitted_def Let_def split: if_splits prod.splits sum.splits)
     (metis snd_conv)+

lemma covered_running: "covered h \<Longrightarrow> poll_running cc dl cs ic h = (p, h') \<Longrightarrow> covered h'"
  by (auto simp: poll_running_def covered_cancel covered_send_cancel
      split: oneshot.splits sum.splits if_splits)

lemma covered_step [inv_intros]: "covered (conn s) \<Longrightarrow> covered (conn (disp_step s e))"
proof (induction s e rule: disp_step.induct)
  case (2 s k)
  then show ?case
    by (auto simp: step_queued_def step_running_def intro: covered_admitted covered_running
        split: call_state.splits prod.splits admission.splits sum.splits running.splits)
next
  case (5 s)
  then show ?case by (auto simp: covered_def drain_cells)
next
  case (7 s k)
  then show ?case by (auto simp: abandon_call_def covered_drop_receiver split: call_state.splits)
qed (auto simp: enqueue_start_def covered_complete split: sum.splits)

lemma covered_after: "covered (conn (disp_after ps dls es))"
proof -
  have "covered (conn s) \<Longrightarrow> covered (conn (disp_run s es))" for s
    unfolding disp_run_def by (induction es arbitrary: s) (auto intro: covered_step)
  then show ?thesis by (simp add: disp_init_def covered_new)
qed

text \<open>The receiver of a running call is held by that call: no other step drops it.\<close>

definition keeps :: "ConnectionHandle \<Rightarrow> ConnectionHandle \<Rightarrow> bool" where
  "keeps h h' \<longleftrightarrow> next_cell h \<le> next_cell h' \<and>
     (\<forall>c < next_cell h. cells h c \<noteq> ReceiverDropped \<longrightarrow> cells h' c \<noteq> ReceiverDropped)"

lemma keeps_refl [simp]: "keeps h h"
  by (simp add: keeps_def)

lemma keeps_cancel: "keeps h (cancel_pending i h)"
  by (auto simp: keeps_def cancel_pending_def drop_sender_def split: option.splits)

lemma keeps_complete: "keeps h (snd (complete_response i r h))"
  by (auto simp: keeps_def complete_response_def Let_def split: option.splits)

lemma keeps_drain: "keeps h (drain_pending h)"
  by (auto simp: keeps_def drain_cells)

lemma keeps_dispatch:
  assumes "dispatch_request meth ps h = (r, h')"
  shows "keeps h h' \<and> (\<forall>i c. r = Ok (i, c) \<longrightarrow> next_cell h \<le> c \<and> c < next_cell h' \<and> cells h' c = Empty)"
  using assms
  by (auto simp: dispatch_request_def insert_pending_def send_request_def fresh_id_def Let_def
      keeps_def cancel_pending_def drop_sender_def split: if_splits option.splits)

lemma keeps_send_cancel: "keeps h (send_tool_cancel i h)"
proof -
  obtain r h' where d: "dispatch_request TOOL_CANCEL
      (encode_cancel_params \<lparr>tcp_id = i, tcp_reason = Some ''cancelled by manager''\<rparr>) h = (r, h')"
    by (metis surj_pair)
  show ?thesis
    using keeps_dispatch [OF d]
    by (auto simp: send_tool_cancel_def Let_def d keeps_def drop_receiver_def split: sum.splits)
qed

lemma keeps_running: "poll_running cc dl cs ic h = (p, h') \<Longrightarrow> keeps h h'"
  using keeps_cancel [of h "fst ic"] keeps_send_cancel [of h "fst ic"]
  by (auto simp: poll_running_def split: oneshot.splits sum.splits if_splits)

definition run_cells :: "disp_sys \<Rightarrow> bool" where
  "run_cells s \<longleftrightarrow> (\<forall>k i c cs. calls s k = Call_Running (i, c) cs \<longrightarrow>
     c < next_cell (conn s) \<and> cells (conn s) c \<noteq> ReceiverDropped)"

lemma run_cells_keep:
  assumes "run_cells s" "keeps (conn s) (conn s')"
    and "\<And>k i c cs. calls s' k = Call_Running (i, c) cs \<Longrightarrow> \<exists>cs. calls s k = Call_Running (i, c) cs"
  shows "run_cells s'"
  using assms unfolding run_cells_def keeps_def by (meson less_le_trans)

lemma run_cells_queued:
  assumes "run_cells s"
  shows "run_cells (step_queued s k)"
proof (cases rule: poll_admission_cases [of "call_cancelled s k" "deadline_hit s k" k "disp s"])
  case (fail e)
  with assms show ?thesis by (auto simp: step_queued_def run_cells_def)
next
  case pending
  with assms show ?thesis by (simp add: step_queued_def)
next
  case (granted ws)
  let ?d = "(disp s)\<lparr>permits := permits (disp s) - 1, waiters := ws\<rparr>"
  obtain r d' h' where adm: "enqueue_admitted (call_params s k) ?d (conn s) = (r, d', h')"
    by (metis prod_cases3)
  have "keeps (conn s) h' \<and> (\<forall>i c. r = Ok (i, c) \<longrightarrow> c < next_cell h' \<and> cells h' c \<noteq> ReceiverDropped)"
    using adm keeps_dispatch [of TOOL_CALL _ "conn s"]
    by (auto simp: enqueue_admitted_def Let_def split: if_splits prod.splits sum.splits)
  with assms granted adm show ?thesis
    by (cases r) (auto simp: step_queued_def run_cells_def keeps_def, (meson less_le_trans)+)
qed

lemma run_cells_step [inv_intros]:
  assumes "run_cells s" "disp_inv s"
  shows "run_cells (disp_step s e)"
proof (cases e)
  case (Ev_Poll k)
  show ?thesis
  proof (cases "calls s k")
    case (Call_Running ic cs)
    obtain p h where poll: "poll_running (call_cancelled s k) (deadline_hit s k) cs ic (conn s) = (p, h)"
      by (metis surj_pair)
    show ?thesis
      using Ev_Poll Call_Running poll keeps_running [OF poll]
      by (intro run_cells_keep [OF assms(1)])
         (auto simp: step_running_def split: running.splits if_splits)
  qed (use assms Ev_Poll run_cells_queued in auto)
next
  case (Ev_Abandon k)
  have one: "j = k" if "is_running (calls s k)" "is_running (calls s j)" for j
    using assms(2) that unfolding disp_inv_def slot_inv_def by metis
  show ?thesis
  proof (cases "calls s k")
    case (Call_Running ic cs)
    then have "\<not> is_running (calls s j)" if "j \<noteq> k" for j using one that by auto
    then show ?thesis using Ev_Abandon Call_Running
      by (auto simp: abandon_call_def run_cells_def is_running_def)
  qed (use assms Ev_Abandon in \<open>auto simp: abandon_call_def run_cells_def\<close>)
qed (use assms in \<open>auto simp: enqueue_start_def keeps_complete keeps_drain
       intro!: run_cells_keep [OF assms(1)] split: sum.splits if_splits\<close>)

lemma run_cells_after: "run_cells (disp_after ps dls es)"
proof -
  have "run_cells s \<Longrightarrow> disp_inv s \<Longrightarrow> run_cells (disp_run s es)" for s
    unfolding disp_run_def
    by (induction es arbitrary: s) (auto intro: run_cells_step disp_inv_step)
  moreover have "run_cells (disp_init ps dls)" by (simp add: disp_init_def run_cells_def)
  ultimately show ?thesis by (simp add: disp_inv_init)
qed

text \<open>
  A session whose dispatcher is drained or whose connection is: a poll of a running call ends it, and
  the first waiter gets the permit only to find the session gone.
\<close>

definition dead_session :: "disp_sys \<Rightarrow> bool" where
  "dead_session s \<longleftrightarrow> (drained (disp s) \<or> \<not> conn_is_active (conn s)) \<and>
     (\<forall>k i c cs. calls s k = Call_Running (i, c) cs \<longrightarrow>
        (\<exists>r. cells (conn s) c = Full r) \<or> cells (conn s) c = SenderDropped)"

definition finished :: "call_state \<Rightarrow> bool" where
  "finished c \<longleftrightarrow> c \<noteq> Call_Queued \<and> \<not> is_running c"

lemma dead_poll_running:
  assumes "dead_session s" "calls s k = Call_Running ic cs"
  shows "\<exists>r. disp_step s (Ev_Poll k) = s\<lparr>disp := release_permit (drop_inflight_guard (disp s)),
     calls := (calls s)(k := Call_Done r)\<rparr>"
proof -
  have "(\<exists>r. cells (conn s) (snd ic) = Full r) \<or> cells (conn s) (snd ic) = SenderDropped"
    using assms unfolding dead_session_def by (metis prod.collapse)
  then have "\<exists>out. poll_running (call_cancelled s k) (deadline_hit s k) cs ic (conn s) = (Run_Done out, conn s)"
    by (auto simp: poll_running_def split: sum.split)
  with assms show ?thesis by (auto simp: step_running_def)
qed

lemma dead_poll_waiter:
  assumes "dead_session s" "calls s k = Call_Queued" "waiters (disp s) = k # ws" "permits (disp s) = 1"
  defines "s' \<equiv> disp_step s (Ev_Poll k)"
  shows "\<exists>e. calls s' = (calls s)(k := Call_Done (Err e)) \<and> waiters (disp s') = ws \<and>
    permits (disp s') = 1 \<and> drained (disp s') = drained (disp s) \<and> conn s' = conn s"
  using assms
  by (auto simp: dead_session_def step_queued_def poll_admission_def enqueue_admitted_def dispatch_request_def
      is_drained_def release_permit_def drop_inflight_guard_def)

lemma drained_step: "drained (disp s) \<Longrightarrow> drained (disp (disp_step s e))"
proof (induction s e rule: disp_step.induct)
  case (2 s k)
  then show ?case
    using enqueue_admitted_slot
    by (auto simp: step_queued_def step_running_def poll_admission_def release_permit_def
        drop_inflight_guard_def
        split: call_state.splits prod.splits admission.splits sum.splits running.splits
          if_splits list.splits)
qed (auto simp: enqueue_start_def is_drained_def disp_drain_def abandon_call_def release_permit_def
       drop_inflight_guard_def split: call_state.splits)

declare disp_step.simps [simp del]

lemma disp_run_simps [simp]:
  "disp_run s [] = s" "disp_run s (e # es) = disp_run (disp_step s e) es"
  "disp_run s (es @ fs) = disp_run (disp_run s es) fs"
  by (simp_all add: disp_run_def)

lemma dead_poll_others:
  assumes "dead_session s" "\<forall>k \<in> set js. calls s k \<noteq> Call_Queued"
  defines "s' \<equiv> disp_run s (map Ev_Poll js)"
  shows "dead_session s' \<and> waiters (disp s') = waiters (disp s) \<and>
    (\<forall>k \<in> set js. \<not> is_running (calls s' k)) \<and>
    (\<forall>k. calls s' k = calls s k \<or> is_running (calls s k) \<and> finished (calls s' k))"
  using assms(1,2) unfolding s'_def
proof (induction js arbitrary: s)
  case (Cons j js)
  show ?case
  proof (cases "is_running (calls s j)")
    case True
    then obtain ic cs where "calls s j = Call_Running ic cs" by (auto simp: is_running_def)
    from dead_poll_running [OF Cons.prems(1) this] obtain r where
      st: "disp_step s (Ev_Poll j) = s\<lparr>disp := release_permit (drop_inflight_guard (disp s)),
        calls := (calls s)(j := Call_Done r)\<rparr>" by blast
    have "dead_session (disp_step s (Ev_Poll j))"
      using Cons.prems(1)
      by (auto simp: st dead_session_def release_permit_def drop_inflight_guard_def)
    from Cons.IH [OF this] Cons.prems(2) have ih:
      "dead_session (disp_run (disp_step s (Ev_Poll j)) (map Ev_Poll js))"
      "waiters (disp (disp_run (disp_step s (Ev_Poll j)) (map Ev_Poll js))) = waiters (disp s)"
      "\<forall>k \<in> set js. \<not> is_running (calls (disp_run (disp_step s (Ev_Poll j)) (map Ev_Poll js)) k)"
      "\<And>k. calls (disp_run (disp_step s (Ev_Poll j)) (map Ev_Poll js)) k = ((calls s)(j := Call_Done r)) k \<or>
         is_running (((calls s)(j := Call_Done r)) k) \<and>
         finished (calls (disp_run (disp_step s (Ev_Poll j)) (map Ev_Poll js)) k)"
      by (simp_all add: st release_permit_def drop_inflight_guard_def)
    have "\<not> is_running (calls (disp_run (disp_step s (Ev_Poll j)) (map Ev_Poll js)) j) \<and>
      finished (calls (disp_run (disp_step s (Ev_Poll j)) (map Ev_Poll js)) j)"
      using ih(4) [of j] by (auto simp: finished_def)
    then show ?thesis using ih(1-3) ih(4) True by (simp, metis fun_upd_other)
  next
    case False
    then have "disp_step s (Ev_Poll j) = s"
      using Cons.prems(2) by (cases "calls s j") (auto simp: disp_step.simps)
    with Cons.IH [OF Cons.prems(1)] Cons.prems(2) False show ?thesis by auto metis+
  qed
qed simp

lemma dead_poll_queue:
  assumes "dead_session s" "queue_inv ws (calls s)" "waiters (disp s) = ws" "permits (disp s) = 1"
    "\<forall>k. \<not> is_running (calls s k)"
  shows "\<forall>k. finished (calls (disp_run s (map Ev_Poll ws)) k)"
  using assms
proof (induction ws arbitrary: s)
  case Nil
  then show ?case by (auto simp: queue_inv_def finished_def)
next
  case (Cons k ws)
  let ?s = "disp_step s (Ev_Poll k)"
  have "calls s k = Call_Queued" using Cons.prems(2) by (auto simp: queue_inv_def)
  from dead_poll_waiter [OF Cons.prems(1) this Cons.prems(3,4)] obtain e where
    st: "calls ?s = (calls s)(k := Call_Done (Err e))" "waiters (disp ?s) = ws"
      "permits (disp ?s) = 1" "drained (disp ?s) = drained (disp s)" "conn ?s = conn s" by blast
  have norun: "\<forall>j. \<not> is_running (calls ?s j)" using Cons.prems(5) by (simp add: st)
  then have "dead_session ?s" using st Cons.prems(1) by (auto simp: dead_session_def is_running_def)
  moreover have "queue_inv ws (calls ?s)"
    using queue_inv_leave [OF Cons.prems(2), of _ k] by (simp add: st)
  ultimately have "\<forall>j. finished (calls (disp_run ?s (map Ev_Poll ws)) j)"
    by (rule Cons.IH) (fact st(2) st(3) norun)+
  then show ?case by simp
qed

text \<open>
  A drained session leaves nobody waiting. When the connection and the
  dispatcher have been drained, polling the running call and then the waiters
  in queue order finishes every call of the session, and a new call is refused with
  \<open>SessionGone\<close>.
\<close>

theorem drain_finishes_every_call:
  assumes "s = disp_after ps dls es" "set js = {k. is_running (calls s k)}"
  defines "t \<equiv> disp_run s (Ev_Drain # map Ev_Poll js @ map Ev_Poll (waiters (disp s)))"
  shows "(\<forall>k. finished (calls t k)) \<and>
    (\<forall>k. calls t k = Call_New \<longrightarrow> calls (disp_step t (Ev_Enqueue k)) k = Call_Done (Err SessionGone))"
proof -
  let ?d = "disp_step s Ev_Drain" and ?u = "disp_run (disp_step s Ev_Drain) (map Ev_Poll js)"
  have d: "?d = disp_after ps dls (es @ [Ev_Drain])" and u: "?u = disp_after ps dls (es @ Ev_Drain # map Ev_Poll js)"
    and t: "t = disp_after ps dls (es @ Ev_Drain # map Ev_Poll js @ map Ev_Poll (waiters (disp s)))"
    by (simp_all add: assms(1) t_def)
  have "cells (conn ?d) c \<noteq> Empty" for c
    using covered_after [of ps dls es] covered_drain by (simp add: assms(1) disp_step.simps)
  then have dead: "dead_session ?d"
    using run_cells_after [of ps dls "es @ [Ev_Drain]"] oneshot.exhaust
    unfolding d [symmetric] dead_session_def run_cells_def by (simp add: disp_drain_def disp_step.simps) metis
  from dead_poll_others [OF dead, of js] assms(2) have
    u1: "dead_session ?u" "waiters (disp ?u) = waiters (disp s)"
      "\<forall>k. \<not> is_running (calls ?u k)"
    by (auto simp: disp_drain_def finished_def disp_step.simps) (metis is_running_simps)+
  have "slot_inv (disp ?u) (calls ?u)" "queue_inv (waiters (disp ?u)) (calls ?u)"
    using disp_inv_after [of ps dls "es @ Ev_Drain # map Ev_Poll js"]
    unfolding u [symmetric] disp_inv_def by blast+
  then have fin: "\<forall>k. finished (calls t k)"
    using dead_poll_queue [OF u1(1) _ u1(2)] u1(2,3) by (auto simp: t_def slot_inv_def)
  have "drained (disp x) \<Longrightarrow> drained (disp (disp_run x fs))" for x fs
    by (induction fs rule: rev_induct) (simp_all add: drained_step)
  moreover have "drained (disp ?d)" by (simp add: disp_drain_def disp_step.simps)
  ultimately have "drained (disp t)" by (simp add: t_def)
  with fin show ?thesis by (simp add: enqueue_start_def is_drained_def disp_step.simps)
qed

theorem drain_finishes_every_call_witness:
  "finished (calls (disp_run sample_running [Ev_Drain, Ev_Poll 7]) 7)"
proof -
  have r: "{k. is_running (calls sample_running k)} = {7}" and w: "waiters (disp sample_running) = []"
    by (auto simp: sample_running_def disp_step.simps disp_eval disp_run_def is_running_def split: if_splits)
  then show ?thesis
    using drain_finishes_every_call [OF sample_running_def, of "[7]"] by (simp add: w)
qed

end
