(* ===== verification/Tools_Cache.thy ===== *)
theory Tools_Cache
  imports Protocol "HOL-Library.Product_Lexorder" "HOL-Library.Multiset"
begin

text \<open>
  The persistent cache of tools (\<open>src/session_manager/tools_cache.rs\<close>) and
  the atomic file write it rests on (\<open>src/support/atomic_write.rs\<close>).
  Times are UTC milliseconds. The text of the cache file is what the serializer
  makes of a JSON value; serializer, parser and the printing of times are third-party
  code and appear as parameters.
\<close>

section \<open>Atomic replacement of a file\<close>

text \<open>
  The file the program reads, and the temporary file in the same directory.
  A write may stop after any step, because the step failed or because the process
  died; the temporary file is removed when its handle is dropped.
\<close>

record file_state =
  target :: "string option"
  temp :: "string option"

datatype write_step = Create_Parent | Create_Temp | Fill_Temp nat | Sync_Temp | Persist_Temp

text \<open>\<open>Fill_Temp n\<close> has written the first \<open>n\<close> bytes.\<close>

fun do_write_step :: "string \<Rightarrow> write_step \<Rightarrow> file_state \<Rightarrow> file_state" where
  "do_write_step t Create_Parent f = f"
| "do_write_step t Create_Temp f = f\<lparr>temp := Some []\<rparr>"
| "do_write_step t (Fill_Temp n) f = f\<lparr>temp := Some (take n t)\<rparr>"
| "do_write_step t Sync_Temp f = f"
| "do_write_step t Persist_Temp f = f\<lparr>target := temp f, temp := None\<rparr>"

definition write_steps :: "string \<Rightarrow> write_step list" where
  "write_steps t = [Create_Parent, Create_Temp] @ map Fill_Temp [0..<Suc (length t)] @
     [Sync_Temp, Persist_Temp]"

definition run_write :: "string \<Rightarrow> write_step list \<Rightarrow> file_state \<Rightarrow> file_state" where
  "run_write t ss f = foldl (\<lambda>f s. do_write_step t s f) f ss"

text \<open>
  \<open>write_json_atomic\<close>: \<open>fail\<close> is the number of the step that fails, if
  one does; dropping the handle then deletes the temporary file.
\<close>

definition write_json_atomic :: "nat option \<Rightarrow> string \<Rightarrow> file_state \<Rightarrow> bool \<times> file_state" where
  "write_json_atomic fail t f = (case fail of
     None \<Rightarrow> (True, run_write t (write_steps t) f)
   | Some n \<Rightarrow> if n < length (write_steps t)
               then (False, (run_write t (take n (write_steps t)) f)\<lparr>temp := None\<rparr>)
               else (True, run_write t (write_steps t) f))"

lemma run_write_append: "run_write t (ss @ rs) f = run_write t rs (run_write t ss f)"
  by (simp add: run_write_def)

lemma run_write_target:
  "Persist_Temp \<notin> set ss \<Longrightarrow> target (run_write t ss f) = target f"
  unfolding run_write_def
proof (induction ss arbitrary: f)
  case (Cons s ss)
  then show ?case by (cases s) auto
qed simp

lemma write_steps_target: "target (run_write t (write_steps t) f) = Some t"
  unfolding write_steps_def run_write_append by (simp add: run_write_def)

lemma take_write_steps:
  assumes "n < length (write_steps t)"
  shows "Persist_Temp \<notin> set (take n (write_steps t))"
proof -
  have "take n (write_steps t) = take n (butlast (write_steps t))"
    using assms by (simp add: take_butlast)
  moreover have "Persist_Temp \<notin> set (butlast (write_steps t))"
    by (auto simp: write_steps_def butlast_append)
  ultimately show ?thesis by (metis in_set_takeD)
qed

text \<open>
  C29: the cache file is replaced atomically. Wherever a write stops, the file
  holds either the old contents or the new ones in full; the write reports success exactly
  when it holds the new ones, and then leaves no temporary file behind.
\<close>

theorem atomic_write_all_or_nothing:
  "target (run_write t (take n (write_steps t)) f) = (if n < length (write_steps t) then target f else Some t) \<and>
   (let (ok, g) = write_json_atomic fail t f in
      target g = (if ok then Some t else target f) \<and> (temp f = None \<longrightarrow> temp g = None))"
proof -
  have stop: "target (run_write t (take n (write_steps t)) f) = target f" if "n < length (write_steps t)" for n
    by (rule run_write_target) (rule take_write_steps [OF that])
  have "temp (run_write t (write_steps t) f) = None"
    unfolding write_steps_def run_write_append by (simp add: run_write_def)
  with stop show ?thesis
    by (auto simp: write_json_atomic_def write_steps_target split: option.splits)
qed

theorem atomic_write_all_or_nothing_witness:
  "target (run_write ''new'' (take 4 (write_steps ''new'')) \<lparr>target = Some ''old'', temp = None\<rparr>) = Some ''old'' \<and>
   target (snd (write_json_atomic None ''new'' \<lparr>target = Some ''old'', temp = None\<rparr>)) = Some ''new''"
  using atomic_write_all_or_nothing [of "''new''" 4 "\<lparr>target = Some ''old'', temp = None\<rparr>" None]
  by (simp add: write_steps_def write_json_atomic_def split_beta)

text \<open>
  What the cache and the outbox rely on when they save themselves: a save leaves the
  new contents in the file, or fails and leaves the old ones. A component that changes its state
  only when the save succeeded, and rolls back otherwise, never disagrees with its file.
\<close>

locale durable_file =
  fixes save :: "string \<Rightarrow> 'f \<Rightarrow> bool \<times> 'f"
    and contents :: "'f \<Rightarrow> string option"
  assumes save_ok: "save t f = (True, g) \<Longrightarrow> contents g = Some t"
    and save_failed: "save t f = (False, g) \<Longrightarrow> contents g = contents f"
begin

lemma save_contents: "contents (snd (save t f)) = (if fst (save t f) then Some t else contents f)"
  by (cases "save t f") (use save_ok save_failed in \<open>force\<close>)

lemma rollback_keeps_file:
  assumes "contents f = Some (render s)" "save (render s') f = (ok, g)"
  shows "contents g = Some (render (if ok then s' else s))"
  using save_contents [of "render s'" f] assms by auto

end

interpretation df: durable_file "write_json_atomic fault" target for fault
proof
  fix t f g
  show "target g = Some t" if "write_json_atomic fault t f = (True, g)"
    using that by (auto simp: write_json_atomic_def write_steps_target split: option.splits if_splits)
  show "target g = target f" if "write_json_atomic fault t f = (False, g)"
    using that run_write_target [OF take_write_steps, where t = t and f = f]
    by (auto simp: write_json_atomic_def split: option.splits if_splits)
qed

section \<open>Entries and the file format\<close>

type_synonym utc = int

record ToolsCacheEntry =
  ce_kind :: string
  ce_config_id :: string
  ce_tools :: "ToolDescriptor list"
  ce_last_seen_at :: utc

record PersistedCache =
  pc_version :: u32
  pc_entries :: "ToolsCacheEntry list"

definition FORMAT_VERSION :: u32 where "FORMAT_VERSION = 1"

text \<open>Third-party text and time formats: JSON text and RFC 3339 times.\<close>

record serde =
  sd_print :: "json \<Rightarrow> string"
  sd_parse :: "string \<Rightarrow> json option"
  sd_time :: "utc \<Rightarrow> string"
  sd_untime :: "string \<Rightarrow> utc option"

definition encode_entry :: "serde \<Rightarrow> ToolsCacheEntry \<Rightarrow> json" where
  "encode_entry sd e = jobj [(''kind'', JString (ce_kind e)), (''config_id'', JString (ce_config_id e)),
     (''tools'', JArray (map encode_tool (ce_tools e))), (''last_seen_at'', JString (sd_time sd (ce_last_seen_at e)))]"

definition decode_entry :: "serde \<Rightarrow> json \<Rightarrow> ToolsCacheEntry option" where
  "decode_entry sd v =
     Option.bind (struct_map [''kind'', ''config_id'', ''tools'', ''last_seen_at''] v) (\<lambda>m.
     Option.bind (field_req dec_string ''kind'' m) (\<lambda>k.
     Option.bind (field_req dec_string ''config_id'' m) (\<lambda>c.
     Option.bind (field_req (dec_list decode_tool) ''tools'' m) (\<lambda>ts.
     Option.bind (field_req (\<lambda>j. Option.bind (dec_string j) (sd_untime sd)) ''last_seen_at'' m) (\<lambda>t.
       Some \<lparr>ce_kind = k, ce_config_id = c, ce_tools = ts, ce_last_seen_at = t\<rparr>)))))"

definition encode_persisted :: "serde \<Rightarrow> PersistedCache \<Rightarrow> json" where
  "encode_persisted sd p = jobj [(''version'', enc_u32 (pc_version p)),
     (''entries'', JArray (map (encode_entry sd) (pc_entries p)))]"

definition decode_persisted :: "serde \<Rightarrow> json \<Rightarrow> PersistedCache option" where
  "decode_persisted sd v =
     Option.bind (struct_map [''version'', ''entries''] v) (\<lambda>m.
     Option.bind (field_req dec_u32 ''version'' m) (\<lambda>n.
     Option.bind (field_req (dec_list (decode_entry sd)) ''entries'' m) (\<lambda>es.
       Some \<lparr>pc_version = n, pc_entries = es\<rparr>)))"

section \<open>The store\<close>

type_synonym cache_key = "string \<times> string"

text \<open>
  \<open>write_fault\<close> is the step at which the environment lets file writes fail, if
  any; \<open>hook_calls\<close> counts the calls of \<open>notifier_hook\<close>.
\<close>

record ToolsCacheConfig =
  tcc_enabled :: bool
  tcc_cache_life :: duration

record ToolsCacheStore =
  tc_inner :: "(cache_key, ToolsCacheEntry) hash_map"
  tc_cache_life :: duration
  tc_enabled :: bool
  tc_file :: file_state
  write_fault :: "nat option"
  hook_calls :: nat

definition entry_key :: "ToolsCacheEntry \<Rightarrow> cache_key" where
  "entry_key e = (ce_kind e, ce_config_id e)"

definition load_from_disk :: "serde \<Rightarrow> bool \<Rightarrow> file_state \<Rightarrow> (cache_key, ToolsCacheEntry) hash_map" where
  "load_from_disk sd readable f = (case target f of
     None \<Rightarrow> []
   | Some t \<Rightarrow>
       if \<not> readable then []
       else (case Option.bind (sd_parse sd t) (decode_persisted sd) of
               None \<Rightarrow> []
             | Some p \<Rightarrow> if pc_version p \<noteq> FORMAT_VERSION then []
                         else foldl (\<lambda>m e. hm_put (entry_key e) e m) [] (pc_entries p)))"

definition load_or_empty :: "serde \<Rightarrow> bool \<Rightarrow> ToolsCacheConfig \<Rightarrow> file_state \<Rightarrow> ToolsCacheStore" where
  "load_or_empty sd readable cfg f =
     \<lparr>tc_inner = (if tcc_enabled cfg then load_from_disk sd readable f else []),
      tc_cache_life = tcc_cache_life cfg, tc_enabled = tcc_enabled cfg, tc_file = f,
      write_fault = None, hook_calls = 0\<rparr>"

definition sorted_entries :: "ToolsCacheStore \<Rightarrow> ToolsCacheEntry list" where
  "sorted_entries s = sort_key entry_key (map snd (tc_inner s))"

definition persist :: "serde \<Rightarrow> ToolsCacheStore \<Rightarrow> ToolsCacheStore" where
  "persist sd s =
     (if \<not> tc_enabled s then s
      else s\<lparr>tc_file := snd (write_json_atomic (write_fault s)
             (sd_print sd (encode_persisted sd \<lparr>pc_version = FORMAT_VERSION, pc_entries = sorted_entries s\<rparr>))
             (tc_file s))\<rparr>)"

definition notifier_hook :: "ToolsCacheStore \<Rightarrow> ToolsCacheStore" where
  "notifier_hook s = s\<lparr>hook_calls := Suc (hook_calls s)\<rparr>"

text \<open>
  \<open>chrono::Duration::from_std\<close> fails above \<open>i64::MAX\<close> milliseconds; the
  fallback is a hundred years.
\<close>

definition chrono_life :: "duration \<Rightarrow> int" where
  "chrono_life d = (if d < 2 ^ 63 then int d else 365 * 100 * 86400000)"

definition fresh :: "utc \<Rightarrow> ToolsCacheStore \<Rightarrow> ToolsCacheEntry \<Rightarrow> bool" where
  "fresh now s e \<longleftrightarrow> now - ce_last_seen_at e \<le> chrono_life (tc_cache_life s)"

definition evict_expired :: "serde \<Rightarrow> utc \<Rightarrow> ToolsCacheStore \<Rightarrow> bool \<times> ToolsCacheStore" where
  "evict_expired sd now s =
     (let m = hm_retain (\<lambda>_ e. fresh now s e) (tc_inner s); s1 = s\<lparr>tc_inner := m\<rparr> in
      if length m \<noteq> length (tc_inner s) then (True, notifier_hook (persist sd s1)) else (False, s1))"

definition upsert ::
  "serde \<Rightarrow> utc \<Rightarrow> utc \<Rightarrow> string \<Rightarrow> string \<Rightarrow> ToolDescriptor list \<Rightarrow> ToolsCacheStore \<Rightarrow> bool \<times> ToolsCacheStore" where
  "upsert sd now now' kind config_id tools s =
     (if \<not> tc_enabled s then (False, s)
      else
        let (evicted, s1) = evict_expired sd now s;
            (changed, e) = (case map_of (tc_inner s1) (kind, config_id) of
               Some old \<Rightarrow> (ce_tools old \<noteq> tools, old\<lparr>ce_last_seen_at := now', ce_tools := tools\<rparr>)
             | None \<Rightarrow> (True, \<lparr>ce_kind = kind, ce_config_id = config_id, ce_tools = tools,
                               ce_last_seen_at = now'\<rparr>));
            s2 = s1\<lparr>tc_inner := hm_put (kind, config_id) e (tc_inner s1)\<rparr>;
            s3 = (if changed \<or> evicted then persist sd s2 else s2)
        in (changed, if changed then notifier_hook s3 else s3))"

definition cache_list_all :: "serde \<Rightarrow> utc \<Rightarrow> ToolsCacheStore \<Rightarrow> ToolsCacheEntry list \<times> ToolsCacheStore" where
  "cache_list_all sd now s =
     (if \<not> tc_enabled s then ([], s)
      else (let s1 = snd (evict_expired sd now s) in (sorted_entries s1, s1)))"

definition reset_all :: "serde \<Rightarrow> ToolsCacheStore \<Rightarrow> nat \<times> ToolsCacheStore" where
  "reset_all sd s =
     (if \<not> tc_enabled s then (0, s)
      else (let n = length (tc_inner s); s1 = s\<lparr>tc_inner := []\<rparr> in
            (n, if 0 < n then notifier_hook (persist sd s1) else s1)))"

definition reset_by_config_id :: "serde \<Rightarrow> string \<Rightarrow> ToolsCacheStore \<Rightarrow> nat \<times> ToolsCacheStore" where
  "reset_by_config_id sd cid s =
     (if \<not> tc_enabled s then (0, s)
      else (let m = hm_retain (\<lambda>k _. snd k \<noteq> cid) (tc_inner s); s1 = s\<lparr>tc_inner := m\<rparr>;
                n = length (tc_inner s) - length m
            in (n, if 0 < n then notifier_hook (persist sd s1) else s1)))"

section \<open>Invariant\<close>

text \<open>The map has one entry per key, stored under its own kind and configuration.\<close>

definition cache_inv :: "ToolsCacheStore \<Rightarrow> bool" where
  "cache_inv s \<longleftrightarrow> hm_ok (tc_inner s) \<and> (\<forall>(k, e) \<in> set (tc_inner s). k = entry_key e)"

lemma store_fields [simp]:
  "tc_inner (persist sd s) = tc_inner s" "tc_inner (notifier_hook s) = tc_inner s"
  "tc_enabled (persist sd s) = tc_enabled s" "tc_enabled (notifier_hook s) = tc_enabled s"
  "tc_cache_life (persist sd s) = tc_cache_life s" "tc_cache_life (notifier_hook s) = tc_cache_life s"
  "write_fault (persist sd s) = write_fault s" "write_fault (notifier_hook s) = write_fault s"
  "hook_calls (persist sd s) = hook_calls s" "hook_calls (notifier_hook s) = Suc (hook_calls s)"
  "tc_file (notifier_hook s) = tc_file s"
  by (simp_all add: persist_def notifier_hook_def)

lemma cache_inv_inner: "tc_inner s = tc_inner t \<Longrightarrow> cache_inv s = cache_inv t"
  by (simp add: cache_inv_def)

lemma evict_inner:
  "tc_inner (snd (evict_expired sd now s)) = hm_retain (\<lambda>_ e. fresh now s e) (tc_inner s)"
  "tc_enabled (snd (evict_expired sd now s)) = tc_enabled s"
  "tc_cache_life (snd (evict_expired sd now s)) = tc_cache_life s"
  "write_fault (snd (evict_expired sd now s)) = write_fault s"
  by (simp_all add: evict_expired_def Let_def)

lemma cache_inv_put:
  "cache_inv s \<Longrightarrow> k = entry_key e \<Longrightarrow> cache_inv (s\<lparr>tc_inner := hm_put k e (tc_inner s)\<rparr>)"
  using hm.entries_put [of "tc_inner s" k e] by (auto simp: cache_inv_def hm_put_ok)

lemma cache_inv_retain:
  "cache_inv s \<Longrightarrow> tc_inner t = hm_retain p (tc_inner s) \<Longrightarrow> cache_inv t"
  by (auto simp: cache_inv_def hm_retain_ok) (auto simp: hm_retain_def)

lemma cache_inv_evict [inv_intros]: "cache_inv s \<Longrightarrow> cache_inv (snd (evict_expired sd now s))"
  by (rule cache_inv_retain) (simp_all add: evict_inner)

lemma cache_inv_lookup: "cache_inv s \<Longrightarrow> map_of (tc_inner s) k = Some e \<Longrightarrow> k = entry_key e"
  by (auto simp: cache_inv_def dest: map_of_SomeD)

lemma upsert_inner:
  assumes "tc_enabled s"
  shows "tc_inner (snd (upsert sd now now' k c ts s)) =
     hm_put (k, c) (case map_of (tc_inner (snd (evict_expired sd now s))) (k, c) of
        Some e \<Rightarrow> e\<lparr>ce_last_seen_at := now', ce_tools := ts\<rparr>
      | None \<Rightarrow> \<lparr>ce_kind = k, ce_config_id = c, ce_tools = ts, ce_last_seen_at = now'\<rparr>)
      (tc_inner (snd (evict_expired sd now s)))"
  using assms
  by (auto simp: upsert_def Let_def split_beta split: option.splits)

lemma refreshed_entry:
  "e\<lparr>ce_last_seen_at := t, ce_tools := ts\<rparr> =
     \<lparr>ce_kind = ce_kind e, ce_config_id = ce_config_id e, ce_tools = ts, ce_last_seen_at = t\<rparr>"
  for e :: ToolsCacheEntry
  by (cases e) simp

lemma upsert_entry:
  assumes "cache_inv s" "tc_enabled s"
  shows "tc_inner (snd (upsert sd now now' k c ts s)) =
     hm_put (k, c) \<lparr>ce_kind = k, ce_config_id = c, ce_tools = ts, ce_last_seen_at = now'\<rparr>
       (hm_retain (\<lambda>_ e. fresh now s e) (tc_inner s))"
  using cache_inv_lookup [OF cache_inv_evict [OF assms(1)], of sd now "(k, c)"]
  by (auto simp: upsert_inner [OF assms(2)] evict_inner entry_key_def refreshed_entry split: option.splits)

lemma cache_inv_upsert [inv_intros]:
  assumes "cache_inv s"
  shows "cache_inv (snd (upsert sd now now' k c ts s))"
proof (cases "tc_enabled s")
  case True
  let ?e = "\<lparr>ce_kind = k, ce_config_id = c, ce_tools = ts, ce_last_seen_at = now'\<rparr>"
  have "cache_inv ((snd (evict_expired sd now s))\<lparr>tc_inner :=
      hm_put (k, c) ?e (tc_inner (snd (evict_expired sd now s)))\<rparr>)"
    by (intro cache_inv_put cache_inv_evict assms) (simp add: entry_key_def)
  then show ?thesis by (simp add: cache_inv_def upsert_entry [OF assms True] evict_inner)
qed (use assms in \<open>simp add: upsert_def\<close>)

lemma cache_inv_resets [inv_intros]:
  "cache_inv s \<Longrightarrow> cache_inv (snd (reset_all sd s))"
  "cache_inv s \<Longrightarrow> cache_inv (snd (reset_by_config_id sd cid s))"
  "cache_inv s \<Longrightarrow> cache_inv (snd (cache_list_all sd now s))"
proof -
  show "cache_inv s \<Longrightarrow> cache_inv (snd (reset_all sd s))"
    by (simp add: reset_all_def Let_def cache_inv_def)
  show "cache_inv s \<Longrightarrow> cache_inv (snd (cache_list_all sd now s))"
    by (simp add: cache_list_all_def Let_def cache_inv_evict)
  assume "cache_inv s"
  then show "cache_inv (snd (reset_by_config_id sd cid s))"
    using cache_inv_retain [OF \<open>cache_inv s\<close>]
    by (simp add: reset_by_config_id_def Let_def)
qed

lemma cache_inv_load [inv_intros]: "cache_inv (load_or_empty sd readable cfg f)"
proof -
  have "cache_inv (s\<lparr>tc_inner := foldl (\<lambda>m e. hm_put (entry_key e) e m) (tc_inner s) es\<rparr>)"
    if "cache_inv s" for s :: ToolsCacheStore and es
    using that
  proof (induction es arbitrary: s)
    case (Cons e es)
    from Cons.IH [OF cache_inv_put [OF Cons.prems refl, of e]] show ?case by simp
  qed simp
  from this [of "load_or_empty sd readable cfg f\<lparr>tc_inner := []\<rparr>"] show ?thesis
    by (auto simp: load_or_empty_def load_from_disk_def cache_inv_def split: option.splits)
qed

section \<open>What the cache offers\<close>

text \<open>
  The contract the registry and the server rely on: a snapshot of tools put
  under a key is the one that is found there, and other keys are not touched.
\<close>

locale tool_snapshots =
  fixes lookup :: "'s \<Rightarrow> cache_key \<Rightarrow> ToolDescriptor list option"
    and put :: "cache_key \<Rightarrow> ToolDescriptor list \<Rightarrow> 's \<Rightarrow> 's"
    and live :: "'s \<Rightarrow> bool"
  assumes put_live: "live s \<Longrightarrow> live (put k ts s)"
    and put_same: "live s \<Longrightarrow> lookup (put k ts s) k = Some ts"
    and put_other: "live s \<Longrightarrow> j \<noteq> k \<Longrightarrow> lookup (put k ts s) j = lookup s j"
begin

lemma put_lookup: "live s \<Longrightarrow> lookup (put k ts s) = (lookup s)(k \<mapsto> ts)"
  by (rule ext) (simp add: put_same put_other)

lemma puts_lookup:
  "live s \<Longrightarrow> lookup (fold (\<lambda>(k, ts). put k ts) kvs s) = (lookup s) ++ map_of (rev kvs)"
  by (induction kvs arbitrary: s) (auto simp: put_live put_lookup map_add_def fun_eq_iff split: option.splits)

lemma put_all_tools:
  assumes "live s" "\<forall>k ts. lookup s k = Some ts \<longrightarrow> (\<forall>t \<in> set ts. p t)" "\<forall>t \<in> set us. p t"
  shows "\<forall>k ts. lookup (put j us s) k = Some ts \<longrightarrow> (\<forall>t \<in> set ts. p t)"
  using assms by (simp add: put_lookup)

end

definition cache_lookup :: "ToolsCacheStore \<Rightarrow> cache_key \<Rightarrow> ToolDescriptor list option" where
  "cache_lookup s k = map_option ce_tools (map_of (tc_inner s) k)"

definition cache_live :: "utc \<Rightarrow> ToolsCacheStore \<Rightarrow> bool" where
  "cache_live now s \<longleftrightarrow> cache_inv s \<and> tc_enabled s \<and> (\<forall>(k, e) \<in> set (tc_inner s). fresh now s e)"

lemma chrono_life_nonneg: "0 \<le> chrono_life d"
  by (simp add: chrono_life_def)

lemma hm_retain_all: "\<forall>(k, e) \<in> set m. p k e \<Longrightarrow> hm_retain p m = m"
  by (auto simp: hm_retain_def filter_id_conv)

lemma upsert_fields:
  "tc_enabled (snd (upsert sd now now' k c ts s)) = tc_enabled s"
  "tc_cache_life (snd (upsert sd now now' k c ts s)) = tc_cache_life s"
  by (auto simp: upsert_def Let_def split_beta evict_inner)

lemma upsert_live:
  assumes "cache_live now s"
  shows "cache_live now (snd (upsert sd now now k c ts s))"
    and "tc_inner (snd (upsert sd now now k c ts s)) =
      hm_put (k, c) \<lparr>ce_kind = k, ce_config_id = c, ce_tools = ts, ce_last_seen_at = now\<rparr> (tc_inner s)"
proof -
  have inv: "cache_inv s" "tc_enabled s" "hm_retain (\<lambda>_ e. fresh now s e) (tc_inner s) = tc_inner s"
    using assms by (auto simp: cache_live_def intro: hm_retain_all)
  show i: "tc_inner (snd (upsert sd now now k c ts s)) =
      hm_put (k, c) \<lparr>ce_kind = k, ce_config_id = c, ce_tools = ts, ce_last_seen_at = now\<rparr> (tc_inner s)"
    by (simp add: upsert_entry [OF inv(1,2)] inv(3))
  show "cache_live now (snd (upsert sd now now k c ts s))"
    using assms cache_inv_upsert [OF inv(1)] hm.entries_put [of "tc_inner s" "(k, c)"] chrono_life_nonneg
    by (auto simp: cache_live_def i upsert_fields fresh_def cache_inv_def hm_put_ok entry_key_def)
qed

interpretation tc: tool_snapshots cache_lookup
    "\<lambda>k ts s. snd (upsert sd now now (fst k) (snd k) ts s)" "cache_live now" for sd now
  by unfold_locales (auto simp: upsert_live cache_lookup_def hm_put_get)

text \<open>
  The cache offers the latest snapshot of every configuration. After any
  sequence of upserts made while nothing expires, a configuration has the tools of its
  last upsert, and the others keep what they had.
\<close>

theorem cache_last_upsert_wins:
  assumes "cache_live now s"
  shows "cache_lookup (fold (\<lambda>((k, c), ts) s. snd (upsert sd now now k c ts s)) kvs s) =
    cache_lookup s ++ map_of (rev kvs)"
  using tc.puts_lookup [OF assms, of sd kvs] by (simp add: case_prod_unfold)

definition sample_tool :: "string \<Rightarrow> ToolDescriptor" where
  "sample_tool n = \<lparr>td_name = n, td_description = None, td_input_schema = JNull, td_visibility = Public\<rparr>"

text \<open>A concrete time format for the witnesses: a sign and decimal digits.\<close>

definition time_serde :: serde where
  "time_serde = \<lparr>sd_print = (\<lambda>_. []), sd_parse = (\<lambda>_. None),
     sd_time = (\<lambda>t. (if t < 0 then CHR ''-'' else CHR ''+'') # show_nat (nat \<bar>t\<bar>)),
     sd_untime = (\<lambda>s. case s of [] \<Rightarrow> None
        | c # ds \<Rightarrow> Some (if c = CHR ''-'' then - int (read_nat ds) else int (read_nat ds)))\<rparr>"

lemma time_serde_law: "sd_untime time_serde (sd_time time_serde t) = Some t"
  by (simp add: time_serde_def del: show_nat.simps)

definition sample_config :: ToolsCacheConfig where
  "sample_config = \<lparr>tcc_enabled = True, tcc_cache_life = 1000\<rparr>"

definition sample_store :: ToolsCacheStore where
  "sample_store = load_or_empty time_serde True sample_config
     \<lparr>target = None, temp = None\<rparr>"

lemma sample_store_fault: "write_fault sample_store = None"
  by (simp add: sample_store_def load_or_empty_def)

lemma sample_store_live: "cache_live 5 sample_store"
  by (simp add: cache_live_def sample_store_def sample_config_def cache_inv_load load_or_empty_def load_from_disk_def
      cache_inv_def)

theorem cache_last_upsert_wins_witness:
  "cache_lookup (fold (\<lambda>((k, c), ts) s. snd (upsert time_serde 5 5 k c ts s))
     [((''va'', ''cfg''), [sample_tool ''old'']), ((''va'', ''cfg''), [sample_tool ''new''])] sample_store)
     (''va'', ''cfg'') = Some [sample_tool ''new'']"
  unfolding cache_last_upsert_wins [OF sample_store_live] by simp

section \<open>Restarts\<close>

lemma entry_roundtrip:
  "sd_untime sd (sd_time sd (ce_last_seen_at e)) = Some (ce_last_seen_at e) \<Longrightarrow>
   decode_entry sd (encode_entry sd e) = Some e"
  by (simp add: decode_entry_def encode_entry_def field_req_def dec_list_map tool_roundtrip)

lemma dec_enc_u32 [simp]: "dec_u32 (enc_u32 n) = Some n"
proof -
  have lt: "unat n < 2 ^ 32" by (rule less_le_trans [OF unsigned_less]) simp
  then have "unat (ucast n :: u64) = unat n"
    by (simp add: unsigned_ucast_eq take_bit_nat_eq_self)
  moreover have "ucast (ucast n :: u64) = n" by (rule bit_word_eqI) (simp add: bit_ucast_iff)
  ultimately show ?thesis using lt by (simp add: enc_u32_def)
qed

lemma persisted_roundtrip:
  "(\<And>t. sd_untime sd (sd_time sd t) = Some t) \<Longrightarrow>
   decode_persisted sd (encode_persisted sd p) = Some p"
  by (simp add: decode_persisted_def encode_persisted_def field_req_def dec_list_map entry_roundtrip)

lemma foldl_entries_get:
  "map_of (foldl (\<lambda>m e. hm_put (entry_key e) e m) m es) k =
     (case map_of (rev (map (\<lambda>e. (entry_key e, e)) es)) k of None \<Rightarrow> map_of m k | Some e \<Rightarrow> Some e)"
  by (induction es arbitrary: m) (auto simp: hm_put_get split: option.splits)

lemma inner_as_entries:
  assumes "cache_inv s"
  shows "map (\<lambda>e. (entry_key e, e)) (map snd (tc_inner s)) = tc_inner s"
  using assms by (auto simp: cache_inv_def intro!: map_idI)

lemma entry_keys_distinct:
  assumes "cache_inv s"
  shows "distinct (map entry_key (sorted_entries s))"
proof -
  have "map entry_key (map snd (tc_inner s)) = map fst (tc_inner s)"
    using assms by (auto simp: cache_inv_def)
  moreover have "mset (map entry_key (sorted_entries s)) = mset (map entry_key (map snd (tc_inner s)))"
    by (simp add: sorted_entries_def multiset.map_comp)
  moreover have "distinct (map fst (tc_inner s))" using assms by (simp add: cache_inv_def hm_ok_def)
  ultimately show ?thesis by (metis mset_eq_imp_distinct_iff)
qed

lemma sorted_entries_lookup:
  assumes "cache_inv s"
  shows "map_of (foldl (\<lambda>m e. hm_put (entry_key e) e m) [] (sorted_entries s)) = map_of (tc_inner s)"
proof -
  let ?es = "map (\<lambda>e. (entry_key e, e)) (sorted_entries s)"
  have "distinct (map fst ?es)" using entry_keys_distinct [OF assms] by (simp add: o_def)
  moreover have "distinct (map fst (tc_inner s))" using assms by (simp add: cache_inv_def hm_ok_def)
  moreover have "set ?es = set (tc_inner s)"
    using arg_cong [OF inner_as_entries [OF assms], of set] by (simp add: sorted_entries_def image_image)
  moreover have "map_of (rev ?es) = map_of ?es"
    using calculation(1) by (intro map_of_inject_set [THEN iffD2]) (simp_all add: o_def rev_map [symmetric])
  ultimately have "map_of (rev ?es) = map_of (tc_inner s)" by (metis map_of_inject_set)
  then show ?thesis by (auto simp: foldl_entries_get fun_eq_iff split: option.splits)
qed

text \<open>The laws of the text formats that a snapshot relies on.\<close>

definition serde_ok :: "serde \<Rightarrow> json \<Rightarrow> bool" where
  "serde_ok sd v \<longleftrightarrow> sd_parse sd (sd_print sd v) = Some v \<and> (\<forall>t. sd_untime sd (sd_time sd t) = Some t)"

definition cache_json :: "serde \<Rightarrow> ToolsCacheStore \<Rightarrow> json" where
  "cache_json sd s = encode_persisted sd \<lparr>pc_version = FORMAT_VERSION, pc_entries = sorted_entries s\<rparr>"

lemma load_persisted:
  assumes "cache_inv s" "tc_enabled s" "write_fault s = None" "serde_ok sd (cache_json sd s)"
  shows "map_of (load_from_disk sd True (tc_file (persist sd s))) = map_of (tc_inner s)"
proof -
  have "target (tc_file (persist sd s)) = Some (sd_print sd (cache_json sd s))"
    using assms by (simp add: persist_def write_json_atomic_def write_steps_target cache_json_def)
  moreover have "Option.bind (sd_parse sd (sd_print sd (cache_json sd s))) (decode_persisted sd) =
      Some \<lparr>pc_version = FORMAT_VERSION, pc_entries = sorted_entries s\<rparr>"
    using assms(4) persisted_roundtrip [of sd] by (simp add: serde_ok_def) (simp add: cache_json_def)
  ultimately show ?thesis by (simp add: load_from_disk_def sorted_entries_lookup [OF assms(1)])
qed

lemma reload_after_change:
  assumes inv: "cache_inv s" and up: "upsert sd now now' k c ts s = (True, s')"
    and disk: "write_fault s = None" and sd: "serde_ok sd (cache_json sd s')"
    and cfg: "tcc_enabled cfg"
  shows "map_of (tc_inner (load_or_empty sd True cfg (tc_file s'))) = map_of (tc_inner s') \<and>
    cache_lookup s' (k, c) = Some ts"
proof -
  have en: "tc_enabled s" using up by (auto simp: upsert_def split: if_splits)
  have s': "s' = snd (upsert sd now now' k c ts s)" by (simp add: up)
  obtain s2 where s2: "s' = notifier_hook (persist sd s2)"
    using up en by (auto simp: upsert_def Let_def split_beta split: option.splits if_splits)
  have fields: "tc_inner s2 = tc_inner s'" "tc_enabled s2 = tc_enabled s'" "write_fault s2 = write_fault s'"
    "tc_file s' = tc_file (persist sd s2)" "cache_json sd s2 = cache_json sd s'"
    by (simp_all add: s2 cache_json_def sorted_entries_def)
  have "write_fault s' = None"
    using disk en by (auto simp: s' upsert_def Let_def split_beta evict_inner)
  moreover have "cache_inv s'" "tc_enabled s'"
    using cache_inv_upsert [OF inv] upsert_fields(1) en unfolding s' by blast+
  ultimately have "map_of (load_from_disk sd True (tc_file s')) = map_of (tc_inner s')"
    using load_persisted [of s2 sd] sd fields cache_inv_inner [OF fields(1)] by simp
  then show ?thesis
    using cfg upsert_entry [OF inv en] by (simp add: load_or_empty_def s' cache_lookup_def hm_put_get)
qed

text \<open>
  C30: a changed snapshot survives a restart. When an upsert reports a change
  and file writes succeed, a store loaded from the file holds exactly the entries of the
  running one.
\<close>

theorem changed_snapshot_survives_restart:
  assumes inv: "cache_inv s" and up: "upsert sd now now' k c ts s = (True, s')"
    and disk: "write_fault s = None" and sd: "serde_ok sd (cache_json sd s')"
    and cfg: "tcc_enabled cfg"
  shows "map_of (tc_inner (load_or_empty sd True cfg (tc_file s'))) = map_of (tc_inner s') \<and>
    cache_lookup s' (k, c) = Some ts"
  using reload_after_change [OF assms] .

text \<open>A codec that knows the text of the one snapshot the witness writes.\<close>

definition sample_json :: json where
  "sample_json = cache_json time_serde
     (snd (upsert time_serde 5 5 ''va'' ''cfg'' [sample_tool ''find''] sample_store))"

definition sample_serde :: serde where
  "sample_serde = time_serde\<lparr>sd_print := (\<lambda>v. if v = sample_json then ''cache'' else ''other''),
     sd_parse := (\<lambda>t. if t = ''cache'' then Some sample_json else None)\<rparr>"

definition restarted_store :: ToolsCacheStore where
  "restarted_store = load_or_empty sample_serde True sample_config
     (tc_file (snd (upsert sample_serde 5 5 ''va'' ''cfg'' [sample_tool ''find''] sample_store)))"

lemma sample_upsert:
  "upsert sd 5 5 ''va'' ''cfg'' [sample_tool ''find''] sample_store =
     (True, snd (upsert sd 5 5 ''va'' ''cfg'' [sample_tool ''find''] sample_store))"
  by (simp add: upsert_def evict_expired_def sample_store_def sample_config_def load_or_empty_def
      load_from_disk_def hm_retain_def Let_def)

lemma sample_serde_ok:
  "serde_ok sample_serde (cache_json sample_serde
     (snd (upsert sample_serde 5 5 ''va'' ''cfg'' [sample_tool ''find''] sample_store)))"
proof -
  have "cache_json sample_serde (snd (upsert sample_serde 5 5 ''va'' ''cfg'' [sample_tool ''find''] sample_store))
      = sample_json"
    using sample_store_live
    by (simp add: sample_json_def cache_json_def sorted_entries_def encode_persisted_def
        encode_entry_def [abs_def] upsert_live(2))
       (simp add: sample_serde_def)
  then show ?thesis
    using time_serde_law by (simp add: serde_ok_def sample_serde_def)
qed

theorem changed_snapshot_survives_restart_witness:
  "cache_lookup restarted_store (''va'', ''cfg'') = Some [sample_tool ''find'']"
proof -
  have "cache_inv sample_store" using sample_store_live by (simp add: cache_live_def)
  from changed_snapshot_survives_restart [OF this sample_upsert sample_store_fault sample_serde_ok,
      of sample_config]
  show ?thesis by (simp add: restarted_store_def cache_lookup_def sample_config_def)
qed

text \<open>
  A refresh is not written to disk. An upsert that finds the same tools
  moves \<open>last_seen_at\<close> in memory only. If the manager restarts afterwards, the entry
  is judged by the old time: there are moments at which the running manager still offers it
  and the restarted one has lost it.
\<close>

theorem refresh_is_lost_on_restart:
  assumes "cache_live now s" "map_of (tc_inner s) (k, c) = Some e"
    and disk: "map_of (load_from_disk sd True (tc_file s)) (k, c) = Some e"
      "hm_ok (load_from_disk sd True (tc_file s))"
    and cfg: "tcc_enabled cfg" "tcc_cache_life cfg = tc_cache_life s"
    and later: "now + chrono_life (tc_cache_life s) \<ge> later"
      "later > ce_last_seen_at e + chrono_life (tc_cache_life s)"
  defines "s' \<equiv> snd (upsert sd now now k c (ce_tools e) s)"
  shows "tc_file s' = tc_file s \<and>
    map_of (tc_inner (snd (evict_expired sd later s'))) (k, c) = Some (e\<lparr>ce_last_seen_at := now\<rparr>) \<and>
    map_of (tc_inner (snd (evict_expired sd later (load_or_empty sd True cfg (tc_file s'))))) (k, c) = None"
proof -
  have inv: "cache_inv s" "hm_ok (tc_inner s)" and all: "hm_retain (\<lambda>_ e. fresh now s e) (tc_inner s) = tc_inner s"
    and en: "tc_enabled s"
    using assms(1) by (auto simp: cache_live_def cache_inv_def intro: hm_retain_all)
  have key: "k = ce_kind e" "c = ce_config_id e"
    using cache_inv_lookup [OF inv(1) assms(2)] by (simp_all add: entry_key_def)
  have e': "\<lparr>ce_kind = k, ce_config_id = c, ce_tools = ce_tools e, ce_last_seen_at = now\<rparr> = e\<lparr>ce_last_seen_at := now\<rparr>"
    by (cases e) (simp add: key)
  have "evict_expired sd now s = (False, s)"
    by (simp add: evict_expired_def all Let_def)
  then have f: "tc_file s' = tc_file s"
    using en assms(2) by (simp add: s'_def upsert_def Let_def)
  have i: "tc_inner s' = hm_put (k, c) (e\<lparr>ce_last_seen_at := now\<rparr>) (tc_inner s)"
    using upsert_live(2) [OF assms(1)] by (simp add: s'_def e')
  have life: "tc_cache_life s' = tc_cache_life s" by (simp add: s'_def upsert_fields)
  show ?thesis
    using f inv(2) disk cfg later
    by (simp add: evict_inner hm_retain_get hm_put_ok i hm_put_get fresh_def life load_or_empty_def)
qed

text \<open>The store of the witness above, restarted and refreshed at time 200.\<close>

definition sample_entry :: ToolsCacheEntry where
  "sample_entry = \<lparr>ce_kind = ''va'', ce_config_id = ''cfg'', ce_tools = [sample_tool ''find''], ce_last_seen_at = 5\<rparr>"

lemma restarted_map: "map_of (tc_inner restarted_store) = [(''va'', ''cfg'') \<mapsto> sample_entry]"
proof -
  have "cache_inv sample_store" using sample_store_live by (simp add: cache_live_def)
  from reload_after_change [OF this sample_upsert sample_store_fault sample_serde_ok, of sample_config]
  have "map_of (tc_inner restarted_store) =
    map_of (tc_inner (snd (upsert sample_serde 5 5 ''va'' ''cfg'' [sample_tool ''find''] sample_store)))"
    by (simp add: restarted_store_def sample_config_def)
  moreover have "tc_inner sample_store = []"
    by (simp add: sample_store_def load_or_empty_def load_from_disk_def)
  ultimately show ?thesis
    by (simp add: upsert_live(2) [OF sample_store_live] sample_entry_def)
qed

lemma restarted_fields:
  "cache_inv restarted_store" "tc_enabled restarted_store" "tc_cache_life restarted_store = 1000"
  "load_from_disk sample_serde True (tc_file restarted_store) = tc_inner restarted_store"
  by (simp_all add: restarted_store_def cache_inv_load)
     (simp_all add: load_or_empty_def sample_config_def)

lemma restarted_live: "cache_live 200 restarted_store"
proof -
  have "e = sample_entry" if "(k, e) \<in> set (tc_inner restarted_store)" for k e
    using that restarted_map restarted_fields(1) hm.entries_get [of "tc_inner restarted_store" k e]
    by (auto simp: cache_inv_def split: if_splits)
  moreover have "fresh 200 restarted_store sample_entry"
    by (simp add: fresh_def restarted_fields chrono_life_def sample_entry_def)
  ultimately show ?thesis using restarted_fields(1,2) by (auto simp: cache_live_def)
qed

theorem refresh_is_lost_on_restart_witness:
  "map_of (tc_inner (snd (evict_expired sample_serde 1100 (load_or_empty sample_serde True sample_config
      (tc_file (snd (upsert sample_serde 200 200 ''va'' ''cfg'' [sample_tool ''find''] restarted_store)))))))
      (''va'', ''cfg'') = None"
proof -
  have e: "map_of (tc_inner restarted_store) (''va'', ''cfg'') = Some sample_entry"
    and d: "map_of (load_from_disk sample_serde True (tc_file restarted_store)) (''va'', ''cfg'') = Some sample_entry"
      "hm_ok (load_from_disk sample_serde True (tc_file restarted_store))"
    using restarted_fields(1) by (simp_all add: restarted_map restarted_fields(4) cache_inv_def)
  have c: "tcc_enabled sample_config" "tcc_cache_life sample_config = tc_cache_life restarted_store"
    by (simp_all add: sample_config_def restarted_fields)
  have l: "200 + chrono_life (tc_cache_life restarted_store) \<ge> 1100"
    "1100 > ce_last_seen_at sample_entry + chrono_life (tc_cache_life restarted_store)"
    by (simp_all add: restarted_fields chrono_life_def sample_entry_def)
  from refresh_is_lost_on_restart [OF restarted_live e d c l]
  have "map_of (tc_inner (snd (evict_expired sample_serde 1100 (load_or_empty sample_serde True sample_config
      (tc_file (snd (upsert sample_serde 200 200 ''va'' ''cfg'' (ce_tools sample_entry) restarted_store)))))))
      (''va'', ''cfg'') = None"
    by blast
  then show ?thesis by (simp only: sample_entry_def ToolsCacheEntry.simps)
qed

section \<open>Listing\<close>

text \<open>
  The listing of the cache is exactly what has not expired. It is sorted
  by kind and configuration without duplicates, contains precisely the entries seen within
  the cache life, and expired ones are gone from the store as well.
\<close>

theorem cache_listing_is_fresh_and_sorted:
  assumes "cache_inv s" "tc_enabled s" "cache_list_all sd now s = (es, s')"
  shows "sorted (map entry_key es) \<and> distinct (map entry_key es) \<and>
    set es = {e \<in> snd ` set (tc_inner s). fresh now s e} \<and>
    set es = snd ` set (tc_inner s')"
proof -
  have s': "s' = snd (evict_expired sd now s)" and es: "es = sorted_entries s'"
    using assms by (auto simp: cache_list_all_def Let_def)
  have "snd ` set (tc_inner s') = {e \<in> snd ` set (tc_inner s). fresh now s e}"
    by (force simp: s' evict_inner hm_retain_def)
  moreover have "cache_inv s'" unfolding s' by (rule cache_inv_evict [OF assms(1)])
  ultimately show ?thesis
    using entry_keys_distinct [of s'] by (simp add: es sorted_entries_def)
qed

theorem cache_listing_is_fresh_and_sorted_witness:
  "set (fst (cache_list_all sample_serde 1500 restarted_store)) =
     {e \<in> snd ` set (tc_inner restarted_store). fresh 1500 restarted_store e}"
  using cache_listing_is_fresh_and_sorted [OF restarted_fields(1,2) prod.collapse [symmetric]] by simp

end
