(* ===== verification/Registry.thy ===== *)
theory Registry
  imports Dispatcher Tools_Cache
begin

text \<open>
  The registry of sessions (\<open>src/session_manager/registry.rs\<close>). A record
  holds its connection and its dispatcher by reference; both are shared with
  other tasks, so the records carry numbers into two stores. The persistent tools
  cache hangs on the registry as in the code, and its notifier hook is
  \<open>mark_tools_changed_external\<close>.
\<close>

section \<open>State\<close>

datatype SessionState = Active | Sess_Disconnected

record SessionRecord =
  sr_session_id :: string
  sr_kind :: string
  sr_config_id :: string
  sr_version :: string
  sr_infobase_name :: string
  sr_ib_session_number :: u32
  sr_cluster_server :: "string option"
  sr_database_key :: "string option"
  sr_tools :: "ToolDescriptor list"
  sr_state :: SessionState
  sr_host_id :: string
  sr_pid :: "u32 option"
  sr_registered_at :: instant
  sr_last_call_at :: instant
  sr_disconnected_at :: "instant option"
  sr_generation :: u64
  sr_connection :: "nat option"
  sr_dispatcher :: nat

datatype RegisterOutcome = Created | Reconnected

datatype RegisterError = UidCollision string

text \<open>
  \<open>tools_notified\<close> and \<open>session_notified\<close> count the signals of the two
  \<open>Notify\<close> objects.
\<close>

record SessionRegistry =
  reg_inner :: "(string, SessionRecord) hash_map"
  tools_epoch :: u64
  tools_notified :: nat
  session_notified :: nat
  last_generation :: u64
  reg_cache :: "ToolsCacheStore option"
  reg_conns :: "nat \<Rightarrow> ConnectionHandle"
  reg_disps :: "nat \<Rightarrow> SessionDispatcher"
  next_disp :: nat

definition registry_new :: SessionRegistry where
  "registry_new = \<lparr>reg_inner = [], tools_epoch = 0, tools_notified = 0, session_notified = 0,
     last_generation = 0, reg_cache = None, reg_conns = (\<lambda>_. conn_new),
     reg_disps = (\<lambda>_. dispatcher_new), next_disp = 0\<rparr>"

text \<open>The text formats and the two clock readings of a cache update.\<close>

record cache_env =
  ce_serde :: serde
  ce_now :: utc
  ce_now' :: utc

section \<open>Operations\<close>

definition attach_tools_cache :: "ToolsCacheStore \<Rightarrow> SessionRegistry \<Rightarrow> SessionRegistry" where
  "attach_tools_cache c r = r\<lparr>reg_cache := Some c\<rparr>"

definition mark_tools_changed :: "SessionRegistry \<Rightarrow> SessionRegistry" where
  "mark_tools_changed r = r\<lparr>tools_epoch := tools_epoch r + 1, tools_notified := Suc (tools_notified r)\<rparr>"

definition mark_session_changed :: "SessionRegistry \<Rightarrow> SessionRegistry" where
  "mark_session_changed r = r\<lparr>session_notified := Suc (session_notified r)\<rparr>"

definition next_generation :: "SessionRegistry \<Rightarrow> u64 \<times> SessionRegistry" where
  "next_generation r = (last_generation r + 1, r\<lparr>last_generation := last_generation r + 1\<rparr>)"

text \<open>Running an operation of the cache, with the hook calls it makes.\<close>

definition with_cache :: "(ToolsCacheStore \<Rightarrow> ToolsCacheStore) \<Rightarrow> SessionRegistry \<Rightarrow> SessionRegistry" where
  "with_cache f r = (case reg_cache r of
     None \<Rightarrow> r
   | Some c \<Rightarrow> (mark_tools_changed ^^ (hook_calls (f c) - hook_calls c)) (r\<lparr>reg_cache := Some (f c)\<rparr>))"

definition public_tools :: "ToolDescriptor list \<Rightarrow> ToolDescriptor list" where
  "public_tools ts = filter (\<lambda>t. is_public (td_visibility t)) ts"

definition upsert_tools_cache ::
  "cache_env \<Rightarrow> string \<Rightarrow> string \<Rightarrow> ToolDescriptor list \<Rightarrow> SessionRegistry \<Rightarrow> SessionRegistry" where
  "upsert_tools_cache env kind config_id tools =
     with_cache (\<lambda>c. snd (upsert (ce_serde env) (ce_now env) (ce_now' env) kind config_id (public_tools tools) c))"

definition new_dispatcher :: "SessionRegistry \<Rightarrow> nat \<times> SessionRegistry" where
  "new_dispatcher r = (next_disp r,
     r\<lparr>reg_disps := (reg_disps r)(next_disp r := dispatcher_new), next_disp := Suc (next_disp r)\<rparr>)"

definition resolved_config_id :: "SessionRegisterParams \<Rightarrow> string" where
  "resolved_config_id p = unwrap_or (rp_kind p) (rp_config_id p)"

definition reconnect_record ::
  "SessionRegisterParams \<Rightarrow> nat option \<Rightarrow> u64 \<Rightarrow> nat \<Rightarrow> SessionRecord \<Rightarrow> SessionRecord" where
  "reconnect_record p cn gen d rec = rec\<lparr>
     sr_state := Active, sr_disconnected_at := None, sr_tools := rp_tools p, sr_version := rp_version p,
     sr_kind := rp_kind p, sr_config_id := resolved_config_id p, sr_infobase_name := rp_infobase_name p,
     sr_ib_session_number := rp_ib_session_number p, sr_cluster_server := rp_cluster_server p,
     sr_database_key := rp_database_key p, sr_connection := cn, sr_generation := gen,
     sr_host_id := unwrap_or (sr_host_id rec) (rp_host_id p),
     sr_pid := (if rp_pid p \<noteq> None then rp_pid p else sr_pid rec), sr_dispatcher := d\<rparr>"

definition new_record ::
  "SessionRegisterParams \<Rightarrow> instant \<Rightarrow> nat option \<Rightarrow> u64 \<Rightarrow> nat \<Rightarrow> SessionRecord" where
  "new_record p now cn gen d = \<lparr>sr_session_id = rp_client_uid p, sr_kind = rp_kind p,
     sr_config_id = resolved_config_id p, sr_version = rp_version p, sr_infobase_name = rp_infobase_name p,
     sr_ib_session_number = rp_ib_session_number p, sr_cluster_server = rp_cluster_server p,
     sr_database_key = rp_database_key p, sr_tools = rp_tools p, sr_state = Active,
     sr_host_id = unwrap_or ''unknown'' (rp_host_id p), sr_pid = rp_pid p, sr_registered_at = now,
     sr_last_call_at = now, sr_disconnected_at = None, sr_generation = gen, sr_connection = cn,
     sr_dispatcher = d\<rparr>"

text \<open>What a new session and a soft reconnect have in common; \<open>mk\<close> makes the record.\<close>

definition admit_session ::
  "cache_env \<Rightarrow> SessionRegisterParams \<Rightarrow> (u64 \<Rightarrow> nat \<Rightarrow> SessionRecord) \<Rightarrow> SessionRegistry \<Rightarrow> u64 \<times> SessionRegistry" where
  "admit_session env p mk r =
     (let (gen, r1) = next_generation r; (d, r2) = new_dispatcher r1;
          r3 = r2\<lparr>reg_inner := hm_put (rp_client_uid p) (mk gen d) (reg_inner r2)\<rparr>;
          r4 = mark_session_changed (mark_tools_changed r3)
      in (gen, upsert_tools_cache env (rp_kind p) (resolved_config_id p) (rp_tools p) r4))"

definition register_with_generation ::
  "cache_env \<Rightarrow> SessionRegisterParams \<Rightarrow> instant \<Rightarrow> nat option \<Rightarrow> SessionRegistry \<Rightarrow>
     (RegisterError, RegisterOutcome \<times> u64) res \<times> SessionRegistry" where
  "register_with_generation env p now cn r =
     (case map_of (reg_inner r) (rp_client_uid p) of
        Some existing \<Rightarrow>
          (case sr_state existing of
             Active \<Rightarrow> (Err (UidCollision (rp_client_uid p)), r)
           | Sess_Disconnected \<Rightarrow>
               (let (gen, r') = admit_session env p (\<lambda>g d. reconnect_record p cn g d existing) r
                in (Ok (Reconnected, gen), r')))
      | None \<Rightarrow>
          (let (gen, r') = admit_session env p (\<lambda>g d. new_record p now cn g d) r
           in (Ok (Created, gen), r')))"

text \<open>
  The common body of the two disconnects, inside the write lock: drain what the
  record refers to, whoever else holds it.
\<close>

definition drain_record :: "SessionRecord \<Rightarrow> SessionRegistry \<Rightarrow> SessionRegistry" where
  "drain_record rec r = r\<lparr>
     reg_conns := (case sr_connection rec of None \<Rightarrow> reg_conns r
                   | Some c \<Rightarrow> (reg_conns r)(c := drain_pending (reg_conns r c))),
     reg_disps := (reg_disps r)(sr_dispatcher rec := disp_drain (reg_disps r (sr_dispatcher rec)))\<rparr>"

definition disconnect_record :: "instant \<Rightarrow> SessionRecord \<Rightarrow> SessionRecord" where
  "disconnect_record now rec =
     rec\<lparr>sr_state := Sess_Disconnected, sr_disconnected_at := Some now, sr_connection := None\<rparr>"

definition disconnect_when ::
  "(SessionRecord \<Rightarrow> bool) \<Rightarrow> string \<Rightarrow> instant \<Rightarrow> SessionRegistry \<Rightarrow> bool \<times> SessionRegistry" where
  "disconnect_when guard sid now r = (case map_of (reg_inner r) sid of
     Some rec \<Rightarrow>
       if sr_state rec = Active \<and> guard rec
       then (True, mark_session_changed (mark_tools_changed
              ((drain_record rec r)\<lparr>reg_inner := hm_put sid (disconnect_record now rec) (reg_inner r)\<rparr>)))
       else (False, r)
   | None \<Rightarrow> (False, r))"

definition mark_disconnected :: "string \<Rightarrow> instant \<Rightarrow> SessionRegistry \<Rightarrow> bool \<times> SessionRegistry" where
  "mark_disconnected = disconnect_when (\<lambda>_. True)"

definition mark_disconnected_if_generation ::
  "string \<Rightarrow> u64 \<Rightarrow> instant \<Rightarrow> SessionRegistry \<Rightarrow> bool \<times> SessionRegistry" where
  "mark_disconnected_if_generation sid gen = disconnect_when (\<lambda>rec. sr_generation rec = gen) sid"

definition bump_last_call :: "string \<Rightarrow> instant \<Rightarrow> SessionRegistry \<Rightarrow> bool \<times> SessionRegistry" where
  "bump_last_call sid now r = (case map_of (reg_inner r) sid of
     Some rec \<Rightarrow> (True, r\<lparr>reg_inner := hm_put sid (rec\<lparr>sr_last_call_at := now\<rparr>) (reg_inner r)\<rparr>)
   | None \<Rightarrow> (False, r))"

definition remove_when ::
  "(SessionRecord \<Rightarrow> bool) \<Rightarrow> string \<Rightarrow> SessionRegistry \<Rightarrow> SessionRecord option \<times> SessionRegistry" where
  "remove_when guard sid r = (case map_of (reg_inner r) sid of
     Some rec \<Rightarrow>
       if guard rec
       then (Some rec, mark_session_changed (mark_tools_changed (r\<lparr>reg_inner := hm_del sid (reg_inner r)\<rparr>)))
       else (None, r)
   | None \<Rightarrow> (None, r))"

definition reg_remove :: "string \<Rightarrow> SessionRegistry \<Rightarrow> SessionRecord option \<times> SessionRegistry" where
  "reg_remove = remove_when (\<lambda>_. True)"

definition remove_if_generation :: "string \<Rightarrow> u64 \<Rightarrow> SessionRegistry \<Rightarrow> SessionRecord option \<times> SessionRegistry" where
  "remove_if_generation sid gen = remove_when (\<lambda>rec. sr_generation rec = gen) sid"

definition update_tools ::
  "cache_env \<Rightarrow> string \<Rightarrow> ToolDescriptor list \<Rightarrow> SessionRegistry \<Rightarrow> bool \<times> SessionRegistry" where
  "update_tools env sid tools r = (case map_of (reg_inner r) sid of
     Some rec \<Rightarrow>
       if sr_tools rec = tools then (True, r)
       else (True, upsert_tools_cache env (sr_kind rec) (sr_config_id rec) tools
              (mark_tools_changed (r\<lparr>reg_inner := hm_put sid (rec\<lparr>sr_tools := tools\<rparr>) (reg_inner r)\<rparr>)))
   | None \<Rightarrow> (False, r))"

definition grace_expired :: "instant \<Rightarrow> duration \<Rightarrow> SessionRecord \<Rightarrow> bool" where
  "grace_expired now grace rec \<longleftrightarrow>
     (case (sr_state rec, sr_disconnected_at rec) of
        (Sess_Disconnected, Some t) \<Rightarrow> grace \<le> now - t
      | _ \<Rightarrow> False)"

definition sweep_expired_disconnects ::
  "instant \<Rightarrow> duration \<Rightarrow> SessionRegistry \<Rightarrow> string list \<times> SessionRegistry" where
  "sweep_expired_disconnects now grace r =
     (let expired = map fst (filter (\<lambda>e. grace_expired now grace (snd e)) (reg_inner r));
          r1 = r\<lparr>reg_inner := fold hm_del expired (reg_inner r)\<rparr>
      in (expired, if expired \<noteq> [] then mark_tools_changed r1 else r1))"

definition reg_snapshot :: "SessionRegistry \<Rightarrow> SessionRecord list" where
  "reg_snapshot r = map snd (reg_inner r)"

definition reg_get :: "string \<Rightarrow> SessionRegistry \<Rightarrow> SessionRecord option" where
  "reg_get sid r = map_of (reg_inner r) sid"

definition reg_len :: "SessionRegistry \<Rightarrow> nat" where
  "reg_len r = length (reg_inner r)"

section \<open>Invariant\<close>

lemma mark_fields [simp]:
  "reg_inner (mark_tools_changed r) = reg_inner r" "reg_inner (mark_session_changed r) = reg_inner r"
  "last_generation (mark_tools_changed r) = last_generation r"
  "last_generation (mark_session_changed r) = last_generation r"
  "reg_cache (mark_tools_changed r) = reg_cache r" "reg_cache (mark_session_changed r) = reg_cache r"
  "reg_conns (mark_tools_changed r) = reg_conns r" "reg_conns (mark_session_changed r) = reg_conns r"
  "reg_disps (mark_tools_changed r) = reg_disps r" "reg_disps (mark_session_changed r) = reg_disps r"
  "next_disp (mark_tools_changed r) = next_disp r" "next_disp (mark_session_changed r) = next_disp r"
  "tools_notified (mark_tools_changed r) = Suc (tools_notified r)"
  "tools_notified (mark_session_changed r) = tools_notified r"
  "session_notified (mark_tools_changed r) = session_notified r"
  "session_notified (mark_session_changed r) = Suc (session_notified r)"
  by (simp_all add: mark_tools_changed_def mark_session_changed_def)

lemma mark_pow_fields [simp]:
  "reg_inner ((mark_tools_changed ^^ n) r) = reg_inner r"
  "last_generation ((mark_tools_changed ^^ n) r) = last_generation r"
  "reg_cache ((mark_tools_changed ^^ n) r) = reg_cache r"
  "reg_conns ((mark_tools_changed ^^ n) r) = reg_conns r"
  "reg_disps ((mark_tools_changed ^^ n) r) = reg_disps r"
  "next_disp ((mark_tools_changed ^^ n) r) = next_disp r"
  "tools_notified ((mark_tools_changed ^^ n) r) = n + tools_notified r"
  "session_notified ((mark_tools_changed ^^ n) r) = session_notified r"
  by (induction n) simp_all

lemma with_cache_fields [simp]:
  "reg_inner (with_cache f r) = reg_inner r" "last_generation (with_cache f r) = last_generation r"
  "reg_conns (with_cache f r) = reg_conns r" "reg_disps (with_cache f r) = reg_disps r"
  "next_disp (with_cache f r) = next_disp r" "session_notified (with_cache f r) = session_notified r"
  "tools_notified r \<le> tools_notified (with_cache f r)"
  "reg_cache (with_cache f r) = map_option f (reg_cache r)"
  by (simp_all add: with_cache_def split: option.split)

lemma upsert_cache_fields [simp]:
  "reg_inner (upsert_tools_cache env k c ts r) = reg_inner r"
  "last_generation (upsert_tools_cache env k c ts r) = last_generation r"
  "reg_conns (upsert_tools_cache env k c ts r) = reg_conns r"
  "reg_disps (upsert_tools_cache env k c ts r) = reg_disps r"
  "next_disp (upsert_tools_cache env k c ts r) = next_disp r"
  "session_notified (upsert_tools_cache env k c ts r) = session_notified r"
  "tools_notified r \<le> tools_notified (upsert_tools_cache env k c ts r)"
  by (simp_all add: upsert_tools_cache_def)

text \<open>
  Every record is stored under its own id with a generation that was issued and a
  dispatcher that was created; an active record has no disconnect time, and a
  disconnected one has one, holds no connection and a drained dispatcher. No two records share a
  generation or a dispatcher.
\<close>

definition rec_inv :: "SessionRegistry \<Rightarrow> string \<Rightarrow> SessionRecord \<Rightarrow> bool" where
  "rec_inv r sid rec \<longleftrightarrow> sr_session_id rec = sid \<and> sr_dispatcher rec < next_disp r \<and>
     0 < sr_generation rec \<and> sr_generation rec \<le> last_generation r \<and>
     (case sr_state rec of
        Active \<Rightarrow> sr_disconnected_at rec = None
      | Sess_Disconnected \<Rightarrow> sr_disconnected_at rec \<noteq> None \<and> sr_connection rec = None \<and>
          drained (reg_disps r (sr_dispatcher rec)))"

definition reg_inv :: "SessionRegistry \<Rightarrow> bool" where
  "reg_inv r \<longleftrightarrow> hm_ok (reg_inner r) \<and>
     (\<forall>sid rec. map_of (reg_inner r) sid = Some rec \<longrightarrow> rec_inv r sid rec) \<and>
     (\<forall>sid rec sid' rec'. map_of (reg_inner r) sid = Some rec \<longrightarrow> map_of (reg_inner r) sid' = Some rec' \<longrightarrow>
        sr_dispatcher rec = sr_dispatcher rec' \<or> sr_generation rec = sr_generation rec' \<longrightarrow> sid = sid')"

lemma reg_inv_rec: "reg_inv r \<Longrightarrow> map_of (reg_inner r) sid = Some rec \<Longrightarrow> rec_inv r sid rec"
  by (simp add: reg_inv_def)

lemma reg_inv_ok: "reg_inv r \<Longrightarrow> hm_ok (reg_inner r)"
  by (simp add: reg_inv_def)

lemma reg_inv_unique:
  assumes "reg_inv r" "map_of (reg_inner r) sid = Some rec" "map_of (reg_inner r) sid' = Some rec'"
    "sr_dispatcher rec = sr_dispatcher rec' \<or> sr_generation rec = sr_generation rec'"
  shows "sid = sid'"
  using assms unfolding reg_inv_def by blast

lemma reg_inv_new [inv_intros]: "reg_inv registry_new"
  by (simp add: reg_inv_def registry_new_def)

lemma rec_inv_mono:
  assumes "rec_inv r sid rec" "last_generation r \<le> last_generation r'" "next_disp r \<le> next_disp r'"
    and "\<And>d. d < next_disp r \<Longrightarrow> drained (reg_disps r d) \<Longrightarrow> drained (reg_disps r' d)"
  shows "rec_inv r' sid rec"
  using assms by (cases "sr_state rec") (auto simp: rec_inv_def)

text \<open>The invariant depends on the records, the counters and the drained flags only.\<close>

lemma reg_inv_cong:
  assumes "reg_inner r' = reg_inner r" "last_generation r' = last_generation r"
    "next_disp r' = next_disp r" "reg_disps r' = reg_disps r"
  shows "reg_inv r' = reg_inv r"
proof -
  have "rec_inv r' s q = rec_inv r s q" for s q
    using rec_inv_mono [of r s q r'] rec_inv_mono [of r' s q r] assms by auto
  then show ?thesis by (simp add: reg_inv_def assms)
qed

lemma reg_inv_marks [simp]:
  "reg_inv (mark_tools_changed r) = reg_inv r" "reg_inv (mark_session_changed r) = reg_inv r"
  "reg_inv (with_cache f r) = reg_inv r"
  by (rule reg_inv_cong; simp)+

lemma reg_inv_upsert_cache [simp]: "reg_inv (upsert_tools_cache env k c ts r) = reg_inv r"
  by (simp add: upsert_tools_cache_def)

text \<open>Changing one record in place, keeping what identifies it.\<close>

lemma reg_inv_update:
  assumes inv: "reg_inv r" and old: "map_of (reg_inner r) sid = Some rec"
    and new: "rec_inv r' sid rec'" "sr_dispatcher rec' = sr_dispatcher rec" "sr_generation rec' = sr_generation rec"
    and r': "reg_inner r' = hm_put sid rec' (reg_inner r)" "last_generation r' = last_generation r"
      "next_disp r' = next_disp r" "\<And>d. drained (reg_disps r d) \<Longrightarrow> drained (reg_disps r' d)"
  shows "reg_inv r'"
proof -
  have prev: "\<exists>p. map_of (reg_inner r) s = Some p \<and> sr_dispatcher p = sr_dispatcher q \<and>
      sr_generation p = sr_generation q" if "map_of (reg_inner r') s = Some q" for s q
    using that old new(2,3) by (auto simp: r' hm_put_get split: if_splits)
  have "rec_inv r' s q" if "map_of (reg_inner r') s = Some q" for s q
    using that new(1) rec_inv_mono [OF reg_inv_rec [OF inv], of s q r'] r'
    by (auto simp: hm_put_get split: if_splits)
  moreover have "s = s'" if "map_of (reg_inner r') s = Some q" "map_of (reg_inner r') s' = Some q'"
      "sr_dispatcher q = sr_dispatcher q' \<or> sr_generation q = sr_generation q'" for s s' q q'
    using prev [OF that(1)] prev [OF that(2)] that(3) reg_inv_unique [OF inv] by metis
  ultimately show ?thesis
    using reg_inv_ok [OF inv] unfolding reg_inv_def by (metis r'(1) hm_put_ok)
qed

lemma reg_inv_shrink:
  assumes inv: "reg_inv r" and "hm_ok m" and "\<And>s q. map_of m s = Some q \<Longrightarrow> map_of (reg_inner r) s = Some q"
  shows "reg_inv (r\<lparr>reg_inner := m\<rparr>)"
proof -
  have "rec_inv (r\<lparr>reg_inner := m\<rparr>) s q" if "map_of m s = Some q" for s q
    by (rule rec_inv_mono [OF reg_inv_rec [OF inv assms(3) [OF that]]]) simp_all
  moreover have "s = s'" if "map_of m s = Some q" "map_of m s' = Some q'"
      "sr_dispatcher q = sr_dispatcher q' \<or> sr_generation q = sr_generation q'" for s s' q q'
    using reg_inv_unique [OF inv assms(3) [OF that(1)] assms(3) [OF that(2)] that(3)] .
  ultimately show ?thesis using assms(2) unfolding reg_inv_def by simp
qed

text \<open>Entering a record with a fresh generation and a fresh dispatcher.\<close>

lemma reg_inv_admit:
  assumes inv: "reg_inv r" and room: "last_generation r \<noteq> -1"
    and new: "sr_session_id rec = sid" "sr_dispatcher rec = next_disp r"
      "sr_generation rec = last_generation r + 1" "sr_state rec = Active" "sr_disconnected_at rec = None"
    and r': "reg_inner r' = hm_put sid rec (reg_inner r)" "last_generation r' = last_generation r + 1"
      "next_disp r' = Suc (next_disp r)" "reg_disps r' = (reg_disps r)(next_disp r := dispatcher_new)"
  shows "reg_inv r'"
proof -
  have up: "last_generation r < last_generation r + 1" "0 < last_generation r + 1"
    using room by (simp_all add: word_less_nat_alt unat_succ)
  have old: "sr_generation q \<noteq> last_generation r + 1 \<and> sr_dispatcher q \<noteq> next_disp r"
    if "map_of (reg_inner r) s = Some q" for s q
    using reg_inv_rec [OF inv that] up by (auto simp: rec_inv_def)
  have "rec_inv r' s q" if "map_of (reg_inner r') s = Some q" for s q
  proof (cases "s = sid")
    case True
    with that have "q = rec" by (simp add: r' hm_put_get)
    with True new r' up show ?thesis by (simp add: rec_inv_def)
  next
    case False
    with that have "map_of (reg_inner r) s = Some q" by (simp add: r' hm_put_get)
    from rec_inv_mono [OF reg_inv_rec [OF inv this], of r'] up r' show ?thesis by simp
  qed
  moreover have "s = s'" if "map_of (reg_inner r') s = Some q" "map_of (reg_inner r') s' = Some q'"
      "sr_dispatcher q = sr_dispatcher q' \<or> sr_generation q = sr_generation q'" for s s' q q'
  proof (cases "s = sid \<or> s' = sid")
    case True
    then show ?thesis using that old new(2,3) by (auto simp: r' hm_put_get split: if_splits) metis+
  next
    case False
    then show ?thesis using that reg_inv_unique [OF inv] by (simp add: r' hm_put_get)
  qed
  ultimately show ?thesis
    using reg_inv_ok [OF inv] unfolding reg_inv_def by (metis r'(1) hm_put_ok)
qed

text \<open>The outcomes of a registration, with everything an admitted one changes.\<close>

definition admitted_record ::
  "SessionRegisterParams \<Rightarrow> instant \<Rightarrow> nat option \<Rightarrow> SessionRegistry \<Rightarrow> SessionRecord" where
  "admitted_record p now cn r = (case map_of (reg_inner r) (rp_client_uid p) of
     None \<Rightarrow> new_record p now cn (last_generation r + 1) (next_disp r)
   | Some q \<Rightarrow> reconnect_record p cn (last_generation r + 1) (next_disp r) q)"

lemma register_collision:
  assumes "map_of (reg_inner r) (rp_client_uid p) = Some q" "sr_state q = Active"
  shows "register_with_generation env p now cn r = (Err (UidCollision (rp_client_uid p)), r)"
  using assms by (simp add: register_with_generation_def)

lemma register_admitted:
  assumes "\<And>q. map_of (reg_inner r) (rp_client_uid p) = Some q \<Longrightarrow> sr_state q = Sess_Disconnected"
    and call: "register_with_generation env p now cn r = (out, r')"
  shows "out =
      Ok (if map_of (reg_inner r) (rp_client_uid p) = None then Created else Reconnected, last_generation r + 1)"
    and "reg_inner r' = hm_put (rp_client_uid p) (admitted_record p now cn r) (reg_inner r)"
    and "last_generation r' = last_generation r + 1" "next_disp r' = Suc (next_disp r)"
    and "reg_disps r' = (reg_disps r)(next_disp r := dispatcher_new)" "reg_conns r' = reg_conns r"
    and "tools_notified r < tools_notified r'" "session_notified r' = Suc (session_notified r)"
    and "reg_cache r' = map_option (\<lambda>c. snd (upsert (ce_serde env) (ce_now env) (ce_now' env) (rp_kind p)
         (resolved_config_id p) (public_tools (rp_tools p)) c)) (reg_cache r)"
proof -
  define mk where "mk = (case map_of (reg_inner r) (rp_client_uid p) of
     None \<Rightarrow> (\<lambda>g d. new_record p now cn g d) | Some q \<Rightarrow> (\<lambda>g d. reconnect_record p cn g d q))"
  have reg: "register_with_generation env p now cn r =
      (Ok (if map_of (reg_inner r) (rp_client_uid p) = None then Created else Reconnected, last_generation r + 1),
       snd (admit_session env p mk r))"
    using assms(1)
    by (auto simp: register_with_generation_def mk_def admit_session_def next_generation_def
        new_dispatcher_def Let_def split: option.splits)
  have rec: "mk (last_generation r + 1) (next_disp r) = admitted_record p now cn r"
    by (simp add: mk_def admitted_record_def split: option.split)
  let ?r3 = "r\<lparr>last_generation := last_generation r + 1, reg_disps := (reg_disps r)(next_disp r := dispatcher_new),
     next_disp := Suc (next_disp r), reg_inner := hm_put (rp_client_uid p) (admitted_record p now cn r) (reg_inner r)\<rparr>"
  have r': "r' = upsert_tools_cache env (rp_kind p) (resolved_config_id p) (rp_tools p)
      (mark_session_changed (mark_tools_changed ?r3))"
    using call by (simp add: reg admit_session_def next_generation_def new_dispatcher_def rec)
  show "out =
      Ok (if map_of (reg_inner r) (rp_client_uid p) = None then Created else Reconnected, last_generation r + 1)"
    using call by (simp add: reg)
  show "reg_inner r' = hm_put (rp_client_uid p) (admitted_record p now cn r) (reg_inner r)"
    "last_generation r' = last_generation r + 1" "next_disp r' = Suc (next_disp r)"
    "reg_disps r' = (reg_disps r)(next_disp r := dispatcher_new)" "reg_conns r' = reg_conns r"
    "session_notified r' = Suc (session_notified r)"
    by (simp_all add: r')
  show "tools_notified r < tools_notified r'"
    unfolding r' by (rule less_le_trans [OF _ upsert_cache_fields(7)]) simp
  show "reg_cache r' = map_option (\<lambda>c. snd (upsert (ce_serde env) (ce_now env) (ce_now' env) (rp_kind p)
         (resolved_config_id p) (public_tools (rp_tools p)) c)) (reg_cache r)"
    by (simp add: r' upsert_tools_cache_def)
qed

lemma admitted_record_fields:
  assumes "reg_inv r"
  shows "sr_session_id (admitted_record p now cn r) = rp_client_uid p"
    "sr_dispatcher (admitted_record p now cn r) = next_disp r"
    "sr_generation (admitted_record p now cn r) = last_generation r + 1"
    "sr_state (admitted_record p now cn r) = Active"
    "sr_disconnected_at (admitted_record p now cn r) = None"
    "sr_connection (admitted_record p now cn r) = cn"
    "sr_tools (admitted_record p now cn r) = rp_tools p"
  using reg_inv_rec [OF assms, of "rp_client_uid p"]
  by (auto simp: admitted_record_def new_record_def reconnect_record_def rec_inv_def split: option.splits)

lemma reg_inv_register [inv_intros]:
  assumes inv: "reg_inv r" and room: "last_generation r \<noteq> -1"
  shows "reg_inv (snd (register_with_generation env p now cn r))"
proof (cases "\<exists>q. map_of (reg_inner r) (rp_client_uid p) = Some q \<and> sr_state q = Active")
  case True
  then show ?thesis using inv register_collision by fastforce
next
  case False
  then have adm: "sr_state q = Sess_Disconnected" if "map_of (reg_inner r) (rp_client_uid p) = Some q" for q
    using that by (cases "sr_state q") auto
  note facts = register_admitted [OF adm prod.collapse [symmetric]]
  show ?thesis
    by (rule reg_inv_admit [OF inv room admitted_record_fields(1-5) [OF inv] facts(2-5)])
qed

lemma reg_inv_disconnect [inv_intros]:
  assumes inv: "reg_inv r"
  shows "reg_inv (snd (disconnect_when guard sid now r))"
proof (cases "map_of (reg_inner r) sid")
  case (Some rec)
  let ?r = "(drain_record rec r)\<lparr>reg_inner := hm_put sid (disconnect_record now rec) (reg_inner r)\<rparr>"
  have "rec_inv ?r sid (disconnect_record now rec)"
    using reg_inv_rec [OF inv Some]
    by (simp add: rec_inv_def disconnect_record_def drain_record_def disp_drain_def)
  then have "reg_inv ?r"
    by (rule reg_inv_update [OF inv Some])
       (simp_all add: disconnect_record_def drain_record_def disp_drain_def)
  with inv Some show ?thesis by (simp add: disconnect_when_def)
qed (use inv in \<open>simp add: disconnect_when_def\<close>)

lemma reg_inv_bump [inv_intros]:
  assumes inv: "reg_inv r"
  shows "reg_inv (snd (bump_last_call sid now r))"
proof (cases "map_of (reg_inner r) sid")
  case (Some rec)
  let ?r = "r\<lparr>reg_inner := hm_put sid (rec\<lparr>sr_last_call_at := now\<rparr>) (reg_inner r)\<rparr>"
  have "rec_inv ?r sid (rec\<lparr>sr_last_call_at := now\<rparr>)"
    using reg_inv_rec [OF inv Some] by (cases "sr_state rec") (simp_all add: rec_inv_def)
  then have "reg_inv ?r" by (rule reg_inv_update [OF inv Some]) simp_all
  with Some show ?thesis by (simp add: bump_last_call_def)
qed (use inv in \<open>simp add: bump_last_call_def\<close>)

lemma reg_inv_remove [inv_intros]:
  assumes "reg_inv r"
  shows "reg_inv (snd (remove_when guard sid r))"
proof -
  have "reg_inv (r\<lparr>reg_inner := hm_del sid (reg_inner r)\<rparr>)"
    by (rule reg_inv_shrink [OF assms])
       (simp_all add: hm_del_ok hm_del_get reg_inv_ok [OF assms] split: if_splits)
  with assms show ?thesis by (simp add: remove_when_def split: option.split)
qed

lemma reg_inv_update_tools [inv_intros]:
  assumes inv: "reg_inv r"
  shows "reg_inv (snd (update_tools env sid tools r))"
proof (cases "map_of (reg_inner r) sid")
  case (Some rec)
  let ?r = "r\<lparr>reg_inner := hm_put sid (rec\<lparr>sr_tools := tools\<rparr>) (reg_inner r)\<rparr>"
  have "rec_inv ?r sid (rec\<lparr>sr_tools := tools\<rparr>)"
    using reg_inv_rec [OF inv Some] by (cases "sr_state rec") (simp_all add: rec_inv_def)
  then have "reg_inv ?r" by (rule reg_inv_update [OF inv Some]) simp_all
  with Some inv show ?thesis by (simp add: update_tools_def)
qed (use inv in \<open>simp add: update_tools_def\<close>)

lemma fold_hm_del:
  "map_of (fold hm_del ks m) k = (if k \<in> set ks then None else map_of m k)"
  "hm_ok m \<Longrightarrow> hm_ok (fold hm_del ks m)"
  by (induction ks arbitrary: m) (auto simp: hm_del_get hm_del_ok)

lemma sweep_inner:
  "reg_inner (snd (sweep_expired_disconnects now grace r)) =
     fold hm_del (fst (sweep_expired_disconnects now grace r)) (reg_inner r)"
  by (simp add: sweep_expired_disconnects_def Let_def)

lemma sweep_lookup:
  assumes "reg_inv r"
  shows "map_of (reg_inner (snd (sweep_expired_disconnects now grace r))) sid =
    (case map_of (reg_inner r) sid of
       Some rec \<Rightarrow> if grace_expired now grace rec then None else Some rec
     | None \<Rightarrow> None)"
    and "sid \<in> set (fst (sweep_expired_disconnects now grace r)) \<longleftrightarrow>
      (\<exists>rec. map_of (reg_inner r) sid = Some rec \<and> grace_expired now grace rec)"
proof -
  show ids: "sid \<in> set (fst (sweep_expired_disconnects now grace r)) \<longleftrightarrow>
      (\<exists>rec. map_of (reg_inner r) sid = Some rec \<and> grace_expired now grace rec)"
    using hm.entries_get [OF reg_inv_ok [OF assms], of sid]
    by (force simp: sweep_expired_disconnects_def Let_def)
  show "map_of (reg_inner (snd (sweep_expired_disconnects now grace r))) sid =
    (case map_of (reg_inner r) sid of
       Some rec \<Rightarrow> if grace_expired now grace rec then None else Some rec
     | None \<Rightarrow> None)"
    using ids by (auto simp: sweep_inner fold_hm_del split: option.splits)
qed

lemma reg_inv_sweep [inv_intros]:
  assumes "reg_inv r"
  shows "reg_inv (snd (sweep_expired_disconnects now grace r))"
proof -
  have "reg_inv (r\<lparr>reg_inner := fold hm_del ks (reg_inner r)\<rparr>)" for ks
    by (rule reg_inv_shrink [OF assms]) (simp_all add: fold_hm_del reg_inv_ok [OF assms] split: if_splits)
  with assms show ?thesis by (simp add: sweep_expired_disconnects_def Let_def)
qed

section \<open>Sequences of operations\<close>

datatype reg_op =
    Op_Register cache_env SessionRegisterParams instant "nat option"
  | Op_Disconnect string instant
  | Op_Disconnect_Gen string u64 instant
  | Op_Bump string instant
  | Op_Remove string
  | Op_Remove_Gen string u64
  | Op_Update cache_env string "ToolDescriptor list"
  | Op_Sweep instant duration
  | Op_Cache_List serde utc
  | Op_Cache_Reset serde
  | Op_Cache_Reset_Config serde string

fun reg_apply :: "SessionRegistry \<Rightarrow> reg_op \<Rightarrow> SessionRegistry" where
  "reg_apply r (Op_Register env p now cn) = snd (register_with_generation env p now cn r)"
| "reg_apply r (Op_Disconnect sid now) = snd (mark_disconnected sid now r)"
| "reg_apply r (Op_Disconnect_Gen sid g now) = snd (mark_disconnected_if_generation sid g now r)"
| "reg_apply r (Op_Bump sid now) = snd (bump_last_call sid now r)"
| "reg_apply r (Op_Remove sid) = snd (reg_remove sid r)"
| "reg_apply r (Op_Remove_Gen sid g) = snd (remove_if_generation sid g r)"
| "reg_apply r (Op_Update env sid ts) = snd (update_tools env sid ts r)"
| "reg_apply r (Op_Sweep now grace) = snd (sweep_expired_disconnects now grace r)"
| "reg_apply r (Op_Cache_List sd now) = with_cache (\<lambda>c. snd (cache_list_all sd now c)) r"
| "reg_apply r (Op_Cache_Reset sd) = with_cache (\<lambda>c. snd (reset_all sd c)) r"
| "reg_apply r (Op_Cache_Reset_Config sd cid) = with_cache (\<lambda>c. snd (reset_by_config_id sd cid c)) r"

definition reg_run :: "SessionRegistry \<Rightarrow> reg_op list \<Rightarrow> SessionRegistry" where
  "reg_run r ops = foldl reg_apply r ops"

lemma reg_inv_apply [inv_intros]:
  "reg_inv r \<Longrightarrow> last_generation r \<noteq> -1 \<Longrightarrow> reg_inv (reg_apply r op)"
  by (cases op)
     (simp_all add: reg_inv_register reg_inv_disconnect reg_inv_bump reg_inv_remove reg_inv_update_tools
       reg_inv_sweep mark_disconnected_def mark_disconnected_if_generation_def reg_remove_def
       remove_if_generation_def)

lemma generation_apply:
  "last_generation (reg_apply r op) = last_generation r \<or>
   last_generation (reg_apply r op) = last_generation r + 1 \<and>
     (\<exists>env p now cn. op = Op_Register env p now cn)"
proof (cases op)
  case (Op_Register env p now cn)
  then show ?thesis
    by (auto simp: register_with_generation_def admit_session_def next_generation_def new_dispatcher_def
        Let_def split: option.splits SessionState.splits)
qed (auto simp: mark_disconnected_def mark_disconnected_if_generation_def disconnect_when_def
       bump_last_call_def reg_remove_def remove_if_generation_def remove_when_def update_tools_def
       sweep_expired_disconnects_def Let_def drain_record_def split: option.splits)

lemma unat_succ_le: "unat (n + 1) \<le> Suc (unat n)" for n :: u64
  by (cases "n = -1") (simp_all add: unat_succ)

lemma generation_run:
  assumes "unat (last_generation r) + length ops < 2 ^ 64"
  shows "unat (last_generation r) \<le> unat (last_generation (reg_run r ops)) \<and>
    unat (last_generation (reg_run r ops)) \<le> unat (last_generation r) + length ops \<and>
    (reg_inv r \<longrightarrow> reg_inv (reg_run r ops))"
  using assms
proof (induction ops arbitrary: r)
  case (Cons op ops)
  have room: "last_generation r \<noteq> -1" using Cons.prems by (auto simp: unsigned_minus_1_eq_mask mask_eq_exp_minus_1)
  have "unat (last_generation r) \<le> unat (last_generation (reg_apply r op))"
    "unat (last_generation (reg_apply r op)) \<le> Suc (unat (last_generation r))"
    using generation_apply [of r op] room by (auto simp: unat_succ)
  moreover from this Cons.IH [of "reg_apply r op"] Cons.prems
  have "unat (last_generation (reg_apply r op)) \<le> unat (last_generation (reg_run (reg_apply r op) ops)) \<and>
    unat (last_generation (reg_run (reg_apply r op) ops)) \<le> unat (last_generation (reg_apply r op)) + length ops \<and>
    (reg_inv (reg_apply r op) \<longrightarrow> reg_inv (reg_run (reg_apply r op) ops))" by simp
  ultimately show ?case using reg_inv_apply [OF _ room] by (auto simp: reg_run_def)
qed (simp add: reg_run_def)

text \<open>
  C14: the registry is well formed after every sequence of operations (fewer
  than \<open>2^64\<close> of them, so that the generation counter does not wrap): ids are
  unique, an active session has no disconnect time, a disconnected one has one and has
  neither a connection nor an open dispatcher, and no two sessions share a generation or a
  dispatcher.
\<close>

theorem registry_well_formed:
  assumes "length ops < 2 ^ 64"
  shows "reg_inv (reg_run registry_new ops)"
  using generation_run [of registry_new ops] assms reg_inv_new by (simp add: registry_new_def)

definition sample_env :: cache_env where
  "sample_env = \<lparr>ce_serde = time_serde, ce_now = 5, ce_now' = 5\<rparr>"

definition sample_params :: SessionRegisterParams where
  "sample_params = \<lparr>rp_client_uid = ''s1'', rp_kind = ''va'', rp_version = ''1'', rp_infobase_name = ''ib'',
     rp_ib_session_number = 7, rp_tools = [sample_tool ''find''], rp_config_id = None, rp_host_id = None,
     rp_pid = None, rp_resources = None, rp_prompts = None, rp_extras = None, rp_cluster_server = None,
     rp_database_key = None\<rparr>"

theorem registry_well_formed_witness:
  "reg_inv (reg_run registry_new [Op_Register sample_env sample_params 0 (Some 0), Op_Disconnect ''s1'' 5])"
  by (rule registry_well_formed) simp

section \<open>Life of a session\<close>

text \<open>
  What clients and agents see of a session id: nothing, a live session of some
  generation, or a lost one waiting for its client to come back. The abstract life of an id:
  a fresh generation enters from nothing or from the grace period, only a live session
  enters the grace period, and any session may end.
\<close>

datatype session_phase = Absent | Live u64 | Grace instant

definition rec_phase :: "SessionRecord \<Rightarrow> session_phase" where
  "rec_phase rec = (case sr_state rec of
     Active \<Rightarrow> Live (sr_generation rec)
   | Sess_Disconnected \<Rightarrow> Grace (unwrap_or 0 (sr_disconnected_at rec)))"

lemma rec_phase_upd [simp]:
  "rec_phase (rec\<lparr>sr_last_call_at := t\<rparr>) = rec_phase rec" "rec_phase (rec\<lparr>sr_tools := ts\<rparr>) = rec_phase rec"
  "rec_phase (disconnect_record t rec) = Grace t"
  by (cases "sr_state rec"; simp add: rec_phase_def disconnect_record_def)+

lemma rec_phase_state [simp]:
  "sr_state rec = Active \<Longrightarrow> rec_phase rec = Live (sr_generation rec)"
  "sr_state rec = Sess_Disconnected \<Longrightarrow> rec_phase rec = Grace (unwrap_or 0 (sr_disconnected_at rec))"
  by (simp_all add: rec_phase_def)

definition phase :: "SessionRegistry \<Rightarrow> string \<Rightarrow> session_phase" where
  "phase r sid = (case map_of (reg_inner r) sid of None \<Rightarrow> Absent | Some rec \<Rightarrow> rec_phase rec)"

inductive life_step :: "u64 \<Rightarrow> session_phase \<Rightarrow> session_phase \<Rightarrow> bool" for n :: u64 where
  life_stay: "life_step n ph ph"
| life_enter: "life_step n Absent (Live (n + 1))"
| life_resume: "life_step n (Grace t) (Live (n + 1))"
| life_lose: "life_step n (Live g) (Grace t)"
| life_end: "life_step n ph Absent"

inductive_simps life_step_live: "life_step n (Live g) ph"
inductive_simps life_step_grace: "life_step n (Grace t) ph"
inductive_simps life_step_absent: "life_step n Absent ph"

lemmas life_steps = life_step_live life_step_grace life_step_absent

lemma register_other:
  assumes "sid \<noteq> rp_client_uid p"
  shows "map_of (reg_inner (snd (register_with_generation env p now cn r))) sid = map_of (reg_inner r) sid"
  using assms
  by (auto simp: register_with_generation_def admit_session_def next_generation_def new_dispatcher_def
      Let_def hm_put_get split: option.splits SessionState.splits)

lemma phase_register:
  assumes inv: "reg_inv r"
  shows "life_step (last_generation r) (phase r sid)
    (phase (snd (register_with_generation env p now cn r)) sid)"
proof (cases "sid = rp_client_uid p")
  case False
  then show ?thesis by (simp add: phase_def register_other life_stay)
next
  case sid: True
  show ?thesis
  proof (cases "\<exists>q. map_of (reg_inner r) (rp_client_uid p) = Some q \<and> sr_state q = Active")
    case True
    then show ?thesis using register_collision by (fastforce intro: life_stay)
  next
    case False
    then have adm: "sr_state q = Sess_Disconnected" if "map_of (reg_inner r) (rp_client_uid p) = Some q" for q
      using that by (cases "sr_state q") auto
    note facts = register_admitted [OF adm prod.collapse [symmetric], where env = env and now = now and cn = cn]
    have "phase (snd (register_with_generation env p now cn r)) sid = Live (last_generation r + 1)"
      by (simp add: phase_def facts(2) hm_put_get sid admitted_record_fields [OF inv])
    then show ?thesis
      using adm by (auto simp: phase_def sid life_steps split: option.splits)
  qed
qed

lemma phase_apply:
  assumes "reg_inv r"
  shows "life_step (last_generation r) (phase r sid) (phase (reg_apply r op) sid)"
proof (cases op)
  case (Op_Register env p now cn)
  then show ?thesis using phase_register [OF assms] by simp
next
  case (Op_Bump s now)
  then show ?thesis
    by (auto simp: phase_def bump_last_call_def hm_put_get life_stay split: option.splits)
next
  case (Op_Update env s ts)
  then show ?thesis
    by (auto simp: phase_def update_tools_def hm_put_get life_stay split: option.splits)
next
  case (Op_Sweep now grace)
  then show ?thesis
    by (auto simp: phase_def sweep_lookup [OF assms] life_stay life_end split: option.splits)
qed (auto simp: phase_def life_steps mark_disconnected_def mark_disconnected_if_generation_def
       disconnect_when_def reg_remove_def remove_if_generation_def remove_when_def
       hm_put_get hm_del_get life_stay life_end split: option.splits)

text \<open>
  The registry implements the life of a session. Whatever operation is
  applied, every session id makes a step of the abstract life: a generation is only ever
  entered fresh, an active session is never taken over by another registration, and
  only an active session can be put into the grace period.
\<close>

theorem registry_refines_session_life:
  assumes "reg_inv r"
  shows "life_step (last_generation r) (phase r sid) (phase (reg_apply r op) sid)"
  using assms by (rule phase_apply)

theorem registry_refines_session_life_witness:
  "life_step 0 Absent (phase (reg_apply registry_new (Op_Register sample_env sample_params 0 (Some 0))) ''s1'')"
proof -
  have "last_generation registry_new = 0" "phase registry_new ''s1'' = Absent"
    by (simp_all add: phase_def registry_new_def)
  then show ?thesis using registry_refines_session_life [OF reg_inv_new, of "''s1''"] by metis
qed

section \<open>Registration\<close>

text \<open>
  Registration follows the three cases of the protocol. A uid whose
  session is active is refused as a collision and nothing changes. Otherwise the uid
  becomes active under a fresh generation with the new tools, connection and an open
  dispatcher of its own; it is reported as a reconnect exactly when a disconnected record existed,
  and then the host, the pid (if the client left them out) and the registration times
  are kept. Other sessions are not touched.
\<close>

theorem register_behaviour:
  assumes inv: "reg_inv r" and call: "register_with_generation env p now cn r = (out, r')"
  shows "if (\<exists>g. phase r (rp_client_uid p) = Live g) then out = Err (UidCollision (rp_client_uid p)) \<and> r' = r
    else (\<exists>rec. map_of (reg_inner r') (rp_client_uid p) = Some rec \<and>
        out = Ok (if phase r (rp_client_uid p) = Absent then Created else Reconnected, sr_generation rec) \<and>
        sr_state rec = Active \<and> sr_generation rec = last_generation r + 1 \<and> sr_tools rec = rp_tools p \<and>
        sr_connection rec = cn \<and> reg_disps r' (sr_dispatcher rec) = dispatcher_new \<and>
        sr_config_id rec = unwrap_or (rp_kind p) (rp_config_id p) \<and>
        sr_database_key rec = rp_database_key p \<and>
        (\<forall>old. map_of (reg_inner r) (rp_client_uid p) = Some old \<longrightarrow>
           sr_registered_at rec = sr_registered_at old \<and> sr_last_call_at rec = sr_last_call_at old \<and>
           sr_host_id rec = unwrap_or (sr_host_id old) (rp_host_id p) \<and>
           (rp_pid p = None \<longrightarrow> sr_pid rec = sr_pid old)) \<and>
        (\<forall>sid. sid \<noteq> rp_client_uid p \<longrightarrow> map_of (reg_inner r') sid = map_of (reg_inner r) sid))"
proof (cases "\<exists>q. map_of (reg_inner r) (rp_client_uid p) = Some q \<and> sr_state q = Active")
  case True
  then show ?thesis using call register_collision [of r p] by (auto simp: phase_def)
next
  case False
  then have adm: "sr_state q = Sess_Disconnected" if "map_of (reg_inner r) (rp_client_uid p) = Some q" for q
    using that by (cases "sr_state q") auto
  note facts = register_admitted [OF adm call] and rec = admitted_record_fields [OF inv, of p now cn]
  have ph: "\<nexists>g. phase r (rp_client_uid p) = Live g"
    "phase r (rp_client_uid p) = Absent \<longleftrightarrow> map_of (reg_inner r) (rp_client_uid p) = None"
    using adm by (auto simp: phase_def split: option.splits)
  have old: "sr_config_id (admitted_record p now cn r) = unwrap_or (rp_kind p) (rp_config_id p)"
    "sr_database_key (admitted_record p now cn r) = rp_database_key p"
    by (simp_all add: admitted_record_def new_record_def reconnect_record_def resolved_config_id_def
        split: option.split)
  have keep: "sr_registered_at (admitted_record p now cn r) = sr_registered_at q"
    "sr_last_call_at (admitted_record p now cn r) = sr_last_call_at q"
    "sr_host_id (admitted_record p now cn r) = unwrap_or (sr_host_id q) (rp_host_id p)"
    "rp_pid p = None \<Longrightarrow> sr_pid (admitted_record p now cn r) = sr_pid q"
    if "map_of (reg_inner r) (rp_client_uid p) = Some q" for q
    by (simp_all add: admitted_record_def reconnect_record_def that)
  have "map_of (reg_inner r') (rp_client_uid p) = Some (admitted_record p now cn r)"
    "\<And>sid. sid \<noteq> rp_client_uid p \<Longrightarrow> map_of (reg_inner r') sid = map_of (reg_inner r) sid"
    by (simp_all add: facts(2) hm_put_get)
  with ph old keep facts(1,5) rec show ?thesis by simp
qed

lemma register_ok_admitted:
  assumes "register_with_generation env p now cn r = (Ok (oc, g), r')"
  shows "map_of (reg_inner r) (rp_client_uid p) = Some q \<Longrightarrow> sr_state q = Sess_Disconnected"
  using assms register_collision [of r p q env now cn] by (cases "sr_state q") auto

text \<open>
  A stale connection cannot hurt its successor. When a uid that was
  registered under one generation has been registered again later, whatever happened in between,
  the generation-checked disconnect and removal of the old connection do nothing,
  and the session stays live under the new generation.
\<close>

theorem stale_generation_is_fenced:
  assumes inv: "reg_inv r"
    and first: "register_with_generation env p now cn r = (Ok (oc, g), r1)"
    and again: "register_with_generation env' p' now' cn' (reg_run r1 ops) = (Ok (oc', g'), r3)"
    and uid: "rp_client_uid p' = rp_client_uid p"
    and room: "unat (last_generation r) + length ops + 3 < 2 ^ 64"
  shows "g' \<noteq> g \<and> phase r3 (rp_client_uid p) = Live g' \<and>
    mark_disconnected_if_generation (rp_client_uid p) g t r3 = (False, r3) \<and>
    remove_if_generation (rp_client_uid p) g r3 = (None, r3)"
proof -
  note f1 = register_admitted [OF register_ok_admitted [OF first] first]
    and f2 = register_admitted [OF register_ok_admitted [OF again] again]
  have m: "n \<noteq> -1" if "unat n + 2 < 2 ^ 64" for n :: u64
    using that by (auto simp: unsigned_minus_1_eq_mask mask_eq_exp_minus_1)
  have "last_generation r \<noteq> -1" using room by (intro m) simp
  then have g: "unat g = Suc (unat (last_generation r))" "last_generation r1 = g"
    using f1(1,3) by (auto simp: unat_succ)
  have inv1: "reg_inv r1"
    using reg_inv_register [OF inv \<open>last_generation r \<noteq> -1\<close>, of env p now cn] first by simp
  have run: "unat g \<le> unat (last_generation (reg_run r1 ops)) \<and>
      unat (last_generation (reg_run r1 ops)) \<le> unat g + length ops \<and> reg_inv (reg_run r1 ops)"
    using generation_run [of r1 ops] inv1 room g by simp
  then have "last_generation (reg_run r1 ops) \<noteq> -1" using room g by (intro m) simp
  then have g': "g' \<noteq> g" using f2(1) run unat_succ by (metis Suc_n_not_le_n prod.inject sum.inject(2))
  have "map_of (reg_inner r3) (rp_client_uid p) = Some (admitted_record p' now' cn' (reg_run r1 ops))"
    using f2(2) by (simp add: hm_put_get uid)
  with g' f2(1) admitted_record_fields [of "reg_run r1 ops" p' now' cn'] run show ?thesis
    by (auto simp: phase_def mark_disconnected_if_generation_def disconnect_when_def
        remove_if_generation_def remove_when_def)
qed

lemmas reg_eval = register_with_generation_def admit_session_def next_generation_def new_dispatcher_def
  upsert_tools_cache_def with_cache_def registry_new_def new_record_def reconnect_record_def
  mark_tools_changed_def mark_session_changed_def reg_run_def mark_disconnected_def disconnect_when_def
  disconnect_record_def drain_record_def

definition sample_reg :: SessionRegistry where
  "sample_reg = snd (register_with_generation sample_env sample_params 0 (Some 0) registry_new)"

lemma sample_register:
  "register_with_generation sample_env sample_params 0 (Some 0) registry_new = (Ok (Created, 1), sample_reg)"
  "fst (register_with_generation sample_env sample_params 9 (Some 1) (reg_run sample_reg [Op_Disconnect ''s1'' 5]))
     = Ok (Reconnected, 2)"
  by (simp_all add: sample_reg_def reg_eval sample_params_def)

theorem stale_generation_is_fenced_witness:
  "mark_disconnected_if_generation ''s1'' 1 9
     (snd (register_with_generation sample_env sample_params 9 (Some 1) (reg_run sample_reg [Op_Disconnect ''s1'' 5])))
   = (False,
     snd (register_with_generation sample_env sample_params 9 (Some 1) (reg_run sample_reg [Op_Disconnect ''s1'' 5])))"
proof -
  let ?again = "register_with_generation sample_env sample_params 9 (Some 1) (reg_run sample_reg [Op_Disconnect ''s1'' 5])"
  have "?again = (Ok (Reconnected, 2), snd ?again)" using sample_register(2) by (metis prod.collapse)
  from stale_generation_is_fenced [OF reg_inv_new sample_register(1) this refl, of 9]
  show ?thesis by (simp add: registry_new_def sample_params_def)
qed

theorem register_behaviour_witness:
  "fst (register_with_generation sample_env sample_params 3 None sample_reg) = Err (UidCollision ''s1'')"
proof -
  have "reg_inv sample_reg"
    using reg_inv_register [OF reg_inv_new] by (simp add: sample_reg_def registry_new_def)
  from register_behaviour [OF this prod.collapse [symmetric], where env = sample_env and p = sample_params and now = 3 and cn = None]
  show ?thesis by (simp add: phase_def sample_reg_def reg_eval sample_params_def)
qed

section \<open>Disconnection and sweeping\<close>

text \<open>
  Losing a connection releases everything that waited on it. A successful
  generation-checked disconnect found an active session of that generation; it leaves the
  record without a connection and with the time of the loss, the connection drained
  (so no call waits on it) and the dispatcher closed for new calls, and touches no other
  session, connection or dispatcher.
\<close>

theorem disconnect_releases_session:
  assumes "mark_disconnected_if_generation sid g now r = (True, r')"
  shows "\<exists>rec. map_of (reg_inner r) sid = Some rec \<and> sr_state rec = Active \<and> sr_generation rec = g \<and>
    map_of (reg_inner r') = (map_of (reg_inner r))(sid \<mapsto>
       rec\<lparr>sr_state := Sess_Disconnected, sr_disconnected_at := Some now, sr_connection := None\<rparr>) \<and>
    drained (reg_disps r' (sr_dispatcher rec)) \<and>
    (\<forall>c. sr_connection rec = Some c \<longrightarrow> pending (reg_conns r' c) = [] \<and> \<not> conn_is_active (reg_conns r' c)) \<and>
    (\<forall>c. sr_connection rec \<noteq> Some c \<longrightarrow> reg_conns r' c = reg_conns r c) \<and>
    (\<forall>d. d \<noteq> sr_dispatcher rec \<longrightarrow> reg_disps r' d = reg_disps r d)"
  using assms
  by (auto simp: mark_disconnected_if_generation_def disconnect_when_def drain_record_def
      disconnect_record_def disp_drain_def hm_put_get fun_eq_iff conn_is_active_def
      split: option.splits if_splits)

theorem disconnect_releases_session_witness:
  "drained (reg_disps (snd (mark_disconnected_if_generation ''s1'' 1 5 sample_reg)) 0)"
proof -
  have "mark_disconnected_if_generation ''s1'' 1 5 sample_reg =
      (True, snd (mark_disconnected_if_generation ''s1'' 1 5 sample_reg))"
    "map_of (reg_inner sample_reg) ''s1'' = Some (new_record sample_params 0 (Some 0) 1 0)"
    by (simp_all add: mark_disconnected_if_generation_def sample_reg_def reg_eval sample_params_def)
  with disconnect_releases_session show ?thesis by (fastforce simp: new_record_def)
qed

text \<open>
  The sweep removes exactly the sessions whose grace period is over. It
  reports their ids; active sessions and those still within the grace period keep their
  records; what is left of the registry is well formed.
\<close>

theorem sweep_removes_exactly_the_expired:
  assumes "reg_inv r" "sweep_expired_disconnects now grace r = (ids, r')"
  shows "set ids = {sid. \<exists>rec t. map_of (reg_inner r) sid = Some rec \<and> sr_state rec = Sess_Disconnected \<and>
      sr_disconnected_at rec = Some t \<and> grace \<le> now - t} \<and>
    map_of (reg_inner r') = (map_of (reg_inner r)) |` (- set ids) \<and> reg_inv r'"
proof -
  have exp: "grace_expired now grace rec \<longleftrightarrow>
      (\<exists>t. sr_state rec = Sess_Disconnected \<and> sr_disconnected_at rec = Some t \<and> grace \<le> now - t)" for rec
    by (auto simp: grace_expired_def split: SessionState.splits option.splits)
  have ids: "ids = fst (sweep_expired_disconnects now grace r)" and r': "r' = snd (sweep_expired_disconnects now grace r)"
    by (simp_all add: assms)
  show ?thesis
    using reg_inv_sweep [OF assms(1), of now grace] sweep_lookup(2) [OF assms(1), of _ now grace]
    by (auto simp: ids r' exp sweep_inner fold_hm_del restrict_map_def fun_eq_iff)
qed

theorem sweep_removes_exactly_the_expired_witness:
  "set (fst (sweep_expired_disconnects 70 60 (reg_run sample_reg [Op_Disconnect ''s1'' 5]))) = {''s1''}"
proof -
  have "reg_inv (reg_run registry_new [Op_Register sample_env sample_params 0 (Some 0), Op_Disconnect ''s1'' 5])"
    using generation_run [of registry_new] reg_inv_new by (simp add: registry_new_def)
  then have "reg_inv (reg_run sample_reg [Op_Disconnect ''s1'' 5])"
    by (simp add: reg_run_def sample_reg_def)
  from sweep_removes_exactly_the_expired [OF this prod.collapse [symmetric], of 70 60]
  show ?thesis by (auto simp: sample_reg_def reg_eval sample_params_def split: if_splits)
qed

section \<open>Signals\<close>

text \<open>What the agents' tool list depends on: which sessions are active, and their tools.\<close>

definition visible :: "SessionRegistry \<Rightarrow> string \<Rightarrow> (SessionState \<times> ToolDescriptor list) option" where
  "visible r sid = map_option (\<lambda>rec. (sr_state rec, sr_tools rec)) (map_of (reg_inner r) sid)"

lemma update_tools_notified:
  assumes "map_of (reg_inner r) sid = Some rec" "sr_tools rec \<noteq> ts"
  shows "tools_notified r < tools_notified (snd (update_tools env sid ts r))"
proof -
  let ?r = "mark_tools_changed (r\<lparr>reg_inner := hm_put sid (rec\<lparr>sr_tools := ts\<rparr>) (reg_inner r)\<rparr>)"
  have "tools_notified r < tools_notified ?r" by simp
  also have "\<dots> \<le> tools_notified (upsert_tools_cache env (sr_kind rec) (sr_config_id rec) ts ?r)"
    by (rule upsert_cache_fields(7))
  finally show ?thesis using assms by (simp add: update_tools_def)
qed

lemma visible_or_notified: "visible (reg_apply r op) = visible r \<or> tools_notified r < tools_notified (reg_apply r op)"
proof (cases op)
  case (Op_Register env p now cn)
  show ?thesis
  proof (cases "\<exists>q. map_of (reg_inner r) (rp_client_uid p) = Some q \<and> sr_state q = Active")
    case True
    then have "reg_apply r op = r" using register_collision Op_Register by fastforce
    then show ?thesis by simp
  next
    case False
    then have "sr_state q = Sess_Disconnected" if "map_of (reg_inner r) (rp_client_uid p) = Some q" for q
      using that by (cases "sr_state q") auto
    from register_admitted(7) [OF this prod.collapse [symmetric]] show ?thesis by (simp add: Op_Register)
  qed
next
  case (Op_Bump sid now)
  then show ?thesis
    by (auto simp: visible_def bump_last_call_def fun_eq_iff hm_put_get split: option.splits)
next
  case (Op_Update env sid ts)
  then show ?thesis
    using update_tools_notified [of r sid _ ts env]
    by (cases "map_of (reg_inner r) sid") (auto simp: update_tools_def)
next
  case (Op_Sweep now grace)
  then show ?thesis by (auto simp: visible_def sweep_expired_disconnects_def Let_def)
qed (auto simp: visible_def fun_eq_iff mark_disconnected_def mark_disconnected_if_generation_def disconnect_when_def
       reg_remove_def remove_if_generation_def remove_when_def drain_record_def split: option.splits)

lemma tools_notified_mono: "tools_notified r \<le> tools_notified (reg_apply r op)"
proof (cases op)
  case (Op_Register env p now cn)
  show ?thesis
  proof (cases "\<exists>q. map_of (reg_inner r) (rp_client_uid p) = Some q \<and> sr_state q = Active")
    case True
    then have "reg_apply r op = r" using register_collision Op_Register by fastforce
    then show ?thesis by simp
  next
    case False
    then have "sr_state q = Sess_Disconnected" if "map_of (reg_inner r) (rp_client_uid p) = Some q" for q
      using that by (cases "sr_state q") auto
    from register_admitted(7) [OF this prod.collapse [symmetric]] show ?thesis by (simp add: Op_Register less_imp_le)
  qed
next
  case (Op_Update env sid ts)
  then show ?thesis
    using update_tools_notified [of r sid _ ts env]
    by (cases "map_of (reg_inner r) sid") (auto simp: update_tools_def)
qed (auto simp: mark_disconnected_def mark_disconnected_if_generation_def disconnect_when_def bump_last_call_def
       reg_remove_def remove_if_generation_def remove_when_def drain_record_def sweep_expired_disconnects_def Let_def split: option.splits)

text \<open>
  A change of what agents may see is always signalled. If an operation
  changes the state or the tools of any session, the tools signal has been raised during it;
  an update with the same tools changes nothing and raises nothing.
\<close>

theorem visible_changes_are_signalled:
  "(visible (reg_apply r op) = visible r \<or> tools_notified r < tools_notified (reg_apply r op)) \<and>
   (\<forall>env sid rec. map_of (reg_inner r) sid = Some rec \<longrightarrow> update_tools env sid (sr_tools rec) r = (True, r))"
  using visible_or_notified [of r op] by (simp add: update_tools_def)

theorem visible_changes_are_signalled_witness:
  "tools_notified sample_reg < tools_notified (reg_apply sample_reg (Op_Remove ''s1''))"
proof -
  have "visible (reg_apply sample_reg (Op_Remove ''s1'')) ''s1'' \<noteq> visible sample_reg ''s1''"
    by (simp add: visible_def sample_reg_def reg_eval sample_params_def reg_remove_def remove_when_def hm_del_def)
  then show ?thesis using visible_changes_are_signalled [of sample_reg "Op_Remove ''s1''"] by metis
qed

text \<open>
  A sweep changes the set of sessions without raising the session signal.
  When a grace period is over the session disappears from the registry, the tools signal
  is raised, but the signal for a changed set of sessions is not.
\<close>

theorem sweep_is_not_signalled_to_session_watchers:
  assumes "sweep_expired_disconnects now grace r = (ids, r')" "ids \<noteq> []"
  shows "session_notified r' = session_notified r \<and> tools_notified r' = Suc (tools_notified r) \<and>
    (\<forall>sid \<in> set ids. map_of (reg_inner r') sid = None)"
  using assms by (auto simp: sweep_expired_disconnects_def Let_def fold_hm_del)

theorem sweep_is_not_signalled_to_session_watchers_witness:
  "session_notified (snd (sweep_expired_disconnects 70 60 (reg_run sample_reg [Op_Disconnect ''s1'' 5]))) =
   session_notified (reg_run sample_reg [Op_Disconnect ''s1'' 5])"
  by (rule sweep_is_not_signalled_to_session_watchers [OF prod.collapse [symmetric], THEN conjunct1])
     (simp add: sweep_expired_disconnects_def grace_expired_def sample_reg_def reg_eval sample_params_def)

section \<open>Privacy of internal tools\<close>

definition cached_tools :: "(ToolDescriptor \<Rightarrow> bool) \<Rightarrow> ToolsCacheStore \<Rightarrow> bool" where
  "cached_tools P c \<longleftrightarrow> (\<forall>(k, e) \<in> set (tc_inner c). \<forall>t \<in> set (ce_tools e). P t)"

text \<open>All tools in the cache have a property.\<close>

definition reg_cached :: "(ToolDescriptor \<Rightarrow> bool) \<Rightarrow> SessionRegistry \<Rightarrow> bool" where
  "reg_cached P r \<longleftrightarrow> (case reg_cache r of None \<Rightarrow> True | Some c \<Rightarrow> cache_inv c \<and> cached_tools P c)"

lemma cached_tools_shrink: "cached_tools P c \<Longrightarrow> set (tc_inner c') \<subseteq> set (tc_inner c) \<Longrightarrow> cached_tools P c'"
  by (auto simp: cached_tools_def)

lemma cached_tools_upsert:
  assumes "cache_inv c" "cached_tools P c" "\<forall>t \<in> set (public_tools ts). P t"
  shows "cached_tools P (snd (upsert sd t t' k cid (public_tools ts) c))"
proof (cases "tc_enabled c")
  case True
  have ok: "hm_ok (hm_retain (\<lambda>_ e. fresh t c e) (tc_inner c))"
    using assms(1) by (simp add: cache_inv_def hm_retain_ok)
  show ?thesis
    using assms(2,3) hm.entries_put [OF ok]
    by (auto simp: cached_tools_def upsert_entry [OF assms(1) True] hm_retain_def)
qed (use assms in \<open>simp add: upsert_def\<close>)

lemma cached_tools_others:
  assumes "cached_tools P c"
  shows "cached_tools P (snd (cache_list_all sd now c))" "cached_tools P (snd (reset_all sd c))"
    "cached_tools P (snd (reset_by_config_id sd cid c))"
  by (rule cached_tools_shrink [OF assms],
      auto simp: cache_list_all_def reset_all_def reset_by_config_id_def Let_def evict_inner hm_retain_def)+

lemma reg_cached_with_cache:
  assumes "reg_cached P r" "\<And>c. cache_inv c \<Longrightarrow> cached_tools P c \<Longrightarrow> cache_inv (f c) \<and> cached_tools P (f c)"
  shows "reg_cached P (with_cache f r)"
  using assms by (auto simp: reg_cached_def split: option.splits)

lemma reg_cached_upsert:
  "reg_cached P r \<Longrightarrow> \<forall>t \<in> set (public_tools ts). P t \<Longrightarrow> reg_cached P (upsert_tools_cache env k cid ts r)"
  unfolding upsert_tools_cache_def
  by (rule reg_cached_with_cache) (auto intro: cached_tools_upsert cache_inv_upsert)

lemma reg_cached_upd [simp]:
  "reg_cached P (mark_tools_changed r) = reg_cached P r" "reg_cached P (mark_session_changed r) = reg_cached P r"
  "reg_cached P (r\<lparr>reg_inner := m\<rparr>) = reg_cached P r" "reg_cached P (r\<lparr>last_generation := g\<rparr>) = reg_cached P r"
  "reg_cached P (r\<lparr>reg_disps := ds\<rparr>) = reg_cached P r" "reg_cached P (r\<lparr>reg_conns := cs\<rparr>) = reg_cached P r"
  "reg_cached P (r\<lparr>next_disp := n\<rparr>) = reg_cached P r"
  by (simp_all add: reg_cached_def)

text \<open>The tools an operation brings in.\<close>

fun op_tools :: "reg_op \<Rightarrow> ToolDescriptor list" where
  "op_tools (Op_Register env p now cn) = rp_tools p"
| "op_tools (Op_Update env sid ts) = ts"
| "op_tools _ = []"

lemma reg_cached_apply:
  assumes "reg_cached P r" and ts: "\<forall>t \<in> set (public_tools (op_tools op)). P t"
  shows "reg_cached P (reg_apply r op)"
proof (cases op)
  case (Op_Register env p now cn)
  have "reg_cached P (snd (admit_session env p mk r))" for mk
    using assms by (simp add: Op_Register admit_session_def next_generation_def new_dispatcher_def Let_def reg_cached_upsert)
  with assms(1) show ?thesis
    by (auto simp: Op_Register register_with_generation_def split_beta Let_def
        split: option.splits SessionState.splits)
next
  case (Op_Update env sid ts)
  with assms show ?thesis
    by (simp add: update_tools_def reg_cached_upsert split: option.split)
next
  case (Op_Cache_List sd now)
  with assms show ?thesis
    by (auto intro!: reg_cached_with_cache cached_tools_others cache_inv_resets)
next
  case (Op_Cache_Reset sd)
  with assms show ?thesis
    by (auto intro!: reg_cached_with_cache cached_tools_others cache_inv_resets)
next
  case (Op_Cache_Reset_Config sd cid)
  with assms show ?thesis
    by (auto intro!: reg_cached_with_cache cached_tools_others cache_inv_resets)
qed (use assms in \<open>auto simp: mark_disconnected_def mark_disconnected_if_generation_def
       disconnect_when_def bump_last_call_def reg_remove_def remove_if_generation_def remove_when_def
       sweep_expired_disconnects_def Let_def drain_record_def split: option.splits\<close>)

abbreviation tool_public :: "ToolDescriptor \<Rightarrow> bool" where
  "tool_public t \<equiv> is_public (td_visibility t)"

lemma reg_public_apply [inv_intros]: "reg_cached tool_public r \<Longrightarrow> reg_cached tool_public (reg_apply r op)"
  by (rule reg_cached_apply) (simp_all add: public_tools_def)

interpretation rm: event_machine reg_apply "reg_cached tool_public"
  by unfold_locales (rule reg_public_apply)

text \<open>
  C31: internal tools never reach the persistent cache. Starting from a cache
  that holds public tools only (an empty one, say), no sequence of registrations, tool
  updates and cache operations puts an internal tool into it.
\<close>

theorem internal_tools_never_cached:
  assumes "reg_cached tool_public r" "reg_cache (reg_run r ops) = Some c" "((k, cid), e) \<in> set (tc_inner c)" "t \<in> set (ce_tools e)"
  shows "td_visibility t = Public"
proof -
  have "reg_cached tool_public (reg_run r ops)"
    using assms(1) unfolding reg_run_def by (rule rm.run_keeps)
  with assms(2-4) have "is_public (td_visibility t)"
    by (fastforce simp: reg_cached_def cached_tools_def)
  then show ?thesis by (cases "td_visibility t") simp_all
qed

text \<open>A client that registers a public and an internal tool.\<close>

definition sample_mixed :: SessionRegistry where
  "sample_mixed = reg_run (attach_tools_cache sample_store registry_new)
      [Op_Register sample_env (sample_params\<lparr>rp_tools :=
         [(sample_tool ''secret'')\<lparr>td_visibility := Internal\<rparr>, sample_tool ''find'']\<rparr>) 0 (Some 0)]"

theorem internal_tools_never_cached_witness:
  "td_visibility (hd (ce_tools (snd (hd (tc_inner (the (reg_cache sample_mixed))))))) = Public"
proof -
  have empty: "tc_inner sample_store = []" by (simp add: sample_store_def load_or_empty_def load_from_disk_def)
  then have pub: "reg_cached tool_public (attach_tools_cache sample_store registry_new)"
    using sample_store_live by (simp add: reg_cached_def attach_tools_cache_def cached_tools_def cache_live_def)
  let ?c = "snd (upsert time_serde 5 5 ''va'' ''va'' [sample_tool ''find''] sample_store)"
  have c: "reg_cache sample_mixed = Some ?c"
    by (simp add: sample_mixed_def reg_run_def attach_tools_cache_def registry_new_def
        register_with_generation_def admit_session_def next_generation_def new_dispatcher_def
        upsert_tools_cache_def sample_params_def sample_env_def resolved_config_id_def public_tools_def
        sample_tool_def)
  let ?e = "\<lparr>ce_kind = ''va'', ce_config_id = ''va'', ce_tools = [sample_tool ''find''], ce_last_seen_at = 5\<rparr>"
  have i: "tc_inner ?c = [((''va'', ''va''), ?e)]"
    by (simp add: upsert_live(2) [OF sample_store_live] empty)
  from internal_tools_never_cached [OF pub c [unfolded sample_mixed_def], of "''va''" "''va''" ?e "sample_tool ''find''"]
  show ?thesis by (simp add: c i)
qed

end
