(* ===== verification/Router.thy ===== *)
theory Router
  imports Registry
begin

text \<open>
  The router (\<open>src/session_manager/router.rs\<close>): grouping the public tools
  of the active sessions by name, the JSON schema that is published for each group, and
  the choice of a session for a call. SHA-256 is a parameter: \<open>hash\<close> stands for
  the hexadecimal digest of the serialized value.
\<close>

section \<open>Hash of a schema\<close>

fun canonicalize :: "json \<Rightarrow> json" where
  "canonicalize (JObject m) = JObject (jobj_list (map (\<lambda>e. (fst e, canonicalize (snd e))) m))"
| "canonicalize (JArray xs) = JArray (map canonicalize xs)"
| "canonicalize v = v"

definition schema_hash :: "(json \<Rightarrow> string) \<Rightarrow> json \<Rightarrow> string" where
  "schema_hash hash v = hash (canonicalize v)"

section \<open>The published schema\<close>

definition SESSION_ID_ARGUMENT :: string where "SESSION_ID_ARGUMENT = ''session_id''"

text \<open>\<open>entry(k).or_insert(v)\<close> on a map.\<close>

definition or_insert :: "string \<Rightarrow> json \<Rightarrow> jobject \<Rightarrow> jobject" where
  "or_insert k v m = (if map_of m k = None then bm_put k v m else m)"

definition selector_schema :: "string list \<Rightarrow> json" where
  "selector_schema ids = jobj (
     [(''type'', JString ''string''),
      (''description'', JString ''Session-manager routing selector; removed before forwarding to the target tool'')]
     @ (if ids \<noteq> [] then [(''enum'', JArray (map JString ids))] else []))"

definition input_schema_with_session_selector :: "json \<Rightarrow> string list \<Rightarrow> bool \<Rightarrow> json" where
  "input_schema_with_session_selector schema ids required =
     (let o1 = unwrap_or [] (as_object schema);
          o2 = or_insert ''type'' (JString ''object'') o1;
          o3 = or_insert ''properties'' (JObject []) o2;
          props = unwrap_or [] (as_object (the (map_of o3 ''properties'')));
          o4 = bm_put ''properties'' (JObject (bm_put SESSION_ID_ARGUMENT (selector_schema ids) props)) o3
      in if required
         then (let o5 = or_insert ''required'' (JArray []) o4;
                   req = unwrap_or [] (as_array (the (map_of o5 ''required'')));
                   req' = (if \<exists>v \<in> set req. as_str v = Some SESSION_ID_ARGUMENT then req
                           else req @ [JString SESSION_ID_ARGUMENT])
               in JObject (bm_put ''required'' (JArray req') o5))
         else JObject o4)"

section \<open>Grouping\<close>

record GroupAccumulator =
  ga_description :: "string option"
  ga_input_schema :: json
  ga_session_ids :: "string list"
  ga_kinds :: "string list"

record ProxySlot =
  ps_kinds :: "string list"
  ps_tool_name :: string
  ps_published_name :: string
  ps_schema_hash :: string
  ps_description :: "string option"
  ps_input_schema :: json
  ps_session_ids :: "string list"

record ProxyView =
  published :: "ProxySlot list"

type_synonym tool_groups = "(string, (string, GroupAccumulator) hash_map) hash_map"

definition push_new :: "string \<Rightarrow> string list \<Rightarrow> string list" where
  "push_new x xs = (if x \<in> set xs then xs else xs @ [x])"

definition group_tool :: "(json \<Rightarrow> string) \<Rightarrow> SessionRecord \<Rightarrow> ToolDescriptor \<Rightarrow> tool_groups \<Rightarrow> tool_groups" where
  "group_tool hash rec t groups =
     (if \<not> is_public (td_visibility t) then groups
      else
        let h = schema_hash hash (td_input_schema t);
            grp = unwrap_or [] (map_of groups (td_name t));
            acc = unwrap_or \<lparr>ga_description = td_description t, ga_input_schema = td_input_schema t,
                     ga_session_ids = [], ga_kinds = []\<rparr> (map_of grp h);
            acc' = acc\<lparr>ga_session_ids := ga_session_ids acc @ [sr_session_id rec],
                       ga_kinds := push_new (sr_kind rec) (ga_kinds acc)\<rparr>
        in hm_put (td_name t) (hm_put h acc' grp) groups)"

definition group_record :: "(json \<Rightarrow> string) \<Rightarrow> SessionRecord \<Rightarrow> tool_groups \<Rightarrow> tool_groups" where
  "group_record hash rec groups =
     (if sr_state rec \<noteq> Active then groups else fold (group_tool hash rec) (sr_tools rec) groups)"

definition group_tools :: "(json \<Rightarrow> string) \<Rightarrow> SessionRegistry \<Rightarrow> tool_groups" where
  "group_tools hash r = fold (group_record hash) (reg_snapshot r) []"

definition make_slot :: "(json \<Rightarrow> string) \<Rightarrow> string \<Rightarrow> (string, GroupAccumulator) hash_map \<Rightarrow> ProxySlot" where
  "make_slot hash name buckets =
     (let variants = sort_key fst buckets;
          session_ids = sort (concat (map (ga_session_ids \<circ> snd) variants));
          kinds = sort (fold push_new (concat (map (ga_kinds \<circ> snd) variants)) []);
          schema = (case variants of
             [(_, acc)] \<Rightarrow> input_schema_with_session_selector (ga_input_schema acc) session_ids (1 < length session_ids)
           | _ \<Rightarrow> jobj [(''type'', JString ''object''),
                 (''oneOf'', JArray (map (\<lambda>v. input_schema_with_session_selector (ga_input_schema (snd v))
                     (sort (ga_session_ids (snd v))) True) variants))]);
          (h, descr) = (case variants of
             [(h, acc)] \<Rightarrow> (h, ga_description acc)
           | _ \<Rightarrow> (schema_hash hash schema,
                 Some (''ClientProxy tool with session-specific schemas; select one of: '' @ str_join '', '' session_ids)))
      in \<lparr>ps_kinds = kinds, ps_tool_name = name, ps_published_name = name, ps_schema_hash = h,
          ps_description = descr, ps_input_schema = schema, ps_session_ids = session_ids\<rparr>)"

definition build_proxy_view :: "(json \<Rightarrow> string) \<Rightarrow> SessionRegistry \<Rightarrow> ProxyView" where
  "build_proxy_view hash r =
     \<lparr>published = sort_key ps_published_name (map (\<lambda>(n, b). make_slot hash n b) (group_tools hash r))\<rparr>"

section \<open>The tool list and the choice of a session\<close>

record mcp_tool =
  mt_name :: string
  mt_description :: string
  mt_input_schema :: jobject

definition proxy_tools :: "ProxyView \<Rightarrow> mcp_tool list" where
  "proxy_tools view = map (\<lambda>slot. \<lparr>mt_name = ps_published_name slot,
     mt_description = unwrap_or (''ClientProxy tool from kinds='' @ str_join '','' (ps_kinds slot)) (ps_description slot),
     mt_input_schema = unwrap_or [] (as_object (ps_input_schema slot))\<rparr>) (published view)"

record ResolvedCall =
  rc_session_id :: string
  rc_tool_name :: string

datatype ResolveError =
    NotProxyTool
  | SessionRequired string "string list"
  | SessionToolMismatch string string

definition resolve_published :: "string \<Rightarrow> ProxyView \<Rightarrow> string option \<Rightarrow> (ResolveError, ResolvedCall) res" where
  "resolve_published name view requested = (case find (\<lambda>s. ps_published_name s = name) (published view) of
     None \<Rightarrow> Err NotProxyTool
   | Some slot \<Rightarrow>
       (case requested of
          Some sid \<Rightarrow> if sid \<in> set (ps_session_ids slot)
                      then Ok \<lparr>rc_session_id = sid, rc_tool_name = ps_tool_name slot\<rparr>
                      else Err (SessionToolMismatch (ps_tool_name slot) sid)
        | None \<Rightarrow> (case ps_session_ids slot of
              [sid] \<Rightarrow> Ok \<lparr>rc_session_id = sid, rc_tool_name = ps_tool_name slot\<rparr>
            | ids \<Rightarrow> Err (SessionRequired (ps_tool_name slot) ids))))"

section \<open>What the groups contain\<close>

text \<open>The offers: every public tool of every active session, in registry order.\<close>

definition offers :: "SessionRegistry \<Rightarrow> (SessionRecord \<times> ToolDescriptor) list" where
  "offers r = concat (map (\<lambda>rec. map (Pair rec) (public_tools (sr_tools rec)))
     (filter (\<lambda>rec. sr_state rec = Active) (reg_snapshot r)))"

definition offer_ids :: "(SessionRecord \<times> ToolDescriptor) list \<Rightarrow> string \<Rightarrow> string list" where
  "offer_ids os name = map (sr_session_id \<circ> fst) (filter (\<lambda>x. td_name (snd x) = name) os)"

definition candidates :: "SessionRegistry \<Rightarrow> string \<Rightarrow> string list" where
  "candidates r name = offer_ids (offers r) name"

definition group_inv :: "(SessionRecord \<times> ToolDescriptor) list \<Rightarrow> tool_groups \<Rightarrow> bool" where
  "group_inv os g \<longleftrightarrow> hm_ok g \<and>
     (\<forall>name. map_of g name = None \<longleftrightarrow> offer_ids os name = []) \<and>
     (\<forall>name grp. map_of g name = Some grp \<longrightarrow>
        hm_ok grp \<and> mset (concat (map (ga_session_ids \<circ> snd) grp)) = mset (offer_ids os name))"

lemma mset_ids_put:
  assumes "ga_session_ids acc' = (case map_of grp h of None \<Rightarrow> [] | Some acc \<Rightarrow> ga_session_ids acc) @ [sid]"
  shows "mset (concat (map (ga_session_ids \<circ> snd) (hm_put h acc' grp))) =
    add_mset sid (mset (concat (map (ga_session_ids \<circ> snd) grp)))"
  using assms by (induction grp) (auto split: if_splits)

lemma group_inv_step:
  assumes "group_inv os g" "is_public (td_visibility t)"
  shows "group_inv (os @ [(rec, t)]) (group_tool hash rec t g)"
proof -
  let ?grp = "unwrap_or [] (map_of g (td_name t))" and ?h = "schema_hash hash (td_input_schema t)"
  define acc' where "acc' = (let acc = unwrap_or \<lparr>ga_description = td_description t,
      ga_input_schema = td_input_schema t, ga_session_ids = [], ga_kinds = []\<rparr> (map_of ?grp ?h)
     in acc\<lparr>ga_session_ids := ga_session_ids acc @ [sr_session_id rec],
            ga_kinds := push_new (sr_kind rec) (ga_kinds acc)\<rparr>)"
  have step: "group_tool hash rec t g = hm_put (td_name t) (hm_put ?h acc' ?grp) g"
    using assms(2) by (simp add: group_tool_def acc'_def Let_def)
  have grp: "hm_ok ?grp \<and> mset (concat (map (ga_session_ids \<circ> snd) ?grp)) = mset (offer_ids os (td_name t))"
  proof (cases "map_of g (td_name t)")
    case None
    then have "offer_ids os (td_name t) = []" using assms(1) unfolding group_inv_def by blast
    with None show ?thesis by simp
  next
    case (Some grp)
    with assms(1) show ?thesis unfolding group_inv_def by simp
  qed
  have ids: "ga_session_ids acc' =
      (case map_of ?grp ?h of None \<Rightarrow> [] | Some acc \<Rightarrow> ga_session_ids acc) @ [sr_session_id rec]"
    by (simp add: acc'_def Let_def split: option.split)
  have "mset (concat (map (ga_session_ids \<circ> snd) (hm_put ?h acc' ?grp))) =
      mset (offer_ids (os @ [(rec, t)]) (td_name t))"
    using mset_ids_put [OF ids] grp by (simp add: offer_ids_def)
  moreover have "offer_ids (os @ [(rec, t)]) name = offer_ids os name" if "name \<noteq> td_name t" for name
    using that by (simp add: offer_ids_def)
  ultimately show ?thesis
    using assms(1) grp by (auto simp: group_inv_def step hm_put_ok hm_put_get offer_ids_def)
qed

lemma group_inv_record:
  assumes "group_inv os g"
  shows "group_inv (os @ (if sr_state rec = Active then map (Pair rec) (public_tools (sr_tools rec)) else []))
    (group_record hash rec g)"
proof (cases "sr_state rec = Active")
  case True
  have "group_inv (os @ map (Pair rec) (public_tools ts)) (fold (group_tool hash rec) ts g)" for ts
    using assms
  proof (induction ts arbitrary: os g)
    case (Cons t ts)
    show ?case
    proof (cases "is_public (td_visibility t)")
      case True
      from Cons.IH [OF group_inv_step [OF Cons.prems True, of rec hash]] True show ?thesis by (simp add: public_tools_def)
    next
      case False
      with Cons.IH [OF Cons.prems] show ?thesis by (simp add: public_tools_def group_tool_def)
    qed
  qed (simp add: public_tools_def)
  with True show ?thesis by (simp add: group_record_def)
qed (use assms in \<open>simp add: group_record_def\<close>)

lemma group_tools_inv: "group_inv (offers r) (group_tools hash r)"
proof -
  have "group_inv (os @ concat (map (\<lambda>rec. map (Pair rec) (public_tools (sr_tools rec)))
      (filter (\<lambda>rec. sr_state rec = Active) recs))) (fold (group_record hash) recs g)"
    if "group_inv os g" for os g recs
    using that
  proof (induction recs arbitrary: os g)
    case (Cons rec recs)
    from Cons.IH [OF group_inv_record [OF Cons.prems, of rec hash]] show ?case by (cases "sr_state rec = Active") simp_all
  qed simp
  from this [of "[]" "[]"] show ?thesis
    by (simp add: group_tools_def offers_def group_inv_def offer_ids_def)
qed

section \<open>The published view\<close>

lemma make_slot_fields [simp]:
  "ps_tool_name (make_slot hash n b) = n" "ps_published_name (make_slot hash n b) = n"
  "ps_session_ids (make_slot hash n b) = sort (concat (map (ga_session_ids \<circ> snd) (sort_key fst b)))"
  by (simp_all add: make_slot_def Let_def split: prod.splits)

lemma mset_concat_sort: "mset (concat (map f (sort_key k xs))) = mset (concat (map f xs))"
  by (simp add: mset_concat flip: sum_mset_sum_list)

lemma group_tools_none: "map_of (group_tools hash r) n = None \<longleftrightarrow> candidates r n = []"
  using group_tools_inv [of r hash] by (auto simp: group_inv_def candidates_def)

lemma slot_ids:
  assumes "map_of (group_tools hash r) n = Some b"
  shows "ps_session_ids (make_slot hash n b) = sort (candidates r n)" "candidates r n \<noteq> []"
proof -
  have "mset (concat (map (ga_session_ids \<circ> snd) b)) = mset (candidates r n)"
    using group_tools_inv [of r hash] assms unfolding group_inv_def candidates_def by blast
  then have "mset (concat (map (ga_session_ids \<circ> snd) (sort_key fst b))) = mset (candidates r n)"
    by (simp only: mset_concat_sort)
  then show "ps_session_ids (make_slot hash n b) = sort (candidates r n)"
    by (metis make_slot_fields(3) mset_sort properties_for_sort sorted_sort)
  show "candidates r n \<noteq> []"
    using assms group_tools_none [of hash r n] by simp
qed

lemma group_tools_ok: "hm_ok (group_tools hash r)"
  using group_tools_inv [of r hash] by (simp add: group_inv_def)

lemma published_slot:
  "slot \<in> set (published (build_proxy_view hash r)) \<longleftrightarrow>
     (\<exists>n b. map_of (group_tools hash r) n = Some b \<and> slot = make_slot hash n b)"
  using hm.entries_get [OF group_tools_ok, of _ _ hash r]
  by (force simp: build_proxy_view_def)

lemma find_published:
  "find (\<lambda>s. ps_published_name s = n) (published (build_proxy_view hash r)) =
     map_option (make_slot hash n) (map_of (group_tools hash r) n)"
proof (cases "map_of (group_tools hash r) n")
  case None
  then have "\<forall>s \<in> set (published (build_proxy_view hash r)). ps_published_name s \<noteq> n"
    using published_slot [of _ hash r] by fastforce
  then show ?thesis using None by (simp add: find_None_iff)
next
  case (Some b)
  then have "make_slot hash n b \<in> set (published (build_proxy_view hash r))" using published_slot by blast
  then obtain s where s: "find (\<lambda>s. ps_published_name s = n) (published (build_proxy_view hash r)) = Some s"
    by (metis (mono_tags, lifting) find_None_iff make_slot_fields(2) option.exhaust)
  then have "ps_published_name s = n" "s \<in> set (published (build_proxy_view hash r))"
    using find_Some_iff_first by fastforce+
  with Some s show ?thesis by (auto simp: published_slot)
qed

text \<open>
  C21: the published view is exactly what the active sessions offer. There is
  one slot for every name under which an active session offers a public tool, in ascending order;
  its list of sessions is the sorted list of the sessions that offer it. The view does
  not depend on the order in which the registry stores its records.
\<close>

theorem proxy_view_publishes_offers:
  "map ps_published_name (published (build_proxy_view hash r)) =
     sorted_list_of_set (td_name ` snd ` set (offers r)) \<and>
   map ps_session_ids (published (build_proxy_view hash r)) =
     map (\<lambda>n. sort (candidates r n)) (sorted_list_of_set (td_name ` snd ` set (offers r)))"
proof -
  let ?v = "published (build_proxy_view hash r)"
  have names: "set (map ps_published_name ?v) = td_name ` snd ` set (offers r)"
  proof -
    have "n \<in> ps_published_name ` set ?v \<longleftrightarrow> map_of (group_tools hash r) n \<noteq> None" for n
    proof
      show "map_of (group_tools hash r) n \<noteq> None" if "n \<in> ps_published_name ` set ?v"
        using that by (auto simp: published_slot)
      show "n \<in> ps_published_name ` set ?v" if "map_of (group_tools hash r) n \<noteq> None"
      proof -
        from that obtain b where "map_of (group_tools hash r) n = Some b" by auto
        then have "make_slot hash n b \<in> set ?v" unfolding published_slot by blast
        then show ?thesis by (metis image_eqI make_slot_fields(2))
      qed
    qed
    moreover have "candidates r n = [] \<longleftrightarrow> n \<notin> td_name ` snd ` set (offers r)" for n
      by (auto simp: candidates_def offer_ids_def filter_empty_conv)
    ultimately have "n \<in> ps_published_name ` set ?v \<longleftrightarrow> n \<in> td_name ` snd ` set (offers r)" for n
      using group_tools_none [of hash r n] by metis
    then show ?thesis unfolding set_map by blast
  qed
  have "distinct (map fst (group_tools hash r))" using group_tools_ok by (simp add: hm_ok_def)
  then have "distinct (map ps_published_name (map (\<lambda>(n, b). make_slot hash n b) (group_tools hash r)))"
    by (simp add: o_def case_prod_unfold)
  moreover have "mset (map ps_published_name ?v) =
      mset (map ps_published_name (map (\<lambda>(n, b). make_slot hash n b) (group_tools hash r)))"
    by (simp add: build_proxy_view_def multiset.map_comp)
  ultimately have d: "distinct (map ps_published_name ?v)" by (metis mset_eq_imp_distinct_iff)
  have s: "sorted (map ps_published_name ?v)" by (simp add: build_proxy_view_def)
  have one: "map ps_published_name ?v = sorted_list_of_set (td_name ` snd ` set (offers r))"
    using d s names by (metis sorted_list_of_set.idem_if_sorted_distinct)
  have "ps_session_ids slot = sort (candidates r (ps_published_name slot))" if "slot \<in> set ?v" for slot
    using that slot_ids(1) by (auto simp: published_slot)
  then have "map ps_session_ids ?v = map (\<lambda>n. sort (candidates r n)) (map ps_published_name ?v)"
    by simp
  with one show ?thesis by simp
qed

section \<open>Choosing a session\<close>

lemma resolve_by_candidates:
  "resolve_published name (build_proxy_view hash r) req =
     (if candidates r name = [] then Err NotProxyTool
      else (case req of
        Some sid \<Rightarrow> if sid \<in> set (candidates r name)
                    then Ok \<lparr>rc_session_id = sid, rc_tool_name = name\<rparr>
                    else Err (SessionToolMismatch name sid)
      | None \<Rightarrow> (case sort (candidates r name) of
          [sid] \<Rightarrow> Ok \<lparr>rc_session_id = sid, rc_tool_name = name\<rparr>
        | ids \<Rightarrow> Err (SessionRequired name ids))))"
proof (cases "map_of (group_tools hash r) name")
  case None
  then show ?thesis
    using group_tools_none [of hash r name] by (simp add: resolve_published_def find_published)
next
  case (Some b)
  then show ?thesis
    using slot_ids [OF Some]
    by (cases req) (simp_all add: resolve_published_def find_published del: make_slot_fields(3)
        split: list.split)
qed

lemma set_offers:
  "(rec, t) \<in> set (offers r) \<longleftrightarrow> rec \<in> set (reg_snapshot r) \<and> sr_state rec = Active \<and>
     t \<in> set (sr_tools rec) \<and> is_public (td_visibility t)"
  by (auto simp: offers_def public_tools_def)

lemma set_candidates:
  "sid \<in> set (candidates r name) \<longleftrightarrow> (\<exists>rec t. rec \<in> set (reg_snapshot r) \<and> sr_session_id rec = sid \<and>
    sr_state rec = Active \<and> t \<in> set (sr_tools rec) \<and> td_name t = name \<and> is_public (td_visibility t))"
proof -
  have "sid \<in> set (candidates r name) \<longleftrightarrow>
      (\<exists>rec t. (rec, t) \<in> set (offers r) \<and> td_name t = name \<and> sr_session_id rec = sid)"
    by (force simp: candidates_def offer_ids_def)
  then show ?thesis unfolding set_offers by blast
qed

lemma snapshot_iff:
  assumes "reg_inv r"
  shows "rec \<in> set (reg_snapshot r) \<and> sr_session_id rec = sid \<longleftrightarrow> map_of (reg_inner r) sid = Some rec"
proof
  assume "rec \<in> set (reg_snapshot r) \<and> sr_session_id rec = sid"
  then obtain k where "map_of (reg_inner r) k = Some rec" "sr_session_id rec = sid"
    using hm.entries_get [OF reg_inv_ok [OF assms]] by (auto simp: reg_snapshot_def)
  then show "map_of (reg_inner r) sid = Some rec"
    using reg_inv_rec [OF assms] by (auto simp: rec_inv_def)
next
  assume m: "map_of (reg_inner r) sid = Some rec"
  then show "rec \<in> set (reg_snapshot r) \<and> sr_session_id rec = sid"
    using reg_inv_rec [OF assms m] map_of_SomeD [OF m] by (force simp: reg_snapshot_def rec_inv_def)
qed

text \<open>A session that offers a tool to agents.\<close>

definition publishes :: "SessionRegistry \<Rightarrow> string \<Rightarrow> string \<Rightarrow> bool" where
  "publishes r sid name \<longleftrightarrow> (case map_of (reg_inner r) sid of
     None \<Rightarrow> False
   | Some rec \<Rightarrow> sr_state rec = Active \<and>
       (\<exists>t \<in> set (sr_tools rec). td_name t = name \<and> td_visibility t = Public))"

lemma candidate_iff:
  assumes "reg_inv r"
  shows "sid \<in> set (candidates r name) \<longleftrightarrow> publishes r sid name"
proof -
  have pub: "is_public v \<longleftrightarrow> v = Public" for v by (cases v) simp_all
  have "sid \<in> set (candidates r name) \<longleftrightarrow> (\<exists>rec. map_of (reg_inner r) sid = Some rec \<and>
      sr_state rec = Active \<and> (\<exists>t \<in> set (sr_tools rec). td_name t = name \<and> td_visibility t = Public))"
    unfolding set_candidates pub snapshot_iff [OF assms, symmetric] by blast
  then show ?thesis by (simp add: publishes_def split: option.split)
qed

text \<open>
  A call is routed to an active session that publishes the tool. If the
  router picks a session, that session is active and has a public tool of the requested
  name; an explicitly requested session is never replaced by another one; and without a
  request the session picked is the only one that offers the tool.
\<close>

theorem routed_session_publishes_tool:
  assumes "reg_inv r" "resolve_published name (build_proxy_view hash r) req = Ok c"
  shows "rc_tool_name c = name \<and> publishes r (rc_session_id c) name \<and>
    (case req of
       Some sid \<Rightarrow> rc_session_id c = sid
     | None \<Rightarrow> (\<forall>sid. publishes r sid name \<longrightarrow> sid = rc_session_id c))"
proof (cases req)
  case (Some sid)
  with assms show ?thesis
    by (auto simp: resolve_by_candidates candidate_iff split: if_splits)
next
  case None
  then obtain sid where "sort (candidates r name) = [sid]" "c = \<lparr>rc_session_id = sid, rc_tool_name = name\<rparr>"
    using assms(2) by (auto simp: resolve_by_candidates split: if_splits list.splits)
  moreover from this have "set (candidates r name) = {sid}" by (metis empty_set list.simps(15) set_sort)
  ultimately show ?thesis
    using None candidate_iff [OF assms(1), of _ name] by auto
qed


lemma sample_reg_inv: "reg_inv sample_reg"
  using reg_inv_register [OF reg_inv_new] by (simp add: sample_reg_def registry_new_def)

lemma sample_reg_inner: "reg_inner sample_reg = [(''s1'', new_record sample_params 0 (Some 0) 1 0)]"
  by (simp add: sample_reg_def reg_eval sample_params_def)

lemma sample_candidates: "candidates sample_reg ''find'' = [''s1'']" "candidates sample_reg ''other'' = []"
  by (simp_all add: candidates_def offers_def offer_ids_def reg_snapshot_def sample_reg_inner new_record_def
      sample_params_def public_tools_def sample_tool_def)

theorem routed_session_publishes_tool_witness:
  "publishes sample_reg ''s1'' ''find''"
  using routed_session_publishes_tool [OF sample_reg_inv, of "''find''" "\<lambda>_. ''hash''" None
      "\<lparr>rc_session_id = ''s1'', rc_tool_name = ''find''\<rparr>"]
  by (simp add: resolve_by_candidates sample_candidates)


text \<open>
  A session that offers a name twice is not picked automatically. If a
  single active session registered two public tools of the same name, a call without
  \<open>session_id\<close> is refused as ambiguous between this session and itself, although
  it is the only one that publishes the tool.
\<close>

theorem duplicate_tool_name_defeats_selection:
  assumes "reg_inner r = [(sid, rec)]" "sr_session_id rec = sid" "sr_state rec = Active"
    and "filter (\<lambda>t. td_name t = name) (public_tools (sr_tools rec)) = [t1, t2]"
  shows "resolve_published name (build_proxy_view hash r) None = Err (SessionRequired name [sid, sid]) \<and>
    {s. publishes r s name} = {sid}"
proof -
  have c: "candidates r name = [sid, sid]"
    using assms by (simp add: candidates_def offers_def offer_ids_def reg_snapshot_def filter_map o_def)
  have "t1 \<in> set (filter (\<lambda>t. td_name t = name) (public_tools (sr_tools rec)))"
    by (simp only: assms(4) list.set_intros)
  then have "t1 \<in> set (public_tools (sr_tools rec))" "td_name t1 = name" by simp_all
  moreover have "v = Public" if "is_public v" for v using that by (cases v) simp_all
  ultimately have "\<exists>t \<in> set (sr_tools rec). td_name t = name \<and> td_visibility t = Public"
    by (auto simp: public_tools_def)
  then have "publishes r s name \<longleftrightarrow> s = sid" for s
    using assms(1-3) by (auto simp: publishes_def split: option.splits if_splits)
  then show ?thesis by (simp add: resolve_by_candidates c)
qed

theorem duplicate_tool_name_defeats_selection_witness:
  "resolve_published ''find'' (build_proxy_view (\<lambda>_. ''hash'') (snd (register_with_generation sample_env
      (sample_params\<lparr>rp_tools := [sample_tool ''find'', sample_tool ''find'']\<rparr>) 0 None registry_new))) None =
   Err (SessionRequired ''find'' [''s1'', ''s1''])"
  by (rule duplicate_tool_name_defeats_selection [THEN conjunct1])
     (simp_all add: reg_eval sample_params_def public_tools_def, simp_all add: sample_tool_def)

section \<open>Properties of the published schema\<close>

lemma or_insert_get: "map_of (or_insert k v m) j = (if j = k \<and> map_of m k = None then Some v else map_of m j)"
  by (simp add: or_insert_def bm_put_get)

lemma wf_or_insert: "wf_json (JObject m) \<Longrightarrow> wf_json v \<Longrightarrow> wf_json (JObject (or_insert k v m))"
  by (simp add: or_insert_def wf_json_bm_put del: wf_json.simps)

lemma wf_lookup: "wf_json (JObject m) \<Longrightarrow> map_of m k = Some v \<Longrightarrow> wf_json v"
  by (force dest: map_of_SomeD)

lemma wf_entry: "wf_json (JObject m) \<Longrightarrow> map_of m k \<noteq> None \<Longrightarrow> wf_json (the (map_of m k))"
  using wf_lookup by (metis option.exhaust_sel)

lemma wf_as_object: "wf_json v \<Longrightarrow> wf_json (JObject (unwrap_or [] (as_object v)))"
  by (cases v) simp_all

lemma wf_as_array: "wf_json v \<Longrightarrow> wf_json (JArray (unwrap_or [] (as_array v)))"
  by (cases v) simp_all

lemma wf_selector: "wf_json (selector_schema ids)"
  unfolding selector_schema_def by (rule wf_json_jobj) auto

lemma as_str_Some [simp]: "as_str v = Some s \<longleftrightarrow> v = JString s"
  by (cases v) auto

text \<open>
  The published schema of a tool asks for the session. It is the client's
  schema with a property \<open>session_id\<close> that enumerates the candidates; the
  property is required exactly as demanded (the client's own requirements are kept);
  everything else in the client's schema is unchanged.
\<close>

theorem published_schema_has_selector:
  assumes "wf_json (JObject m)" and sel: "s = input_schema_with_session_selector (JObject m) ids required"
  shows "wf_json s \<and> Option.bind (jget ''properties'' s) (jget ''session_id'') = Some (selector_schema ids) \<and>
    (required \<longrightarrow> (\<exists>vs. jget ''required'' s = Some (JArray vs) \<and> JString ''session_id'' \<in> set vs \<and>
       (\<forall>us. map_of m ''required'' = Some (JArray us) \<longrightarrow> set us \<subseteq> set vs \<and> count_list vs (JString ''session_id'') = max 1 (count_list us (JString ''session_id''))))) \<and>
    (\<not> required \<longrightarrow> jget ''required'' s = map_of m ''required'') \<and>
    (\<forall>k. k \<notin> {''type'', ''properties'', ''required''} \<longrightarrow> jget k s = map_of m k) \<and>
    (\<forall>k ps. k \<noteq> ''session_id'' \<longrightarrow> map_of m ''properties'' = Some (JObject ps) \<longrightarrow>
       Option.bind (jget ''properties'' s) (jget k) = map_of ps k)"
proof -
  define o3 where "o3 = or_insert ''properties'' (JObject []) (or_insert ''type'' (JString ''object'') m)"
  define props where "props = unwrap_or [] (as_object (the (map_of o3 ''properties'')))"
  define o4 where "o4 = bm_put ''properties'' (JObject (bm_put SESSION_ID_ARGUMENT (selector_schema ids) props)) o3"
  define o5 where "o5 = or_insert ''required'' (JArray []) o4"
  define req where "req = unwrap_or [] (as_array (the (map_of o5 ''required'')))"
  define req' where "req' = (if JString ''session_id'' \<in> set req then req else req @ [JString ''session_id''])"
  have s: "s = (if required then JObject (bm_put ''required'' (JArray req') o5) else JObject o4)"
    unfolding sel input_schema_with_session_selector_def Let_def as_object.simps unwrap_or_simps
      o3_def [symmetric] props_def [symmetric] o4_def [symmetric] o5_def [symmetric] req_def [symmetric]
    by (simp add: req'_def SESSION_ID_ARGUMENT_def)
  have o3: "wf_json (JObject o3)" "map_of o3 ''properties'' \<noteq> None" 
    unfolding o3_def using assms(1) by (intro wf_or_insert; simp) (simp add: or_insert_get)
  have "wf_json (JObject props)"
    unfolding props_def by (rule wf_as_object [OF wf_entry [OF o3]])
  then have o4: "wf_json (JObject o4)"
    unfolding o4_def by (intro wf_json_bm_put o3 wf_selector) 
  then have o5: "wf_json (JObject o5)" "map_of o5 ''required'' \<noteq> None"
    unfolding o5_def by (intro wf_or_insert; simp) (simp add: or_insert_get)
  then have "wf_json (JArray req)"
    unfolding req_def by (rule wf_as_array [OF wf_entry])
  then have "wf_json (JArray req')" by (auto simp: req'_def)
  then have wf: "wf_json s" using o4 o5 wf_json_bm_put by (simp add: s del: wf_json.simps)
  have get: "map_of o4 ''properties'' = Some (JObject (bm_put ''session_id'' (selector_schema ids) props))"
    "\<And>k. k \<notin> {''type'', ''properties''} \<Longrightarrow> map_of o4 k = map_of m k"
    "\<And>k. k \<noteq> ''required'' \<Longrightarrow> map_of o5 k = map_of o4 k"
    by (auto simp: o5_def o4_def o3_def or_insert_get bm_put_get SESSION_ID_ARGUMENT_def)
  have props: "props = ps" if "map_of m ''properties'' = Some (JObject ps)" for ps
    using that by (simp add: props_def o3_def or_insert_get)
  have req: "req = us" if "map_of m ''required'' = Some (JArray us)" for us
    using that get(2) by (simp add: req_def o5_def or_insert_get)
  have cnt: "count_list req' (JString ''session_id'') = max 1 (count_list req (JString ''session_id''))"
    by (auto simp: req'_def count_list_0_iff max_def Suc_le_eq)
  have p: "jget ''properties'' s = Some (JObject (bm_put ''session_id'' (selector_schema ids) props))"
    using get(1,3) by (simp add: s jget_def bm_put_get)
  have other: "jget k s = map_of m k" if "k \<notin> {''type'', ''properties'', ''required''}" for k
    using that get(2,3) by (simp add: s jget_def bm_put_get)
  have r: "jget ''required'' s = (if required then Some (JArray req') else map_of m ''required'')"
    using get(2) by (simp add: s jget_def bm_put_get)
  have in': "JString ''session_id'' \<in> set req'" "set req \<subseteq> set req'" by (auto simp: req'_def)
  have "Option.bind (jget ''properties'' s) (jget ''session_id'') = Some (selector_schema ids)"
    unfolding p by (simp add: jget_def bm_put_get)
  moreover have "Option.bind (jget ''properties'' s) (jget k) = map_of ps k"
    if "k \<noteq> ''session_id''" "map_of m ''properties'' = Some (JObject ps)" for k ps
    using that props unfolding p by (simp add: jget_def bm_put_get)
  moreover have "set us \<subseteq> set req' \<and> count_list req' (JString ''session_id'') = max 1 (count_list us (JString ''session_id''))"
    if "map_of m ''required'' = Some (JArray us)" for us
    using req [OF that] in'(2) cnt by blast
  ultimately show ?thesis using wf other r in'(1) by simp
qed

theorem published_schema_has_selector_witness:
  "Option.bind (jget ''properties'' (input_schema_with_session_selector (JObject []) [''s1'', ''s2''] True))
     (jget ''session_id'') = Some (selector_schema [''s1'', ''s2''])"
  using published_schema_has_selector [OF _ refl, of "[]" "[''s1'', ''s2'']" True] by simp

lemma canonicalize_wf: "wf_json (canonicalize v)"
proof (induction v rule: canonicalize.induct)
  case (1 m)
  then have "wf_json (jobj (map (\<lambda>e. (fst e, canonicalize (snd e))) m))"
    by (intro wf_json_jobj) auto
  then show ?case by (simp add: jobj_def)
qed auto

lemma jobj_list_id: "bm_ok m \<Longrightarrow> jobj_list m = m"
proof (rule bm_ext)
  assume ok: "bm_ok m"
  then have "map_of (rev m) = map_of m"
    by (intro map_of_inject_set [THEN iffD2]) (simp_all add: bm_ok_distinct rev_map [symmetric])
  then show "map_of (jobj_list m) k = map_of m k" for k by simp
qed (simp_all add: jobj_list_ok)

text \<open>
  The hash of a schema is taken of a canonical form. Canonicalizing always
  gives a value whose objects are ordered, does nothing to a value that already is in that
  form, and is idempotent, so equal schemas fall into one bucket whatever the order of
  their keys was.
\<close>

theorem canonical_form:
  "wf_json (canonicalize v) \<and> canonicalize (canonicalize v) = canonicalize v \<and> (wf_json v \<longrightarrow> canonicalize v = v)"
proof -
  have id: "wf_json v \<Longrightarrow> canonicalize v = v" for v
  proof (induction v rule: canonicalize.induct)
    case (1 m)
    then have "map (\<lambda>e. (fst e, canonicalize (snd e))) m = m" by (intro map_idI) auto
    with 1 show ?case by (simp add: jobj_list_id)
  next
    case (2 xs)
    then show ?case by (simp add: map_idI)
  qed auto
  show ?thesis using id canonicalize_wf by blast
qed

theorem canonical_form_witness:
  "canonicalize (JObject [(''b'', JNull), (''a'', JNull)]) = JObject [(''a'', JNull), (''b'', JNull)] \<and>
   canonicalize (JObject [(''a'', JNull), (''b'', JNull)]) = JObject [(''a'', JNull), (''b'', JNull)]"
proof -
  have "wf_json (JObject [(''a'', JNull), (''b'', JNull)])" by (simp add: bm_ok_def)
  with canonical_form [of "JObject [(''a'', JNull), (''b'', JNull)]"] show ?thesis
    by (simp add: jobj_list_def)
qed

end
