(* ===== verification/Lifecycle.thy ===== *)
theory Lifecycle
  imports Router
begin

text \<open>
  Ending sessions (\<open>src/session_manager/lifecycle.rs\<close>) and the listing of
  sessions for agents (\<open>src/session_manager/management.rs\<close>). A shutdown
  waits for the client in the middle; it is cut there into a part that sends the
  request, polls, and a part that drains and removes.
\<close>

section \<open>Shutdown of one session\<close>

datatype KillOutcome = Graceful | GraceTimeout | NotFound

datatype shutdown =
    Sd_Done KillOutcome
  | Sd_Wait SessionRecord nat "Id \<times> nat"
  | Sd_Finish SessionRecord KillOutcome

definition shutdown_params :: "u64 \<Rightarrow> json" where
  "shutdown_params grace_ms =
     encode_shutdown_params \<lparr>sp_reason = Some ''graceful_shutdown'', sp_grace_ms = Some grace_ms\<rparr>"

text \<open>From the lookup to the request; the failure of \<open>dispatch_request\<close> ends \<open>call\<close> at once.\<close>

definition shutdown_begin :: "u64 \<Rightarrow> string \<Rightarrow> SessionRegistry \<Rightarrow> shutdown \<times> SessionRegistry" where
  "shutdown_begin grace_ms sid r = (case reg_get sid r of
     None \<Rightarrow> (Sd_Done NotFound, r)
   | Some rec \<Rightarrow>
       (case (sr_state rec, sr_connection rec) of
          (Active, Some c) \<Rightarrow>
            (let (res, h) = dispatch_request SESSION_SHUTDOWN (shutdown_params grace_ms) (reg_conns r c);
                 r' = r\<lparr>reg_conns := (reg_conns r)(c := h)\<rparr>
             in case res of
                  Inl e \<Rightarrow> (Sd_Finish rec GraceTimeout, r')
                | Inr ic \<Rightarrow> (Sd_Wait rec c ic, r'))
        | _ \<Rightarrow> (Sd_Finish rec Graceful, r)))"

text \<open>One poll of the wait for the client's answer.\<close>

definition shutdown_poll :: "bool \<Rightarrow> shutdown \<Rightarrow> SessionRegistry \<Rightarrow> shutdown \<times> SessionRegistry" where
  "shutdown_poll elapsed st r = (case st of
     Sd_Wait rec c ic \<Rightarrow>
       (let (res, h) = call_poll ic elapsed (reg_conns r c); r' = r\<lparr>reg_conns := (reg_conns r)(c := h)\<rparr>
        in case res of
             None \<Rightarrow> (Sd_Wait rec c ic, r')
           | Some (Inr v) \<Rightarrow> (Sd_Finish rec Graceful, r')
           | Some (Inl e) \<Rightarrow> (Sd_Finish rec GraceTimeout, r'))
   | _ \<Rightarrow> (st, r))"

text \<open>
  The end: the connection and the dispatcher of the record that was looked up are
  drained, and the record is removed if it still has the generation seen at the start.
\<close>

definition shutdown_finish :: "string \<Rightarrow> shutdown \<Rightarrow> SessionRegistry \<Rightarrow> shutdown \<times> SessionRegistry" where
  "shutdown_finish sid st r = (case st of
     Sd_Finish rec out \<Rightarrow>
       (Sd_Done out, snd (remove_if_generation sid (sr_generation rec) (drain_record rec r)))
   | _ \<Rightarrow> (st, r))"

section \<open>The idle sweeper\<close>

definition idle_candidates :: "duration \<Rightarrow> instant \<Rightarrow> SessionRegistry \<Rightarrow> string list" where
  "idle_candidates idle_timeout now r = map sr_session_id (filter (\<lambda>rec.
     sr_state rec = Active \<and> inflight (reg_disps r (sr_dispatcher rec)) = 0 \<and>
     idle_timeout \<le> now - sr_last_call_at rec) (reg_snapshot r))"

text \<open>
  \<open>sweep_once\<close> shuts the candidates down one after the other; \<open>shut\<close> is
  one complete shutdown, whatever other tasks do meanwhile.
\<close>

definition sweep_once ::
  "(string \<Rightarrow> SessionRegistry \<Rightarrow> SessionRegistry) \<Rightarrow> duration \<Rightarrow> instant \<Rightarrow> SessionRegistry \<Rightarrow> SessionRegistry" where
  "sweep_once shut idle_timeout now r = fold shut (idle_candidates idle_timeout now r) r"

text \<open>One turn of the sweeper's loop: nothing at all when the timeout is zero.\<close>

definition idle_tick ::
  "(string \<Rightarrow> SessionRegistry \<Rightarrow> SessionRegistry) \<Rightarrow> bool \<Rightarrow> duration \<Rightarrow> instant \<Rightarrow> SessionRegistry \<Rightarrow> SessionRegistry option" where
  "idle_tick shut cancelled idle_timeout now r =
     (if idle_timeout = 0 \<or> cancelled then None else Some (sweep_once shut idle_timeout now r))"

text \<open>A shutdown whose client does not answer in time, with no other task in between.\<close>

definition shutdown_silent :: "u64 \<Rightarrow> string \<Rightarrow> SessionRegistry \<Rightarrow> SessionRegistry" where
  "shutdown_silent grace_ms sid r =
     (let (st, r1) = shutdown_begin grace_ms sid r; (st', r2) = shutdown_poll True st r1
      in snd (shutdown_finish sid st' r2))"

section \<open>The session list\<close>

record SessionListItem =
  li_session_id :: string
  li_kind :: string
  li_config_id :: string
  li_version :: string
  li_infobase_name :: string
  li_ib_session_number :: u32
  li_host_id :: string
  li_state :: SessionState
  li_tools :: "ToolDescriptor list"
  li_inflight :: u32
  li_registered_secs_ago :: u64
  li_disconnected_secs_ago :: "u64 option"

definition secs_since :: "instant \<Rightarrow> instant \<Rightarrow> u64" where
  "secs_since now t = of_nat ((now - t) div 1000)"

definition list_item :: "SessionRegistry \<Rightarrow> instant \<Rightarrow> SessionRecord \<Rightarrow> SessionListItem" where
  "list_item r now rec = \<lparr>li_session_id = sr_session_id rec, li_kind = sr_kind rec,
     li_config_id = sr_config_id rec, li_version = sr_version rec, li_infobase_name = sr_infobase_name rec,
     li_ib_session_number = sr_ib_session_number rec, li_host_id = sr_host_id rec, li_state = sr_state rec,
     li_tools = public_tools (sr_tools rec), li_inflight = inflight (reg_disps r (sr_dispatcher rec)),
     li_registered_secs_ago = secs_since now (sr_registered_at rec),
     li_disconnected_secs_ago = map_option (secs_since now) (sr_disconnected_at rec)\<rparr>"

definition management_list :: "instant \<Rightarrow> SessionRegistry \<Rightarrow> SessionListItem list" where
  "management_list now r = sort_key li_session_id (map (list_item r now) (reg_snapshot r))"

definition encode_state :: "SessionState \<Rightarrow> json" where
  "encode_state s = (case s of Active \<Rightarrow> JString ''active'' | Sess_Disconnected \<Rightarrow> JString ''disconnected'')"

definition encode_list_item :: "SessionListItem \<Rightarrow> json" where
  "encode_list_item i = jobj [
     (''session_id'', JString (li_session_id i)), (''kind'', JString (li_kind i)),
     (''config_id'', JString (li_config_id i)), (''version'', JString (li_version i)),
     (''infobase_name'', JString (li_infobase_name i)),
     (''ib_session_number'', enc_u32 (li_ib_session_number i)), (''host_id'', JString (li_host_id i)),
     (''state'', encode_state (li_state i)), (''tools'', JArray (map encode_tool (li_tools i))),
     (''inflight'', enc_u32 (li_inflight i)), (''registered_secs_ago'', enc_u64 (li_registered_secs_ago i)),
     (''disconnected_secs_ago'', (case li_disconnected_secs_ago i of None \<Rightarrow> JNull | Some n \<Rightarrow> enc_u64 n))]"

definition encode_session_list :: "SessionListItem list \<Rightarrow> json" where
  "encode_session_list items = jobj [(''sessions'', JArray (map encode_list_item items))]"

section \<open>Records of later states\<close>

text \<open>
  A record of a later state is a record of the earlier one with the same
  generation and dispatcher, or it was admitted since and has newer ones.
\<close>

definition descends :: "SessionRegistry \<Rightarrow> string \<Rightarrow> SessionRecord \<Rightarrow> bool" where
  "descends r sid q \<longleftrightarrow>
     (\<exists>q0. map_of (reg_inner r) sid = Some q0 \<and> sr_generation q0 = sr_generation q \<and>
        sr_dispatcher q0 = sr_dispatcher q) \<or>
     last_generation r < sr_generation q \<and> next_disp r \<le> sr_dispatcher q"

lemma apply_descends:
  assumes inv: "reg_inv r" and room: "last_generation r \<noteq> -1"
    and q: "map_of (reg_inner (reg_apply r op)) sid = Some q"
  shows "descends r sid q"
proof (cases op)
  case (Op_Register env p now cn)
  show ?thesis
  proof (cases "\<exists>q. map_of (reg_inner r) (rp_client_uid p) = Some q \<and> sr_state q = Active")
    case True
    then have "reg_apply r op = r" using register_collision Op_Register by fastforce
    with q show ?thesis by (simp add: descends_def)
  next
    case False
    then have adm: "sr_state q = Sess_Disconnected" if "map_of (reg_inner r) (rp_client_uid p) = Some q" for q
      using that by (cases "sr_state q") auto
    note facts = register_admitted [OF adm prod.collapse [symmetric]]
    have "last_generation r < last_generation r + 1" using room by (simp add: word_less_nat_alt unat_succ)
    with q show ?thesis
      using admitted_record_fields [OF inv, of p now cn]
      by (auto simp: Op_Register facts(2) hm_put_get descends_def split: if_splits)
  qed
next
  case (Op_Sweep now grace)
  with q show ?thesis
    by (auto simp: descends_def sweep_lookup [OF inv] split: option.splits if_splits)
qed (use q in \<open>auto simp: descends_def mark_disconnected_def mark_disconnected_if_generation_def
       disconnect_when_def disconnect_record_def bump_last_call_def reg_remove_def remove_if_generation_def
       remove_when_def update_tools_def hm_put_get hm_del_get split: option.splits if_splits\<close>)

lemma next_disp_apply: "next_disp r \<le> next_disp (reg_apply r op)"
proof (cases op)
  case (Op_Register env p now cn)
  then show ?thesis
    by (auto simp: register_with_generation_def admit_session_def next_generation_def new_dispatcher_def
        Let_def split: option.splits SessionState.splits)
qed (auto simp: mark_disconnected_def mark_disconnected_if_generation_def disconnect_when_def
       bump_last_call_def reg_remove_def remove_if_generation_def remove_when_def update_tools_def
       sweep_expired_disconnects_def Let_def drain_record_def split: option.splits)

lemma room_not_max: "unat n + k < 2 ^ 64 \<Longrightarrow> 0 < k \<Longrightarrow> n \<noteq> -1" for n :: u64
  by (auto simp: unsigned_minus_1_eq_mask mask_eq_exp_minus_1)

lemma run_descends:
  assumes "reg_inv r" "unat (last_generation r) + length ops < 2 ^ 64"
    and "map_of (reg_inner (reg_run r ops)) sid = Some q"
  shows "descends r sid q"
  using assms
proof (induction ops arbitrary: r)
  case (Cons op ops)
  have room: "last_generation r \<noteq> -1" by (rule room_not_max [OF Cons.prems(2)]) simp
  have g: "unat (last_generation r) \<le> unat (last_generation (reg_apply r op))"
    "unat (last_generation (reg_apply r op)) \<le> Suc (unat (last_generation r))"
    using generation_apply [of r op] room by (auto simp: unat_succ)
  have "descends (reg_apply r op) sid q"
    using Cons.IH [of "reg_apply r op"] Cons.prems g reg_inv_apply [OF Cons.prems(1) room]
    by (simp add: reg_run_def)
  then show ?case
  proof (unfold descends_def [of "reg_apply r op"], elim disjE exE conjE)
    fix q0
    assume "map_of (reg_inner (reg_apply r op)) sid = Some q0" "sr_generation q0 = sr_generation q"
      "sr_dispatcher q0 = sr_dispatcher q"
    with apply_descends [OF Cons.prems(1) room, of op sid q0] show ?thesis by (simp add: descends_def)
  next
    assume "last_generation (reg_apply r op) < sr_generation q" "next_disp (reg_apply r op) \<le> sr_dispatcher q"
    then show ?thesis
      using g(1) next_disp_apply [of r op] by (auto simp: descends_def word_less_nat_alt)
  qed
qed (simp add: descends_def reg_run_def)

lemma snapshot_ids:
  assumes "reg_inv r"
  shows "map sr_session_id (reg_snapshot r) = map fst (reg_inner r)"
proof -
  have "sr_session_id (snd e) = fst e" if "e \<in> set (reg_inner r)" for e
    using that hm.entries_get [OF reg_inv_ok [OF assms], of "fst e" "snd e"] reg_inv_rec [OF assms, of "fst e" "snd e"]
    by (simp add: rec_inv_def)
  then show ?thesis by (simp add: reg_snapshot_def)
qed

section \<open>Properties\<close>

lemma drain_record_fields [simp]:
  "reg_inner (drain_record rec r) = reg_inner r" "last_generation (drain_record rec r) = last_generation r"
  "next_disp (drain_record rec r) = next_disp r" "reg_cache (drain_record rec r) = reg_cache r"
  by (simp_all add: drain_record_def)

lemma finish_inner:
  "map_of (reg_inner (snd (shutdown_finish sid (Sd_Finish rec out) r))) s =
     (case map_of (reg_inner r) s of
        None \<Rightarrow> None
      | Some q \<Rightarrow> if s = sid \<and> sr_generation q = sr_generation rec then None else Some q)"
  by (auto simp: shutdown_finish_def remove_if_generation_def remove_when_def hm_del_get split: option.splits)

lemma finish_disps:
  "reg_disps (snd (shutdown_finish sid (Sd_Finish rec out) r)) =
     (reg_disps r)(sr_dispatcher rec := disp_drain (reg_disps r (sr_dispatcher rec)))"
  "reg_conns (snd (shutdown_finish sid (Sd_Finish rec out) r)) =
     (case sr_connection rec of None \<Rightarrow> reg_conns r | Some c \<Rightarrow> (reg_conns r)(c := drain_pending (reg_conns r c)))"
  by (auto simp: shutdown_finish_def remove_if_generation_def remove_when_def drain_record_def split: option.splits)



text \<open>
  A shutdown whose deadline has passed does not wait any longer: the next
  poll leads to the finishing step, with \<open>Graceful\<close> only if the client has
  confirmed; an unknown session is reported at once.
\<close>

theorem shutdown_deadline_finishes:
  "\<exists>out. fst (shutdown_poll True (Sd_Wait rec c ic) r) = Sd_Finish rec out \<and>
     (out = Graceful \<longleftrightarrow> (\<exists>v. cells (reg_conns r c) (snd ic) = Full (Ok v))) \<and>
     (map_of (reg_inner r) sid = None \<longrightarrow> fst (shutdown_begin g sid r) = Sd_Done NotFound)"
  by (auto simp: shutdown_poll_def shutdown_begin_def reg_get_def call_poll_def Let_def
      split: prod.splits option.splits sum.splits oneshot.splits)

theorem shutdown_deadline_finishes_witness:
  "fst (shutdown_begin 5 ''s1'' registry_new) = Sd_Done NotFound"
proof -
  have "map_of (reg_inner registry_new) ''s1'' = None" by (simp add: registry_new_def)
  then show ?thesis using shutdown_deadline_finishes [where r = registry_new and sid = "''s1''" and g = 5] by blast
qed

text \<open>
  The idle sweeper never touches a busy or recently used session. Its
  candidates are exactly the active sessions without a running call whose last call is at
  least the timeout ago, each once.
\<close>

theorem idle_candidates_are_idle:
  assumes "reg_inv r"
  shows "set (idle_candidates timeout now r) = {sid. \<exists>rec. map_of (reg_inner r) sid = Some rec \<and>
      sr_state rec = Active \<and> inflight (reg_disps r (sr_dispatcher rec)) = 0 \<and>
      timeout \<le> now - sr_last_call_at rec} \<and>
    distinct (idle_candidates timeout now r)"
proof
  have "sid \<in> set (idle_candidates timeout now r) \<longleftrightarrow> (\<exists>rec. (rec \<in> set (reg_snapshot r) \<and> sr_session_id rec = sid) \<and>
      sr_state rec = Active \<and> inflight (reg_disps r (sr_dispatcher rec)) = 0 \<and> timeout \<le> now - sr_last_call_at rec)" for sid
    by (auto simp: idle_candidates_def)
  then show "set (idle_candidates timeout now r) = {sid. \<exists>rec. map_of (reg_inner r) sid = Some rec \<and>
      sr_state rec = Active \<and> inflight (reg_disps r (sr_dispatcher rec)) = 0 \<and> timeout \<le> now - sr_last_call_at rec}"
    unfolding snapshot_iff [OF assms] by blast
  note snapshot_ids [OF assms]
  then have "distinct (map sr_session_id (reg_snapshot r))"
    using reg_inv_ok [OF assms] by (simp add: hm_ok_def)
  then show "distinct (idle_candidates timeout now r)"
    by (simp add: idle_candidates_def distinct_map_filter)
qed

theorem idle_candidates_are_idle_witness:
  "set (idle_candidates 60 100 sample_reg) = {''s1''}"
  unfolding idle_candidates_are_idle [OF sample_reg_inv, THEN conjunct1]
  by (auto simp: sample_reg_inner new_record_def sample_reg_def reg_eval sample_params_def dispatcher_new_def
      split: if_splits)

text \<open>
  The session list shows every session once, in ascending order of ids,
  with the inflight counter of its dispatcher and without its internal tools.
\<close>

theorem session_list_is_complete:
  assumes "reg_inv r"
  shows "map li_session_id (management_list now r) = sorted_list_of_set (dom (map_of (reg_inner r))) \<and>
    (\<forall>i \<in> set (management_list now r). \<exists>rec. map_of (reg_inner r) (li_session_id i) = Some rec \<and>
       li_state i = sr_state rec \<and> li_inflight i = inflight (reg_disps r (sr_dispatcher rec)) \<and>
       set (li_tools i) = {t \<in> set (sr_tools rec). is_public (td_visibility t)})"
proof
  let ?l = "management_list now r"
  note ids = snapshot_ids [OF assms]
  have "mset (map li_session_id ?l) = mset (map fst (reg_inner r))"
    unfolding ids [symmetric] by (simp add: management_list_def multiset.map_comp o_def list_item_def)
  then have "distinct (map li_session_id ?l)" "set (map li_session_id ?l) = set (map fst (reg_inner r))"
    using reg_inv_ok [OF assms] unfolding hm_ok_def by (metis mset_eq_imp_distinct_iff, metis mset_eq_setD)
  moreover have "sorted (map li_session_id ?l)" by (simp add: management_list_def)
  ultimately show "map li_session_id ?l = sorted_list_of_set (dom (map_of (reg_inner r)))"
    by (metis dom_map_of_conv_image_fst list.set_map sorted_list_of_set.idem_if_sorted_distinct)
  show "\<forall>i \<in> set ?l. \<exists>rec. map_of (reg_inner r) (li_session_id i) = Some rec \<and>
       li_state i = sr_state rec \<and> li_inflight i = inflight (reg_disps r (sr_dispatcher rec)) \<and>
       set (li_tools i) = {t \<in> set (sr_tools rec). is_public (td_visibility t)}"
  proof
    fix i
    assume "i \<in> set ?l"
    then obtain rec where "rec \<in> set (reg_snapshot r)" and i: "i = list_item r now rec"
      by (auto simp: management_list_def)
    then have "map_of (reg_inner r) (sr_session_id rec) = Some rec"
      using snapshot_iff [OF assms, of rec] by blast
    then show "\<exists>rec. map_of (reg_inner r) (li_session_id i) = Some rec \<and>
       li_state i = sr_state rec \<and> li_inflight i = inflight (reg_disps r (sr_dispatcher rec)) \<and>
       set (li_tools i) = {t \<in> set (sr_tools rec). is_public (td_visibility t)}"
      by (simp add: i list_item_def public_tools_def)
  qed
qed

theorem session_list_is_complete_witness:
  "map li_session_id (management_list 5 sample_reg) = [''s1'']"
  using session_list_is_complete [OF sample_reg_inv, of 5] by (simp add: sample_reg_inner)

end
