(* ===== verification/Db_Identity.thy ===== *)
theory Db_Identity
  imports Registry
begin

text \<open>
  The identity of a session's database
  (\<open>src/session_manager/masking/identity.rs\<close>) and its resolution through
  the cluster administration tool (\<open>src/session_manager/masking/ras.rs\<close>).
  The external program, Unicode lower-casing and the parser of UUIDs are
  parameters; a UUID is its canonical text.
\<close>

section \<open>Keys\<close>

record ResolvedDatabaseIdentity =
  cluster_guid :: string
  infobase_guid :: string

definition database_key :: "string \<Rightarrow> string \<Rightarrow> ResolvedDatabaseIdentity option \<Rightarrow> string" where
  "database_key cluster_server infobase_name resolved = (case resolved of
     Some i \<Rightarrow> ''ras:'' @ cluster_guid i @ '':'' @ infobase_guid i
   | None \<Rightarrow> ''gen:'' @ cluster_server @ ''/'' @ infobase_name)"

record SessionDatabaseIdentity =
  di_instance_id :: string
  di_cluster_server :: string
  di_infobase_name :: string

definition from_record :: "SessionRecord \<Rightarrow> SessionDatabaseIdentity option" where
  "from_record rec = map_option (\<lambda>key. \<lparr>di_instance_id = key,
     di_cluster_server = unwrap_or [] (sr_cluster_server rec), di_infobase_name = sr_infobase_name rec\<rparr>)
     (sr_database_key rec)"

section \<open>Output of the administration tool\<close>

text \<open>\<open>str::lines\<close>: split at newlines, a trailing carriage return is dropped, no empty last line.\<close>

function split_lines :: "string \<Rightarrow> string list" where
  "split_lines s =
     (let l = takeWhile (\<lambda>c. c \<noteq> CHR 0x0A) s; rest = dropWhile (\<lambda>c. c \<noteq> CHR 0x0A) s
      in if s = [] then [] else l # split_lines (tl rest))"

  by pat_completeness auto
termination
  by (relation "measure length") (auto, metis diff_less length_dropWhile_le length_greater_0_conv less_Suc0 less_Suc_eq_le less_imp_diff_less order_le_less)

declare split_lines.simps [simp del]

definition strip_cr :: "string \<Rightarrow> string" where
  "strip_cr l = (if l \<noteq> [] \<and> last l = CHR 0x0D then butlast l else l)"

definition str_lines :: "string \<Rightarrow> string list" where
  "str_lines s = map strip_cr (split_lines s)"

definition split_once :: "char \<Rightarrow> string \<Rightarrow> (string \<times> string) option" where
  "split_once c s = (case dropWhile (\<lambda>d. d \<noteq> c) s of
     [] \<Rightarrow> None
   | _ # rest \<Rightarrow> Some (takeWhile (\<lambda>d. d \<noteq> c) s, rest))"

type_synonym block = "(string, string) hash_map"

definition block_line :: "(string \<Rightarrow> string) \<Rightarrow> string \<Rightarrow> block list \<times> block \<Rightarrow> block list \<times> block" where
  "block_line lower raw st =
     (let l = str_trim raw; (blocks, cur) = st
      in if l = [] then (if cur \<noteq> [] then (blocks @ [cur], []) else (blocks, cur))
         else (case split_once (CHR '':'') l of
                 Some (k, v) \<Rightarrow> (blocks, hm_put (lower (str_trim k)) (str_trim v) cur)
               | None \<Rightarrow> (blocks, cur)))"

definition parse_blocks :: "(string \<Rightarrow> string) \<Rightarrow> string \<Rightarrow> block list" where
  "parse_blocks lower out =
     (let (blocks, cur) = fold (block_line lower) (str_lines out) ([], [])
      in if cur \<noteq> [] then blocks @ [cur] else blocks)"

section \<open>Resolution\<close>

text \<open>What the resolver takes from its environment.\<close>

record ras_env =
  rac_exec :: "string list \<Rightarrow> (string, string) res"
  to_lower :: "string \<Rightarrow> string"
  parse_uuid :: "string \<Rightarrow> string option"

definition RESOLVE_TIMEOUT :: duration where "RESOLVE_TIMEOUT = 5000"
definition RESOLVE_CACHE_TTL :: duration where "RESOLVE_CACHE_TTL = 300000"
definition RESOLVE_MISS_TTL :: duration where "RESOLVE_MISS_TTL = 30000"

record RasResolver =
  ras_address :: "string option"
  ras_cache :: "(string \<times> string, instant \<times> ResolvedDatabaseIdentity option) hash_map"

definition credential_args :: "string option \<Rightarrow> string option \<Rightarrow> string list" where
  "credential_args user password =
     (case user of Some u \<Rightarrow> if u = [] then [] else [''--cluster-user='' @ u] | None \<Rightarrow> []) @
     (case password of Some p \<Rightarrow> if p = [] then [] else [''--cluster-pwd='' @ p] | None \<Rightarrow> [])"

definition trim_quotes :: "string \<Rightarrow> string" where
  "trim_quotes s = rev (dropWhile (\<lambda>c. c = CHR 0x22) (rev (dropWhile (\<lambda>c. c = CHR 0x22) s)))"

definition block_matches :: "ras_env \<Rightarrow> string \<Rightarrow> string \<Rightarrow> block \<Rightarrow> ResolvedDatabaseIdentity list" where
  "block_matches env wanted cluster b = (case map_of b ''name'' of
     None \<Rightarrow> []
   | Some name \<Rightarrow>
       if to_lower env (trim_quotes name) \<noteq> wanted then []
       else (case Option.bind (map_of b ''infobase'') (parse_uuid env) of
               None \<Rightarrow> []
             | Some ib \<Rightarrow> [\<lparr>cluster_guid = cluster, infobase_guid = ib\<rparr>]))"

definition cluster_matches :: "ras_env \<Rightarrow> string \<Rightarrow> string \<Rightarrow> string \<Rightarrow> ResolvedDatabaseIdentity list" where
  "cluster_matches env ras wanted cluster =
     (case rac_exec env [''infobase'', ''summary'', ''list'', ''--cluster'', cluster, ras] of
        Inl e \<Rightarrow> []
      | Inr out \<Rightarrow> concat (map (block_matches env wanted cluster) (parse_blocks (to_lower env) out)))"

definition resolve_uncached ::
  "ras_env \<Rightarrow> string option \<Rightarrow> string \<Rightarrow> string \<Rightarrow> ResolvedDatabaseIdentity option" where
  "resolve_uncached env address cluster_server ib_name =
     (let wanted = to_lower env (str_trim ib_name); ras = unwrap_or (str_trim cluster_server) address
      in case rac_exec env [''cluster'', ''list'', ras] of
           Inl e \<Rightarrow> None
         | Inr out \<Rightarrow>
             (let clusters = List.map_filter (\<lambda>b. Option.bind (map_of b ''cluster'') (parse_uuid env))
                    (parse_blocks (to_lower env) out)
              in case concat (map (cluster_matches env ras wanted) clusters) of
                   [m] \<Rightarrow> Some m
                 | _ \<Rightarrow> None))"

text \<open>\<open>slow\<close> says that the resolution did not finish within \<open>RESOLVE_TIMEOUT\<close>.\<close>

definition resolve ::
  "ras_env \<Rightarrow> bool \<Rightarrow> instant \<Rightarrow> instant \<Rightarrow> string \<Rightarrow> string \<Rightarrow> RasResolver \<Rightarrow>
     ResolvedDatabaseIdentity option \<times> RasResolver" where
  "resolve env slow now after cluster_server ib_name rs =
     (let key = (cluster_server, to_lower env ib_name);
          fresh_call = (let res = (if slow then None
                                   else resolve_uncached env (ras_address rs) cluster_server ib_name)
                        in (res, rs\<lparr>ras_cache := hm_put key (after, res) (ras_cache rs)\<rparr>))
      in case map_of (ras_cache rs) key of
           Some (at, cached) \<Rightarrow>
             (let ttl = (if cached \<noteq> None then RESOLVE_CACHE_TTL else RESOLVE_MISS_TTL)
              in if now - at < ttl then (cached, rs) else fresh_call)
         | None \<Rightarrow> fresh_call)"

section \<open>Properties\<close>

lemma split_at_first:
  assumes "c \<notin> set xs" "c \<notin> set us"
  shows "xs @ c # ys = us @ c # vs \<longleftrightarrow> xs = us \<and> ys = vs"
  using assms
proof (induction xs arbitrary: us)
  case Nil
  then show ?case by (cases us) auto
next
  case (Cons x xs)
  then show ?case by (cases us) auto
qed

text \<open>
  The key of a database is unambiguous among well-formed names. A key
  obtained from the cluster never equals a generated one; generated keys of servers whose
  names contain no slash are equal only for equal server and database names; and keys
  from the cluster are equal only for equal pairs of GUIDs (whose text has no colon).
\<close>

theorem database_keys_identify_databases:
  "database_key s n (Some i) \<noteq> database_key s' n' None \<and>
   (CHR ''/'' \<notin> set s \<longrightarrow> CHR ''/'' \<notin> set s' \<longrightarrow>
      (database_key s n None = database_key s' n' None \<longleftrightarrow> s = s' \<and> n = n')) \<and>
   (CHR '':'' \<notin> set (cluster_guid i) \<longrightarrow> CHR '':'' \<notin> set (cluster_guid j) \<longrightarrow>
      (database_key s n (Some i) = database_key s' n' (Some j) \<longleftrightarrow> i = j))"
  by (auto simp: database_key_def split_at_first)

theorem database_keys_identify_databases_witness:
  "database_key ''srv'' ''a'' None \<noteq> database_key ''srv'' ''b'' None"
  using database_keys_identify_databases [of "''srv''" "''a''" _ "''srv''" "''b''"] by simp

text \<open>
  A slash in the server name makes generated keys collide: two different
  pairs of server and database get the same key.
\<close>

theorem generated_keys_can_collide:
  "database_key (a @ ''/'' @ b) c None = database_key a (b @ ''/'' @ c) None"
  by (simp add: database_key_def)

text \<open>
  A GUID pair is used only when the name is unique. If the cluster gives
  an identity, then among the listings that could be read exactly one entry carries the
  wanted name, and the identity is that entry; a result is reused for its
  lifetime (hits five minutes, misses thirty seconds) without asking the cluster again.
\<close>

theorem resolution_is_unique_and_cached:
  assumes "map_of (ras_cache rs) (srv, to_lower env ib) = None" "resolve env slow now after srv ib rs = (res, rs')"
  shows "(\<forall>m. res = Some m \<longrightarrow> (\<exists>out. rac_exec env [''cluster'', ''list'', unwrap_or (str_trim srv) (ras_address rs)] = Ok out \<and>
      concat (map (cluster_matches env (unwrap_or (str_trim srv) (ras_address rs)) (to_lower env (str_trim ib)))
        (List.map_filter (\<lambda>b. Option.bind (map_of b ''cluster'') (parse_uuid env)) (parse_blocks (to_lower env) out))) = [m])) \<and>
    (\<forall>env' slow' now' after'. to_lower env' = to_lower env \<longrightarrow>
       now' - after < (if res = None then 30000 else 300000) \<longrightarrow>
       resolve env' slow' now' after' srv ib rs' = (res, rs'))"
proof -
  have res: "res = (if slow then None else resolve_uncached env (ras_address rs) srv ib)"
    and rs': "rs' = rs\<lparr>ras_cache := hm_put (srv, to_lower env ib) (after, res) (ras_cache rs)\<rparr>"
    using assms by (auto simp: resolve_def Let_def)
  have "\<exists>out. rac_exec env [''cluster'', ''list'', unwrap_or (str_trim srv) (ras_address rs)] = Ok out \<and>
      concat (map (cluster_matches env (unwrap_or (str_trim srv) (ras_address rs)) (to_lower env (str_trim ib)))
        (List.map_filter (\<lambda>b. Option.bind (map_of b ''cluster'') (parse_uuid env)) (parse_blocks (to_lower env) out))) = [m]"
    if "res = Some m" for m
    using that
    by (simp add: res resolve_uncached_def Let_def split: if_splits sum.splits list.splits)
  then show ?thesis
    by (auto simp: rs' resolve_def hm_put_get RESOLVE_CACHE_TTL_def RESOLVE_MISS_TTL_def)
qed

definition silent_ras :: ras_env where
  "silent_ras = \<lparr>rac_exec = (\<lambda>_. Err ''no rac''), to_lower = id, parse_uuid = Some\<rparr>"

theorem resolution_is_unique_and_cached_witness:
  "resolve silent_ras False 29999 0 ''srv'' ''ib''
     (snd (resolve silent_ras False 0 0 ''srv'' ''ib'' \<lparr>ras_address = None, ras_cache = []\<rparr>)) =
   resolve silent_ras False 0 0 ''srv'' ''ib'' \<lparr>ras_address = None, ras_cache = []\<rparr>"
  using resolution_is_unique_and_cached [of "\<lparr>ras_address = None, ras_cache = []\<rparr>" "''srv''" silent_ras "''ib''" False 0 0, OF _ prod.collapse [symmetric]]
  by simp

text \<open>
  A cluster whose infobase list cannot be read is left out, so a name that
  exists there as well is not noticed as ambiguous.
\<close>

lemma unreadable_cluster_is_skipped:
  "rac_exec env [''infobase'', ''summary'', ''list'', ''--cluster'', c, ras] = Err e \<Longrightarrow>
   concat (map (cluster_matches env ras wanted) (cs @ [c])) = concat (map (cluster_matches env ras wanted) cs)"
  by (simp add: cluster_matches_def)

end
