(* ===== verification/Masking_Gate.thy ===== *)
theory Masking_Gate
  imports Db_Identity
begin

text \<open>
  The gate to the masking service: requests and replies of the service
  (\<open>src/session_manager/masking/client.rs\<close>), the durable outbox of
  terminal events, and the preflight and finalize steps of a call
  (\<open>src/session_manager/masking/gate.rs\<close>). The service and the network
  are outside: what they answer is a parameter, and so is the parser of UUIDs.
\<close>

section \<open>Callers\<close>

definition MAX_CALLER_LABEL_CHARS :: nat where "MAX_CALLER_LABEL_CHARS = 256"

record CallerInfo =
  ci_mcp_session_id :: "string option"
  ci_client_name :: "string option"
  ci_client_version :: "string option"

definition nonempty :: "string option \<Rightarrow> string" where
  "nonempty x = unwrap_or [] x"

definition raw_label :: "CallerInfo \<Rightarrow> string" where
  "raw_label c =
     (let name = nonempty (ci_client_name c); version = nonempty (ci_client_version c);
          session = nonempty (ci_mcp_session_id c);
          l1 = (if name = [] then [] else name @ (if version = [] then [] else ''/'' @ version))
      in if session = [] then l1
         else l1 @ (if l1 = [] then [] else '' '') @ ''#'' @ concat (take 8 (utf8_chars session)))"

definition caller_label :: "CallerInfo \<Rightarrow> string option" where
  "caller_label c =
     (if raw_label c = [] then None
      else Some (concat (take MAX_CALLER_LABEL_CHARS
             (map (\<lambda>ch. if is_control ch then ''?'' else ch) (utf8_chars (raw_label c))))))"

definition valid_caller :: "string option \<Rightarrow> bool" where
  "valid_caller c = (case c of None \<Rightarrow> True
     | Some s \<Rightarrow> length (utf8_chars s) \<le> MAX_CALLER_LABEL_CHARS \<and> \<not> (\<exists>ch \<in> set (utf8_chars s). is_control ch))"

section \<open>Requests and replies of the service\<close>

datatype TerminalScope = Verified string string string "string option" | Unverified

record TerminalRequest =
  tr_schema_version :: u8
  tr_call_id :: string
  tr_correlation_id :: string
  tr_tool_name :: string
  tr_error_code :: string
  tr_scope :: TerminalScope

record MaskingCallContext =
  mc_call_id :: string
  mc_correlation_id :: string
  mc_database :: SessionDatabaseIdentity
  mc_caller :: "string option"
  mc_tool_name :: string

record PreflightRequest =
  pq_schema_version :: u8
  pq_context :: MaskingCallContext
  pq_arguments :: json

record PreflightResponse =
  pr_schema_version :: u8
  pr_decision :: string
  pr_arguments :: json

datatype FinalizeOutcome = ToolResult json | TransportError json

record FinalizeRequest =
  fq_schema_version :: u8
  fq_context :: MaskingCallContext
  fq_outcome :: FinalizeOutcome
  fq_field_sources :: "json option"

record FinalizeResponse =
  fr_schema_version :: u8
  fr_public_result :: ToolCallResult

record TerminalResponse =
  tp_schema_version :: u8
  tp_status :: string

record ServiceError =
  se_code :: string
  se_message :: string
  se_correlation_id :: string
  se_retryable :: bool
  se_retry_after_s :: "u64 option"

datatype ClientError = Cl_Transport | Cl_Timeout | Cl_InvalidResponse | Cl_Service nat ServiceError

record MaskingFailure =
  mf_code :: string
  mf_message :: string
  mf_correlation_id :: string
  mf_retry_after_s :: "u64 option"

definition with_correlation :: "string \<Rightarrow> string \<Rightarrow> string \<Rightarrow> MaskingFailure" where
  "with_correlation code msg corr =
     \<lparr>mf_code = code, mf_message = msg, mf_correlation_id = corr, mf_retry_after_s = None\<rparr>"

section \<open>Messages to the service\<close>

definition MAX_INTERNAL_BODY_BYTES :: nat where "MAX_INTERNAL_BODY_BYTES = 8 * 1024 * 1024"

definition encode_context :: "MaskingCallContext \<Rightarrow> (string \<times> json) list" where
  "encode_context c = [(''call_id'', JString (mc_call_id c)), (''correlation_id'', JString (mc_correlation_id c)),
     (''instance_id'', JString (di_instance_id (mc_database c))),
     (''cluster_server'', JString (di_cluster_server (mc_database c))),
     (''infobase_name'', JString (di_infobase_name (mc_database c))),
     (''caller'', (case mc_caller c of None \<Rightarrow> JNull | Some s \<Rightarrow> JString s)),
     (''tool_name'', JString (mc_tool_name c))]"

fun encode_outcome :: "FinalizeOutcome \<Rightarrow> json" where
  "encode_outcome (ToolResult v) = jobj [(''kind'', JString ''tool_result''), (''result'', v)]"
| "encode_outcome (TransportError v) = jobj [(''kind'', JString ''transport_error''), (''error'', v)]"

definition encode_finalize :: "FinalizeRequest \<Rightarrow> json" where
  "encode_finalize q = jobj ([(''schema_version'', enc_nat (unat (fq_schema_version q)))] @ encode_context (fq_context q)
     @ [(''outcome'', encode_outcome (fq_outcome q))] @ enc_opt ''field_sources'' id (fq_field_sources q))"

text \<open>
  A result that does not fit the bounded interface is replaced by a fixed terminal
  outcome with the same identity.
\<close>

definition finalize_fallback :: "FinalizeRequest \<Rightarrow> FinalizeRequest" where
  "finalize_fallback q = q\<lparr>fq_outcome := TransportError (jobj [(''code'', JString ''RESULT_LIMIT_EXCEEDED'')]),
     fq_field_sources := Some (jobj [(''degraded_reasons'', JArray [JString ''manager:result_limit_exceeded''])])\<rparr>"

definition serialize_finalize_request :: "(json \<Rightarrow> string) \<Rightarrow> FinalizeRequest \<Rightarrow> (ClientError, string) res" where
  "serialize_finalize_request print q =
     (let body = print (encode_finalize q) in
      if length body \<le> MAX_INTERNAL_BODY_BYTES then Ok body
      else (let body' = print (encode_finalize (finalize_fallback q)) in
            if MAX_INTERNAL_BODY_BYTES < length body' then Err Cl_InvalidResponse else Ok body'))"

text \<open>One retry after a transport failure, under one deadline.\<close>

definition retry_transport :: "bool \<Rightarrow> (ClientError, 'a) res \<Rightarrow> (ClientError, 'a) res \<Rightarrow> (ClientError, 'a) res" where
  "retry_transport slow first second =
     (if slow then Err Cl_Timeout else if first = Err Cl_Transport then second else first)"

section \<open>Terminal events\<close>

definition MAX_TERMINAL_OUTBOX_EVENTS :: nat where "MAX_TERMINAL_OUTBOX_EVENTS = 10000"

definition verified_codes :: "string list" where
  "verified_codes = [''ACTION_REQUIRED'', ''TOOL_PENDING_REVIEW'', ''MASK_TOKEN_INVALID'', ''SERVICE_NOT_READY'',
     ''SERVICE_WARMING_UP'', ''POLICY_INVALID'', ''RESULT_LIMIT_EXCEEDED'', ''MASKING_TIMEOUT'', ''MASKING_FAILED'',
     ''HISTORY_UNAVAILABLE'']"

definition valid_terminal :: "(string \<Rightarrow> bool) \<Rightarrow> TerminalRequest \<Rightarrow> bool" where
  "valid_terminal uuid_ok e \<longleftrightarrow>
     tr_schema_version e = 1 \<and> uuid_ok (tr_call_id e) \<and> uuid_ok (tr_correlation_id e) \<and>
     tr_tool_name e \<noteq> [] \<and> length (tr_tool_name e) \<le> 128 \<and>
     (case tr_scope e of
        Verified inst cluster ib caller \<Rightarrow>
          cluster \<noteq> [] \<and> length cluster \<le> 512 \<and> ib \<noteq> [] \<and> length ib \<le> 512 \<and> valid_caller caller \<and>
          tr_error_code e \<in> set verified_codes
      | Unverified \<Rightarrow> tr_error_code e \<in> {''DATABASE_IDENTITY_UNVERIFIED'', ''SERVICE_NOT_READY''})"

definition unverified_terminal :: "string \<Rightarrow> string \<Rightarrow> string \<Rightarrow> string \<Rightarrow> TerminalRequest" where
  "unverified_terminal call corr tool code = \<lparr>tr_schema_version = 1, tr_call_id = call,
     tr_correlation_id = corr, tr_tool_name = tool, tr_error_code = code, tr_scope = Unverified\<rparr>"

definition verified_terminal :: "MaskingCallContext \<Rightarrow> string \<Rightarrow> TerminalRequest" where
  "verified_terminal c code = \<lparr>tr_schema_version = 1, tr_call_id = mc_call_id c,
     tr_correlation_id = mc_correlation_id c, tr_tool_name = mc_tool_name c, tr_error_code = code,
     tr_scope = Verified (di_instance_id (mc_database c)) (di_cluster_server (mc_database c))
       (di_infobase_name (mc_database c)) (mc_caller c)\<rparr>"

definition terminal_fallback_code :: "string \<Rightarrow> string" where
  "terminal_fallback_code code = (if code \<in> set verified_codes then code else ''MASKING_FAILED'')"

definition encode_scope :: "TerminalScope \<Rightarrow> json" where
  "encode_scope s = (case s of
     Verified inst cluster ib caller \<Rightarrow> jobj ([(''kind'', JString ''verified''), (''instance_id'', JString inst),
       (''cluster_server'', JString cluster), (''infobase_name'', JString ib)] @ enc_opt ''caller'' JString caller)
   | Unverified \<Rightarrow> jobj [(''kind'', JString ''unverified'')])"

definition encode_terminal :: "TerminalRequest \<Rightarrow> json" where
  "encode_terminal e = jobj [(''schema_version'', enc_nat (unat (tr_schema_version e))),
     (''call_id'', JString (tr_call_id e)), (''correlation_id'', JString (tr_correlation_id e)),
     (''tool_name'', JString (tr_tool_name e)), (''error_code'', JString (tr_error_code e)),
     (''scope'', encode_scope (tr_scope e))]"

definition encode_outbox :: "TerminalRequest list \<Rightarrow> json" where
  "encode_outbox es = jobj [(''schema_version'', enc_nat 1), (''events'', JArray (map encode_terminal es))]"

section \<open>The outbox\<close>

record TerminalOutbox =
  ob_events :: "TerminalRequest list"
  ob_file :: file_state
  ob_fault :: "nat option"

definition outbox_text :: "(json \<Rightarrow> string) \<Rightarrow> TerminalRequest list \<Rightarrow> string" where
  "outbox_text print es = print (encode_outbox es)"

definition outbox_persist :: "(json \<Rightarrow> string) \<Rightarrow> TerminalOutbox \<Rightarrow> bool \<times> TerminalOutbox" where
  "outbox_persist print ob =
     (let (ok, f) = write_json_atomic (ob_fault ob) (outbox_text print (ob_events ob)) (ob_file ob)
      in (ok, ob\<lparr>ob_file := f\<rparr>))"

definition outbox_enqueue ::
  "(json \<Rightarrow> string) \<Rightarrow> (string \<Rightarrow> bool) \<Rightarrow> TerminalRequest \<Rightarrow> TerminalOutbox \<Rightarrow> (string, unit) res \<times> TerminalOutbox" where
  "outbox_enqueue print uuid_ok e ob =
     (if \<not> valid_terminal uuid_ok e then (Err ''invalid masking terminal event'', ob)
      else (case find (\<lambda>x. tr_call_id x = tr_call_id e) (ob_events ob) of
         Some x \<Rightarrow> if x = e then (Ok (), ob) else (Err ''masking terminal call identity collision'', ob)
       | None \<Rightarrow>
           if MAX_TERMINAL_OUTBOX_EVENTS \<le> length (ob_events ob)
           then (Err ''masking terminal outbox is full'', ob)
           else (let (ok, ob1) = outbox_persist print (ob\<lparr>ob_events := ob_events ob @ [e]\<rparr>)
                 in if ok then (Ok (), ob1)
                    else (Err ''cannot persist masking terminal outbox'',
                          ob1\<lparr>ob_events := butlast (ob_events ob1)\<rparr>))))"

definition acknowledge_first :: "(json \<Rightarrow> string) \<Rightarrow> TerminalOutbox \<Rightarrow> bool \<times> TerminalOutbox" where
  "acknowledge_first print ob = (case ob_events ob of
     [] \<Rightarrow> (False, ob)
   | e # es \<Rightarrow>
       (let (ok, ob1) = outbox_persist print (ob\<lparr>ob_events := es\<rparr>)
        in if ok then (True, ob1) else (False, ob1\<lparr>ob_events := e # ob_events ob1\<rparr>)))"

definition terminal_delivery_ack :: "(ClientError, TerminalResponse) res \<Rightarrow> bool" where
  "terminal_delivery_ack r = (case r of
     Inr p \<Rightarrow> tp_schema_version p = 1 \<and> tp_status p = ''recorded''
   | Inl (Cl_Service status e) \<Rightarrow> status = 409 \<and> se_code e = ''TERMINAL_ALREADY_RECORDED''
   | Inl _ \<Rightarrow> False)"

text \<open>
  The replay loop: \<open>ans n\<close> is the service's answer to the \<open>n\<close>-th delivery.
  It ends because every turn that goes on has removed an event.
\<close>

function flush_terminal ::
  "(json \<Rightarrow> string) \<Rightarrow> (nat \<Rightarrow> TerminalRequest \<Rightarrow> (ClientError, TerminalResponse) res) \<Rightarrow> nat \<Rightarrow>
     TerminalOutbox \<Rightarrow> TerminalOutbox" where
  "flush_terminal print ans n ob = (case ob_events ob of
     [] \<Rightarrow> ob
   | e # es \<Rightarrow>
       if terminal_delivery_ack (ans n e)
       then (case acknowledge_first print ob of
               (True, ob1) \<Rightarrow> flush_terminal print ans (Suc n) ob1
             | (False, ob1) \<Rightarrow> ob1)
       else ob)"
  by pat_completeness auto
termination
  by (relation "measure (\<lambda>(_, _, _, ob). length (ob_events ob))")
     (auto simp: acknowledge_first_def outbox_persist_def Let_def split: prod.splits if_splits)

declare flush_terminal.simps [simp del]

section \<open>Loading the outbox\<close>

text \<open>\<open>deny_unknown_fields\<close>.\<close>

definition struct_strict :: "string list \<Rightarrow> json \<Rightarrow> (string \<times> json) list option" where
  "struct_strict fs v = Option.bind (struct_map fs v) (\<lambda>m. if set (map fst m) \<subseteq> set fs then Some m else None)"

definition decode_scope_as :: "string \<Rightarrow> json \<Rightarrow> TerminalScope option" where
  "decode_scope_as kind body =
     (if kind = ''verified'' then
        Option.bind (struct_strict [''instance_id'', ''cluster_server'', ''infobase_name'', ''caller''] body) (\<lambda>m.
        Option.bind (field_req dec_string ''instance_id'' m) (\<lambda>i.
        Option.bind (field_req dec_string ''cluster_server'' m) (\<lambda>c.
        Option.bind (field_req dec_string ''infobase_name'' m) (\<lambda>n.
        Option.bind (field_opt dec_string ''caller'' m) (\<lambda>ca. Some (Verified i c n ca))))))
      else if kind = ''unverified'' then Some Unverified
      else None)"

fun decode_scope :: "json \<Rightarrow> TerminalScope option" where
  "decode_scope (JObject m) = Option.bind (Option.bind (map_of m ''kind'') as_str)
     (\<lambda>k. decode_scope_as k (JObject (filter (\<lambda>e. fst e \<noteq> ''kind'') m)))"
| "decode_scope (JArray (JString k # xs)) = decode_scope_as k (JArray xs)"
| "decode_scope _ = None"

definition decode_terminal :: "json \<Rightarrow> TerminalRequest option" where
  "decode_terminal v =
     Option.bind (struct_strict [''schema_version'', ''call_id'', ''correlation_id'', ''tool_name'', ''error_code'', ''scope''] v) (\<lambda>m.
     Option.bind (field_req dec_u8 ''schema_version'' m) (\<lambda>sv.
     Option.bind (field_req dec_string ''call_id'' m) (\<lambda>c.
     Option.bind (field_req dec_string ''correlation_id'' m) (\<lambda>co.
     Option.bind (field_req dec_string ''tool_name'' m) (\<lambda>t.
     Option.bind (field_req dec_string ''error_code'' m) (\<lambda>ec.
     Option.bind (field_req decode_scope ''scope'' m) (\<lambda>s.
       Some \<lparr>tr_schema_version = sv, tr_call_id = c, tr_correlation_id = co, tr_tool_name = t,
         tr_error_code = ec, tr_scope = s\<rparr>)))))))"

definition decode_outbox :: "json \<Rightarrow> (u8 \<times> TerminalRequest list) option" where
  "decode_outbox v =
     Option.bind (struct_strict [''schema_version'', ''events''] v) (\<lambda>m.
     Option.bind (field_req dec_u8 ''schema_version'' m) (\<lambda>sv.
     Option.bind (field_req (dec_list decode_terminal) ''events'' m) (\<lambda>es. Some (sv, es))))"

text \<open>The former format: a \<open>chat_id\<close> in the verified scope is dropped.\<close>

definition drop_chat_id :: "json \<Rightarrow> json" where
  "drop_chat_id raw = (case raw of
     JObject m \<Rightarrow> (case map_of m ''scope'' of
        Some (JObject sc) \<Rightarrow>
          if Option.bind (map_of sc ''kind'') as_str = Some ''verified''
          then JObject (bm_put ''scope'' (JObject (bm_del ''chat_id'' sc)) m) else raw
      | _ \<Rightarrow> raw)
   | _ \<Rightarrow> raw)"

fun convert_events :: "(string \<Rightarrow> bool) \<Rightarrow> TerminalRequest list \<Rightarrow> json list \<Rightarrow> TerminalRequest list option" where
  "convert_events uuid_ok acc [] = Some acc"
| "convert_events uuid_ok acc (raw # raws) = (case decode_terminal (drop_chat_id raw) of
     None \<Rightarrow> None
   | Some e \<Rightarrow>
       if tr_error_code e = ''CHAT_IDENTITY_REQUIRED'' then convert_events uuid_ok acc raws
       else if \<not> valid_terminal uuid_ok e \<or> MAX_TERMINAL_OUTBOX_EVENTS \<le> length acc \<or>
               tr_call_id e \<in> tr_call_id ` set acc then None
       else convert_events uuid_ok (acc @ [e]) raws)"

definition convert_legacy_outbox :: "(string \<Rightarrow> bool) \<Rightarrow> json \<Rightarrow> TerminalRequest list option" where
  "convert_legacy_outbox uuid_ok v = (case v of
     JObject m \<Rightarrow>
       if length m \<noteq> 2 \<or> Option.bind (map_of m ''schema_version'') as_u64 \<noteq> Some 1 then None
       else Option.bind (Option.bind (map_of m ''events'') as_array) (convert_events uuid_ok [])
   | _ \<Rightarrow> None)"

text \<open>
  \<open>load\<close>: \<open>readable\<close> says whether an existing file can be read. A
  converted file is written back at once.
\<close>

text \<open>Whether the \<open>HashSet\<close> accepts each call id as new.\<close>

fun insert_calls :: "string list \<Rightarrow> TerminalRequest list \<Rightarrow> bool" where
  "insert_calls seen [] \<longleftrightarrow> True"
| "insert_calls seen (e # es) \<longleftrightarrow> tr_call_id e \<notin> set seen \<and> insert_calls (tr_call_id e # seen) es"

definition ensure_unique_terminal_calls :: "TerminalRequest list \<Rightarrow> (string, unit) res" where
  "ensure_unique_terminal_calls es =
     (if insert_calls [] es then Ok () else Err ''duplicate call identity in masking terminal outbox'')"

lemma insert_calls_distinct: "insert_calls seen es \<longleftrightarrow> distinct (map tr_call_id es) \<and> set seen \<inter> tr_call_id ` set es = {}"
  by (induction es arbitrary: seen) auto

lemma ensure_unique_case [simp]:
  "(case ensure_unique_terminal_calls es of Inl e \<Rightarrow> Err e | Inr _ \<Rightarrow> Ok ob) =
   (if distinct (map tr_call_id es) then Ok ob else Err ''duplicate call identity in masking terminal outbox'')"
  by (simp add: ensure_unique_terminal_calls_def insert_calls_distinct)

definition outbox_load ::
  "serde \<Rightarrow> (string \<Rightarrow> bool) \<Rightarrow> bool \<Rightarrow> nat option \<Rightarrow> file_state \<Rightarrow> (string, TerminalOutbox) res" where
  "outbox_load sd uuid_ok readable fault f = (case target f of
     None \<Rightarrow> Ok \<lparr>ob_events = [], ob_file = f, ob_fault = fault\<rparr>
   | Some t \<Rightarrow>
       if \<not> readable then Err ''cannot read masking terminal outbox''
       else
         (let checked = (\<lambda>sv es ob.
                if sv \<noteq> 1 \<or> MAX_TERMINAL_OUTBOX_EVENTS < length es \<or> (\<exists>e \<in> set es. \<not> valid_terminal uuid_ok e)
                then Err ''invalid masking terminal outbox''
                else (case ensure_unique_terminal_calls es of Inl e \<Rightarrow> Err e | Inr _ \<Rightarrow> Ok ob))
          in case Option.bind (sd_parse sd t) decode_outbox of
               Some (sv, es) \<Rightarrow> checked sv es \<lparr>ob_events = es, ob_file = f, ob_fault = fault\<rparr>
             | None \<Rightarrow>
                 (case Option.bind (sd_parse sd t) (convert_legacy_outbox uuid_ok) of
                    None \<Rightarrow> Err ''invalid masking terminal outbox''
                  | Some es \<Rightarrow>
                      (let (ok, ob) = outbox_persist (sd_print sd) \<lparr>ob_events = es, ob_file = f, ob_fault = fault\<rparr>
                       in if ok then checked 1 es ob else Err ''cannot persist masking terminal outbox''))))"

section \<open>The gate\<close>

record MaskingGate =
  mg_enabled :: bool
  mg_internal_tools :: "string list"
  mg_ras :: "RasResolver option"
  mg_outbox :: "TerminalOutbox option"

text \<open>What the gate takes from outside during one step.\<close>

record gate_env =
  ge_print :: "json \<Rightarrow> string"
  ge_uuid :: "string \<Rightarrow> bool"
  ge_terminal :: "nat \<Rightarrow> TerminalRequest \<Rightarrow> (ClientError, TerminalResponse) res"
  ge_preflight :: "PreflightRequest \<Rightarrow> (ClientError, PreflightResponse) res"
  ge_finalize :: "FinalizeRequest \<Rightarrow> (ClientError, FinalizeResponse) res"

definition normalize_tools :: "MaskingGate \<Rightarrow> ToolDescriptor list \<Rightarrow> ToolDescriptor list" where
  "normalize_tools g ts = map (\<lambda>t. t\<lparr>td_visibility :=
     (if td_name t \<in> set (mg_internal_tools g) \<or> td_visibility t = Internal then Internal else Public)\<rparr>) ts"

definition verify_database :: "SessionRecord \<Rightarrow> SessionDatabaseIdentity option" where
  "verify_database = from_record"

definition call_context ::
  "SessionDatabaseIdentity \<Rightarrow> CallerInfo \<Rightarrow> string \<Rightarrow> string \<Rightarrow> string \<Rightarrow> MaskingCallContext" where
  "call_context ident caller tool call corr = \<lparr>mc_call_id = call, mc_correlation_id = corr,
     mc_database = ident, mc_caller = caller_label caller, mc_tool_name = tool\<rparr>"

definition record_terminal :: "gate_env \<Rightarrow> TerminalRequest \<Rightarrow> MaskingGate \<Rightarrow> (string, unit) res \<times> MaskingGate" where
  "record_terminal env e g = (case mg_outbox g of
     None \<Rightarrow> (Err ''masking terminal outbox is disabled'', g)
   | Some ob \<Rightarrow>
       (case outbox_enqueue (ge_print env) (ge_uuid env) e ob of
          (Inl err, ob1) \<Rightarrow> (Err err, g\<lparr>mg_outbox := Some ob1\<rparr>)
        | (Inr _, ob1) \<Rightarrow> (Ok (), g\<lparr>mg_outbox := Some (flush_terminal (ge_print env) (ge_terminal env) 0 ob1)\<rparr>)))"

definition UNAVAILABLE :: string where
  "UNAVAILABLE = map char_of [208, 158, 208, 191, 208, 181, 209, 128, 208, 176, 209, 134, 208, 184, 209, 143, 32,
     208, 178, 209, 128, 208, 181, 208, 188, 208, 181, 208, 189, 208, 189, 208, 190, 32, 208, 189, 208, 181, 208,
     180, 208, 190, 209, 129, 209, 130, 209, 131, 208, 191, 208, 189, 208, 176 :: nat]"

fun map_client_error :: "ClientError \<Rightarrow> string \<Rightarrow> MaskingFailure" where
  "map_client_error (Cl_Service st e) corr = \<lparr>mf_code = se_code e, mf_message = se_message e,
     mf_correlation_id = se_correlation_id e, mf_retry_after_s = se_retry_after_s e\<rparr>"
| "map_client_error Cl_Timeout corr = with_correlation ''MASKING_TIMEOUT'' UNAVAILABLE corr"
| "map_client_error Cl_Transport corr = with_correlation ''SERVICE_NOT_READY'' UNAVAILABLE corr"
| "map_client_error Cl_InvalidResponse corr = with_correlation ''MASKING_FAILED'' UNAVAILABLE corr"

text \<open>A refusal is handed out only after its terminal event has been recorded.\<close>

definition refuse_recorded ::
  "gate_env \<Rightarrow> MaskingCallContext \<Rightarrow> string \<Rightarrow> MaskingFailure \<Rightarrow> MaskingGate \<Rightarrow> MaskingFailure \<times> MaskingGate" where
  "refuse_recorded env c code failure g = (case record_terminal env (verified_terminal c code) g of
     (Inl _, g1) \<Rightarrow> (with_correlation ''HISTORY_UNAVAILABLE'' UNAVAILABLE (mc_correlation_id c), g1)
   | (Inr _, g1) \<Rightarrow> (failure, g1))"

definition preflight ::
  "gate_env \<Rightarrow> MaskingCallContext \<Rightarrow> json \<Rightarrow> MaskingGate \<Rightarrow>
     (MaskingFailure, MaskingCallContext \<times> json) res \<times> MaskingGate" where
  "preflight env c args g =
     (case ge_preflight env \<lparr>pq_schema_version = 1, pq_context = c, pq_arguments = args\<rparr> of
        Inl err \<Rightarrow>
          (let failure = map_client_error err (mc_correlation_id c);
               (f, g1) = refuse_recorded env c (terminal_fallback_code (mf_code failure)) failure g
           in (Err f, g1))
      | Inr p \<Rightarrow>
          if pr_schema_version p \<noteq> 1 \<or> pr_decision p \<noteq> ''allow''
          then (let (f, g1) = refuse_recorded env c ''MASKING_FAILED''
                      (with_correlation ''MASKING_FAILED'' UNAVAILABLE (mc_correlation_id c)) g
                in (Err f, g1))
          else (Ok (c, pr_arguments p), g))"

definition finalize ::
  "gate_env \<Rightarrow> MaskingCallContext \<Rightarrow> FinalizeOutcome \<Rightarrow> json option \<Rightarrow> MaskingGate \<Rightarrow>
     (MaskingFailure, ToolCallResult) res \<times> MaskingGate" where
  "finalize env c outcome sources g =
     (case ge_finalize env \<lparr>fq_schema_version = 1, fq_context = c, fq_outcome = outcome, fq_field_sources = sources\<rparr> of
        Inl err \<Rightarrow>
          (let failure = map_client_error err (mc_correlation_id c);
               (f, g1) = refuse_recorded env c (terminal_fallback_code (mf_code failure)) failure g
           in (Err f, g1))
      | Inr p \<Rightarrow>
          if fr_schema_version p \<noteq> 1
          then (let (f, g1) = refuse_recorded env c ''MASKING_FAILED''
                      (with_correlation ''MASKING_FAILED'' UNAVAILABLE (mc_correlation_id c)) g
                in (Err f, g1))
          else (Ok (fr_public_result p), g))"

definition transport_error_outcome :: "string \<Rightarrow> FinalizeOutcome" where
  "transport_error_outcome code = TransportError (jobj [(''code'', JString code)])"

section \<open>The outbox is durable\<close>

text \<open>The file says what the outbox holds.\<close>

definition synced :: "(json \<Rightarrow> string) \<Rightarrow> TerminalOutbox \<Rightarrow> bool" where
  "synced print ob \<longleftrightarrow> (case target (ob_file ob) of
     None \<Rightarrow> ob_events ob = []
   | Some t \<Rightarrow> t = outbox_text print (ob_events ob))"

lemma synced_cong:
  "ob_events a = ob_events b \<Longrightarrow> target (ob_file a) = target (ob_file b) \<Longrightarrow> synced print a = synced print b"
  by (simp add: synced_def split: option.split)

definition outbox_inv :: "(string \<Rightarrow> bool) \<Rightarrow> TerminalOutbox \<Rightarrow> bool" where
  "outbox_inv uuid_ok ob \<longleftrightarrow> distinct (map tr_call_id (ob_events ob)) \<and>
     (\<forall>e \<in> set (ob_events ob). valid_terminal uuid_ok e) \<and> length (ob_events ob) \<le> MAX_TERMINAL_OUTBOX_EVENTS"

lemma persist_result:
  assumes "outbox_persist print ob = (ok, ob1)"
  shows "ob_events ob1 = ob_events ob \<and>
    target (ob_file ob1) = (if ok then Some (outbox_text print (ob_events ob)) else target (ob_file ob))"
  using assms df.save_contents [of "ob_fault ob" "outbox_text print (ob_events ob)" "ob_file ob"]
  by (auto simp: outbox_persist_def Let_def split: prod.splits)

lemma enqueue_cases:
  assumes "outbox_enqueue print uuid_ok e ob = (r, ob')"
  obtains (refused) err where "r = Err err" "ob_events ob' = ob_events ob" "target (ob_file ob') = target (ob_file ob)"
  | (known) "r = Ok ()" "ob' = ob" "e \<in> set (ob_events ob)"
  | (added) "r = Ok ()" "ob_events ob' = ob_events ob @ [e]" "valid_terminal uuid_ok e"
      "tr_call_id e \<notin> tr_call_id ` set (ob_events ob)" "length (ob_events ob) < MAX_TERMINAL_OUTBOX_EVENTS"
      "target (ob_file ob') = Some (outbox_text print (ob_events ob @ [e]))"
proof (cases "valid_terminal uuid_ok e")
  case False
  then show ?thesis using assms refused by (auto simp: outbox_enqueue_def)
next
  case valid: True
  show ?thesis
  proof (cases "find (\<lambda>x. tr_call_id x = tr_call_id e) (ob_events ob)")
    case (Some x)
    then have "x \<in> set (ob_events ob)" using find_Some_iff_first by fastforce
    then show ?thesis
      using assms valid Some refused known by (cases "x = e") (auto simp: outbox_enqueue_def)
  next
    case None
    then have new: "tr_call_id e \<notin> tr_call_id ` set (ob_events ob)" by (auto simp: find_None_iff)
    obtain ok ob1 where p: "outbox_persist print (ob\<lparr>ob_events := ob_events ob @ [e]\<rparr>) = (ok, ob1)"
      by (metis surj_pair)
    show ?thesis
    proof (cases "length (ob_events ob) < MAX_TERMINAL_OUTBOX_EVENTS")
      case False
      with assms valid None refused show ?thesis by (auto simp: outbox_enqueue_def)
    next
      case True
      with assms valid None p persist_result [OF p] new refused added show ?thesis
        by (cases ok) (auto simp: outbox_enqueue_def)
    qed
  qed
qed

lemma acknowledge_cases:
  assumes "acknowledge_first print ob = (ok, ob')" "ob_events ob = e # es"
  shows "if ok then ob_events ob' = es \<and> target (ob_file ob') = Some (outbox_text print es)
    else ob_events ob' = e # es \<and> target (ob_file ob') = target (ob_file ob)"
proof -
  obtain k ob1 where p: "outbox_persist print (ob\<lparr>ob_events := es\<rparr>) = (k, ob1)" by (metis surj_pair)
  show ?thesis using assms persist_result [OF p] by (auto simp: acknowledge_first_def p split: if_splits)
qed

lemma flush_result:
  "\<exists>k \<le> length (ob_events ob).
     ob_events (flush_terminal print ans n ob) = drop k (ob_events ob) \<and>
     (\<forall>i < k. terminal_delivery_ack (ans (n + i) (ob_events ob ! i))) \<and>
     (synced print ob \<longrightarrow> synced print (flush_terminal print ans n ob))"
proof (induction print ans n ob rule: flush_terminal.induct)
  case (1 print ans n ob)
  show ?case
  proof (cases "ob_events ob")
    case Nil
    then show ?thesis by (simp add: flush_terminal.simps)
  next
    case (Cons e es)
    show ?thesis
    proof (cases "terminal_delivery_ack (ans n e)")
      case False
      then show ?thesis using Cons by (intro exI [of _ 0]) (simp add: flush_terminal.simps)
    next
      case True
      obtain ok ob1 where a: "acknowledge_first print ob = (ok, ob1)" by (metis surj_pair)
      note ack = acknowledge_cases [OF a Cons]
      show ?thesis
      proof (cases ok)
        case False
        then show ?thesis using ack Cons True a synced_cong [of ob1 ob print]
          by (intro exI [of _ 0]) (simp add: flush_terminal.simps [of print ans n ob])
      next
        case ok: True
        have step: "flush_terminal print ans n ob = flush_terminal print ans (Suc n) ob1"
          using Cons True a ok by (simp add: flush_terminal.simps [of print ans n ob])
        from 1 [OF Cons True a [symmetric] eqTrueI [OF ok]] obtain k where
          k: "k \<le> length es" "ob_events (flush_terminal print ans (Suc n) ob1) = drop k es"
            "\<forall>i < k. terminal_delivery_ack (ans (Suc n + i) (es ! i))"
            "synced print ob1 \<longrightarrow> synced print (flush_terminal print ans (Suc n) ob1)"
          using ack ok by auto
        have "synced print ob1" using ack ok by (simp add: synced_def)
        moreover have "\<forall>i < Suc k. terminal_delivery_ack (ans (n + i) ((e # es) ! i))"
          using k(3) True by (auto simp: less_Suc_eq_0_disj)
        ultimately show ?thesis
          using k Cons step by (intro exI [of _ "Suc k"]) simp
      qed
    qed
  qed
qed

text \<open>
  C23: the outbox in memory and its file never disagree. Whatever the service
  answers and wherever a write fails, after enqueueing and replaying, the file still holds
  exactly the events of the outbox; an event whose recording succeeded was in
  both before anything was delivered; the replay removes events in order, each only
  after the service acknowledged it.
\<close>

theorem outbox_memory_matches_disk:
  assumes "synced print ob" "outbox_inv uuid_ok ob" "outbox_enqueue print uuid_ok e ob = (r, ob1)"
  shows "synced print ob1 \<and> outbox_inv uuid_ok ob1 \<and> (r = Ok () \<longrightarrow> e \<in> set (ob_events ob1)) \<and>
    set (ob_events ob) \<subseteq> set (ob_events ob1) \<and>
    (let ob2 = flush_terminal print ans 0 ob1 in
       synced print ob2 \<and> outbox_inv uuid_ok ob2 \<and>
       (\<exists>k. ob_events ob1 = take k (ob_events ob1) @ ob_events ob2 \<and>
          (\<forall>i < k. terminal_delivery_ack (ans i (ob_events ob1 ! i)))))"
proof -
  have one: "synced print ob1 \<and> outbox_inv uuid_ok ob1 \<and> (r = Ok () \<longrightarrow> e \<in> set (ob_events ob1)) \<and>
      set (ob_events ob) \<subseteq> set (ob_events ob1)"
    using assms(3)
  proof (cases rule: enqueue_cases)
    case (refused err)
    then show ?thesis using assms(1,2) synced_cong [of ob1 ob print] by (simp add: outbox_inv_def)
  next
    case known
    then show ?thesis using assms(1,2) by simp
  next
    case added
    then show ?thesis using assms(2) by (auto simp: synced_def outbox_inv_def)
  qed
  obtain k where k: "k \<le> length (ob_events ob1)"
      "ob_events (flush_terminal print ans 0 ob1) = drop k (ob_events ob1)"
      "\<forall>i < k. terminal_delivery_ack (ans i (ob_events ob1 ! i))"
      "synced print (flush_terminal print ans 0 ob1)"
    using flush_result [of ob1 print ans 0] one by auto
  have "outbox_inv uuid_ok (flush_terminal print ans 0 ob1)"
    using one k(2) by (auto simp: outbox_inv_def drop_map [symmetric] dest: in_set_dropD)
  with one k show ?thesis by (auto simp: Let_def intro!: exI [of _ k])
qed

text \<open>An outbox with no file yet, and a refusal of a call without a database.\<close>

definition empty_outbox :: TerminalOutbox where
  "empty_outbox = \<lparr>ob_events = [], ob_file = \<lparr>target = None, temp = None\<rparr>, ob_fault = None\<rparr>"

definition sample_terminal :: TerminalRequest where
  "sample_terminal = unverified_terminal ''call'' ''corr'' ''find'' ''DATABASE_IDENTITY_UNVERIFIED''"

theorem outbox_memory_matches_disk_witness:
  "sample_terminal \<in> set (ob_events (snd (outbox_enqueue (\<lambda>_. ''text'') (\<lambda>_. True) sample_terminal empty_outbox)))"
proof -
  have "outbox_enqueue (\<lambda>_. ''text'') (\<lambda>_. True) sample_terminal empty_outbox =
      (Ok (), snd (outbox_enqueue (\<lambda>_. ''text'') (\<lambda>_. True) sample_terminal empty_outbox))"
    by (simp add: outbox_enqueue_def valid_terminal_def sample_terminal_def unverified_terminal_def empty_outbox_def
        outbox_persist_def write_json_atomic_def MAX_TERMINAL_OUTBOX_EVENTS_def)
  moreover have "synced (\<lambda>_. ''text'') empty_outbox" "outbox_inv (\<lambda>_. True) empty_outbox"
    by (simp_all add: synced_def outbox_inv_def empty_outbox_def)
  ultimately show ?thesis using outbox_memory_matches_disk by blast
qed

section \<open>Fail closed\<close>

lemma known_codes:
  "terminal_fallback_code k \<in> set verified_codes" "''MASKING_FAILED'' \<in> set verified_codes"
  by (simp_all add: terminal_fallback_code_def verified_codes_def)

lemma refuse_cases:
  "fst (refuse_recorded env c code failure g) = with_correlation ''HISTORY_UNAVAILABLE'' UNAVAILABLE (mc_correlation_id c) \<or>
   (\<exists>ob ob1. mg_outbox g = Some ob \<and>
      outbox_enqueue (ge_print env) (ge_uuid env) (verified_terminal c code) ob = (Ok (), ob1) \<and>
      snd (refuse_recorded env c code failure g) =
        g\<lparr>mg_outbox := Some (flush_terminal (ge_print env) (ge_terminal env) 0 ob1)\<rparr>)"
  by (auto simp: refuse_recorded_def record_terminal_def split: option.splits prod.splits sum.splits)

lemma preflight_cases:
  assumes "preflight env c args g = (res, g')"
  shows "(\<exists>a p. res = Ok (c, a) \<and> g' = g \<and>
      ge_preflight env \<lparr>pq_schema_version = 1, pq_context = c, pq_arguments = args\<rparr> = Ok p \<and>
      pr_schema_version p = 1 \<and> pr_decision p = ''allow'' \<and> pr_arguments p = a) \<or>
    (\<exists>code failure. code \<in> set verified_codes \<and> res = Err (fst (refuse_recorded env c code failure g)) \<and>
       g' = snd (refuse_recorded env c code failure g))"
proof (cases "ge_preflight env \<lparr>pq_schema_version = 1, pq_context = c, pq_arguments = args\<rparr>")
  case (Inl err)
  with assms have "res = Err (fst (refuse_recorded env c (terminal_fallback_code (mf_code (map_client_error err (mc_correlation_id c))))
      (map_client_error err (mc_correlation_id c)) g)) \<and> g' = snd (refuse_recorded env c
      (terminal_fallback_code (mf_code (map_client_error err (mc_correlation_id c)))) (map_client_error err (mc_correlation_id c)) g)"
    by (auto simp: preflight_def Let_def split_beta)
  with known_codes show ?thesis by blast
next
  case (Inr p)
  show ?thesis
  proof (cases "pr_schema_version p = 1 \<and> pr_decision p = ''allow''")
    case True
    with assms Inr show ?thesis by (auto simp: preflight_def)
  next
    case False
    with assms Inr have "res = Err (fst (refuse_recorded env c ''MASKING_FAILED''
        (with_correlation ''MASKING_FAILED'' UNAVAILABLE (mc_correlation_id c)) g)) \<and>
      g' = snd (refuse_recorded env c ''MASKING_FAILED''
        (with_correlation ''MASKING_FAILED'' UNAVAILABLE (mc_correlation_id c)) g)"
      by (auto simp: preflight_def split_beta split: if_splits)
    with known_codes show ?thesis by blast
  qed
qed

lemma finalize_cases:
  assumes "finalize env c outcome sources g = (fin, g2)"
  shows "(\<exists>p. fin = Ok (fr_public_result p) \<and>
      ge_finalize env \<lparr>fq_schema_version = 1, fq_context = c, fq_outcome = outcome, fq_field_sources = sources\<rparr> = Ok p \<and>
      fr_schema_version p = 1) \<or>
    (\<exists>code failure. code \<in> set verified_codes \<and> fin = Err (fst (refuse_recorded env c code failure g)) \<and>
       g2 = snd (refuse_recorded env c code failure g))"
proof (cases "ge_finalize env \<lparr>fq_schema_version = 1, fq_context = c, fq_outcome = outcome, fq_field_sources = sources\<rparr>")
  case (Inl err)
  with assms have "fin = Err (fst (refuse_recorded env c (terminal_fallback_code (mf_code (map_client_error err (mc_correlation_id c))))
      (map_client_error err (mc_correlation_id c)) g)) \<and> g2 = snd (refuse_recorded env c
      (terminal_fallback_code (mf_code (map_client_error err (mc_correlation_id c)))) (map_client_error err (mc_correlation_id c)) g)"
    by (auto simp: finalize_def Let_def split_beta)
  with known_codes show ?thesis by blast
next
  case (Inr p)
  show ?thesis
  proof (cases "fr_schema_version p = 1")
    case True
    with assms Inr show ?thesis by (auto simp: finalize_def)
  next
    case False
    with assms Inr have "fin = Err (fst (refuse_recorded env c ''MASKING_FAILED''
        (with_correlation ''MASKING_FAILED'' UNAVAILABLE (mc_correlation_id c)) g)) \<and>
      g2 = snd (refuse_recorded env c ''MASKING_FAILED''
        (with_correlation ''MASKING_FAILED'' UNAVAILABLE (mc_correlation_id c)) g)"
      by (auto simp: finalize_def split_beta)
    with known_codes show ?thesis by blast
  qed
qed

text \<open>
  C24: the gate fails closed. A call passes the preflight only if the service
  answered with the expected version and the decision \<open>allow\<close>, and then it goes on
  with the service's arguments; a result leaves \<open>finalize\<close> only as the public
  result of the service. In every other case the caller gets a failure, and this failure is
  handed out only after the terminal event of the call is in the outbox and on disk;
  if that is impossible it is \<open>HISTORY_UNAVAILABLE\<close>.
\<close>

theorem gate_fails_closed:
  assumes "preflight env c args g = (res, g')" "finalize env c outcome sources g = (fin, g2)"
  shows "(\<forall>c' a. res = Ok (c', a) \<longrightarrow> c' = c \<and> g' = g \<and>
      (\<exists>p. ge_preflight env \<lparr>pq_schema_version = 1, pq_context = c, pq_arguments = args\<rparr> = Ok p \<and>
         pr_schema_version p = 1 \<and> pr_decision p = ''allow'' \<and> pr_arguments p = a)) \<and>
    (\<forall>v. fin = Ok v \<longrightarrow> (\<exists>p. ge_finalize env \<lparr>fq_schema_version = 1, fq_context = c, fq_outcome = outcome,
         fq_field_sources = sources\<rparr> = Ok p \<and> fr_schema_version p = 1 \<and> fr_public_result p = v)) \<and>
    (\<forall>f h. (res = Err f \<and> h = g' \<or> fin = Err f \<and> h = g2) \<longrightarrow>
      f = with_correlation ''HISTORY_UNAVAILABLE'' UNAVAILABLE (mc_correlation_id c) \<or>
      (\<exists>ob ob1 code. mg_outbox g = Some ob \<and> code \<in> set verified_codes \<and>
         outbox_enqueue (ge_print env) (ge_uuid env) (verified_terminal c code) ob = (Ok (), ob1) \<and>
         h = g\<lparr>mg_outbox := Some (flush_terminal (ge_print env) (ge_terminal env) 0 ob1)\<rparr>))"
proof -
  have bad: "f = with_correlation ''HISTORY_UNAVAILABLE'' UNAVAILABLE (mc_correlation_id c) \<or>
      (\<exists>ob ob1 code. mg_outbox g = Some ob \<and> code \<in> set verified_codes \<and>
         outbox_enqueue (ge_print env) (ge_uuid env) (verified_terminal c code) ob = (Ok (), ob1) \<and>
         h = g\<lparr>mg_outbox := Some (flush_terminal (ge_print env) (ge_terminal env) 0 ob1)\<rparr>)"
    if "code \<in> set verified_codes" "f = fst (refuse_recorded env c code failure g)"
      "h = snd (refuse_recorded env c code failure g)" for f h code failure
    using refuse_cases [of env c code failure g] that by blast
  show ?thesis using preflight_cases [OF assms(1)] finalize_cases [OF assms(2)] bad by blast
qed

definition allow_env :: gate_env where
  "allow_env = \<lparr>ge_print = (\<lambda>_. ''text''), ge_uuid = (\<lambda>_. True),
     ge_terminal = (\<lambda>_ _. Err Cl_Transport),
     ge_preflight = (\<lambda>q. Ok \<lparr>pr_schema_version = 1, pr_decision = ''allow'', pr_arguments = pq_arguments q\<rparr>),
     ge_finalize = (\<lambda>_. Err Cl_Timeout)\<rparr>"

definition sample_context :: MaskingCallContext where
  "sample_context = \<lparr>mc_call_id = ''call'', mc_correlation_id = ''corr'',
     mc_database = \<lparr>di_instance_id = ''gen:srv/ib'', di_cluster_server = ''srv'', di_infobase_name = ''ib''\<rparr>,
     mc_caller = None, mc_tool_name = ''find''\<rparr>"

definition sample_gate :: MaskingGate where
  "sample_gate = \<lparr>mg_enabled = True, mg_internal_tools = [''secret''], mg_ras = None, mg_outbox = Some empty_outbox\<rparr>"

theorem gate_fails_closed_witness:
  "\<exists>p. ge_preflight allow_env \<lparr>pq_schema_version = 1, pq_context = sample_context, pq_arguments = JNull\<rparr> = Ok p \<and>
     pr_decision p = ''allow''"
proof -
  have "preflight allow_env sample_context JNull sample_gate = (Ok (sample_context, JNull), sample_gate)"
    by (simp add: preflight_def allow_env_def)
  from gate_fails_closed [OF this prod.collapse [symmetric]] show ?thesis by blast
qed

section \<open>Terminal events of real calls are valid\<close>

text \<open>Splitting into characters: a leading byte and its continuation bytes.\<close>

definition char_chunk :: "string \<Rightarrow> bool" where
  "char_chunk ch \<longleftrightarrow> ch \<noteq> [] \<and> \<not> cont_byte (hd ch) \<and> (\<forall>b \<in> set (tl ch). cont_byte b)"

lemma takeWhile_concat_chunks:
  assumes "\<forall>b \<in> set bs. cont_byte b" "\<forall>ch \<in> set cs. char_chunk ch"
  shows "takeWhile cont_byte (bs @ concat cs) = bs" "dropWhile cont_byte (bs @ concat cs) = concat cs"
proof -
  have "takeWhile cont_byte (concat cs) = [] \<and> dropWhile cont_byte (concat cs) = concat cs"
  proof (cases cs)
    case (Cons ch rest)
    then obtain b bs where "ch = b # bs" "\<not> cont_byte b" using assms(2) by (cases ch) (auto simp: char_chunk_def)
    then show ?thesis by (simp add: Cons)
  qed simp
  with assms(1) show "takeWhile cont_byte (bs @ concat cs) = bs" "dropWhile cont_byte (bs @ concat cs) = concat cs"
    by (simp_all add: takeWhile_append2 dropWhile_append2)
qed

lemma utf8_chars_concat:
  assumes "cs = [] \<or> (hd cs \<noteq> [] \<and> (\<forall>b \<in> set (tl (hd cs)). cont_byte b) \<and> (\<forall>ch \<in> set (tl cs). char_chunk ch))"
  shows "utf8_chars (concat cs) = cs"
  using assms
proof (induction cs)
  case (Cons c cs)
  then obtain b bs where c: "c = b # bs" "\<forall>b \<in> set bs. cont_byte b" and cs: "\<forall>ch \<in> set cs. char_chunk ch"
    by (cases c) auto
  have "utf8_chars (concat cs) = cs"
    using Cons.IH cs by (cases cs) (auto simp: char_chunk_def)
  then show ?case using takeWhile_concat_chunks [OF c(2) cs] by (simp add: c(1))
qed simp

lemma utf8_chunks:
  "utf8_chars s = [] \<or> (hd (utf8_chars s) \<noteq> [] \<and> (\<forall>b \<in> set (tl (hd (utf8_chars s))). cont_byte b) \<and>
     (\<forall>ch \<in> set (tl (utf8_chars s)). char_chunk ch))"
proof (induction s rule: utf8_chars.induct)
  case (2 c cs)
  have "char_chunk (hd (utf8_chars (dropWhile cont_byte cs)))" if "utf8_chars (dropWhile cont_byte cs) \<noteq> []"
  proof (cases "dropWhile cont_byte cs")
    case Nil
    with that show ?thesis by simp
  next
    case (Cons d ds)
    then have "\<not> cont_byte d" by (metis hd_dropWhile list.sel(1) list.simps(3))
    then show ?thesis by (auto simp: Cons char_chunk_def dest: set_takeWhileD)
  qed
  with 2 show ?case
    by (cases "utf8_chars (dropWhile cont_byte cs)") (auto dest: set_takeWhileD)
qed simp

lemma question_mark: "char_chunk ''?''" "\<not> is_control ''?''"
  by (simp_all add: char_chunk_def cont_byte_def is_control_def)

lemma label_valid: "valid_caller (caller_label c)"
proof (cases "caller_label c")
  case (Some l)
  then obtain s where l: "l = concat (take MAX_CALLER_LABEL_CHARS
      (map (\<lambda>ch. if is_control ch then ''?'' else ch) (utf8_chars s)))"
    by (auto simp: caller_label_def split: if_splits)
  let ?cs = "take MAX_CALLER_LABEL_CHARS (map (\<lambda>ch. if is_control ch then ''?'' else ch) (utf8_chars s))"
  have "?cs = [] \<or> (hd ?cs \<noteq> [] \<and> (\<forall>b \<in> set (tl (hd ?cs)). cont_byte b) \<and> (\<forall>ch \<in> set (tl ?cs). char_chunk ch))"
  proof (cases "utf8_chars s")
    case (Cons x xs)
    have n: "MAX_CALLER_LABEL_CHARS = Suc 255" by (simp add: MAX_CALLER_LABEL_CHARS_def)
    show ?thesis
      using utf8_chunks [of s] question_mark by (auto simp: Cons n dest!: in_set_takeD)
  qed simp
  then have "utf8_chars l = ?cs" unfolding l by (rule utf8_chars_concat)
  then show ?thesis
    using Some question_mark(2) by (auto simp: valid_caller_def dest!: in_set_takeD split: if_splits)
qed (simp add: valid_caller_def)

text \<open>
  The terminal event of a refused call is always accepted by the outbox's
  check, whatever name the client gave itself and whatever code the service returned, provided the
  session has coordinates of at most 512 bytes, the tool's name has at most 128 bytes, and
  the ids are UUIDs.
\<close>

theorem refusal_events_are_valid:
  assumes "uuid_ok call" "uuid_ok corr" "tool \<noteq> []" "length tool \<le> 128"
    "di_cluster_server d \<noteq> []" "length (di_cluster_server d) \<le> 512"
    "di_infobase_name d \<noteq> []" "length (di_infobase_name d) \<le> 512"
  shows "valid_terminal uuid_ok (verified_terminal (call_context d caller tool call corr) (terminal_fallback_code code))"
  using assms label_valid [of caller] known_codes(1) [of code]
  by (simp add: valid_terminal_def verified_terminal_def call_context_def)

theorem refusal_events_are_valid_witness:
  "valid_terminal (\<lambda>_. True) (verified_terminal (call_context (mc_database sample_context)
     \<lparr>ci_mcp_session_id = Some ''0123456789'', ci_client_name = Some ''agent'', ci_client_version = None\<rparr>
     ''find'' ''call'' ''corr'') (terminal_fallback_code ''SOMETHING_NEW''))"
  by (rule refusal_events_are_valid) (simp_all add: sample_context_def)

end
