(* ===== verification/Transport.thy ===== *)
theory Transport
  imports Lifecycle Masking_Gate
begin

text \<open>
  The WebSocket transport (\<open>src/session_manager/transport.rs\<close>): the
  handling of frames of one connection, the keep-alive of its writer, the end of a
  connection, and the sweeper of the grace period. All connections share the registry and the
  masking gate; a connection is a number into the registry's store, and its identity
  (\<open>ConnectionContext\<close>) is kept per number.
\<close>

section \<open>State\<close>

record ConnectionIdentity =
  id_session_id :: string
  id_generation :: u64

record TransportConfig =
  tf_heartbeat_interval_ms :: u64
  tf_idle_timeout_secs :: u64
  tf_ws_ping_interval_ms :: u64
  tf_ws_ping_timeout_ms :: u64
  tf_reconnection_grace_secs :: u64

record AppState =
  as_registry :: SessionRegistry
  as_gate :: "MaskingGate option"
  as_peers :: "nat \<Rightarrow> ConnectionIdentity option"

text \<open>
  What one frame takes from outside: configuration, version, the clock, the formats,
  the cluster tool, and the error texts of the deserializer.
\<close>

record transport_env =
  te_config :: TransportConfig
  te_server_version :: string
  te_now :: instant
  te_cache :: cache_env
  te_ras :: ras_env
  te_ras_slow :: bool
  te_ras_after :: instant
  te_decode_error :: "json \<Rightarrow> string"
  te_parse :: "string \<Rightarrow> json option"
  te_json_error :: "string \<Rightarrow> string"

section \<open>Requests\<close>

text \<open>The sender \<open>tx\<close> outlives the drained handle; a send fails when the writer is gone.\<close>

definition tx_send :: "nat \<Rightarrow> WireMessage \<Rightarrow> AppState \<Rightarrow> AppState" where
  "tx_send c m s =
     (let r = as_registry s; h = reg_conns r c in
      if receiver_open h then s\<lparr>as_registry := r\<lparr>reg_conns := (reg_conns r)(c := h\<lparr>sent := sent h @ [m]\<rparr>)\<rparr>\<rparr> else s)"

definition send_error :: "nat \<Rightarrow> Id \<Rightarrow> i64 \<Rightarrow> string \<Rightarrow> AppState \<Rightarrow> AppState" where
  "send_error c i code msg = tx_send c (Response i (Err (JsonRpcError_new code msg)))"

text \<open>The key of the database, computed by the manager during registration.\<close>

definition resolve_identity :: "transport_env \<Rightarrow> SessionRegisterParams \<Rightarrow> MaskingGate option \<Rightarrow> string option \<times> MaskingGate option" where
  "resolve_identity env p gate = (case (gate, rp_cluster_server p) of
     (Some g, Some srv) \<Rightarrow>
       if str_trim srv = [] then (rp_database_key p, gate)
       else (case mg_ras g of
               Some rs \<Rightarrow>
                 (let (res, rs') = resolve (te_ras env) (te_ras_slow env) (te_now env) (te_ras_after env) srv (rp_infobase_name p) rs
                  in (Some (database_key srv (rp_infobase_name p) res), Some (g\<lparr>mg_ras := Some rs'\<rparr>)))
             | None \<Rightarrow> (Some (database_key srv (rp_infobase_name p) None), gate))
   | _ \<Rightarrow> (rp_database_key p, gate))"

definition gate_tools :: "MaskingGate option \<Rightarrow> ToolDescriptor list \<Rightarrow> ToolDescriptor list" where
  "gate_tools gate ts = (case gate of Some g \<Rightarrow> normalize_tools g ts | None \<Rightarrow> ts)"

definition handle_register :: "transport_env \<Rightarrow> nat \<Rightarrow> Id \<Rightarrow> json \<Rightarrow> AppState \<Rightarrow> AppState" where
  "handle_register env c i params s =
     (if as_peers s c \<noteq> None
      then send_error c i INVALID_REQUEST ''session already registered on this connection'' s
      else (case decode_register params of
         None \<Rightarrow> send_error c i INVALID_PARAMS (te_decode_error env params) s
       | Some p0 \<Rightarrow>
           (let p1 = p0\<lparr>rp_tools := gate_tools (as_gate s) (rp_tools p0)\<rparr>;
                (key, gate') = resolve_identity env p1 (as_gate s);
                p = p1\<lparr>rp_database_key := key\<rparr>;
                (out, r') = register_with_generation (te_cache env) p (te_now env) (Some c) (as_registry s);
                s1 = s\<lparr>as_registry := r', as_gate := gate'\<rparr>
            in case out of
                 Inr (oc, gen) \<Rightarrow>
                   tx_send c (Response i (Ok (encode_register_result \<lparr>rr_session_id = rp_client_uid p,
                        rr_server_version = te_server_version env,
                        rr_heartbeat_interval_ms = tf_heartbeat_interval_ms (te_config env),
                        rr_idle_timeout_secs = tf_idle_timeout_secs (te_config env),
                        rr_reconnected = (oc = Reconnected)\<rparr>)))
                     (s1\<lparr>as_peers := (as_peers s)(c := Some \<lparr>id_session_id = rp_client_uid p, id_generation = gen\<rparr>)\<rparr>)
               | Inl (UidCollision uid) \<Rightarrow>
                   send_error c i SESSION_UID_COLLISION
                     (''client_uid '' @ [quote] @ uid @ [quote] @ '' is already active'') s1)))"

definition handle_bye :: "nat \<Rightarrow> Id \<Rightarrow> AppState \<Rightarrow> AppState" where
  "handle_bye c i s =
     (let s1 = (case as_peers s c of
            Some ident \<Rightarrow> s\<lparr>as_registry := snd (remove_if_generation (id_session_id ident) (id_generation ident) (as_registry s))\<rparr>
          | None \<Rightarrow> s);
          s2 = tx_send c (Response i (Ok encode_empty_result)) s1
      in s2\<lparr>as_peers := (as_peers s2)(c := None)\<rparr>)"

datatype loop_result = Loop_Ok | Loop_Ws string | Loop_Bye

definition handle_request ::
  "transport_env \<Rightarrow> nat \<Rightarrow> Id \<Rightarrow> string \<Rightarrow> json \<Rightarrow> AppState \<Rightarrow> loop_result option \<times> AppState" where
  "handle_request env c i meth params s =
     (if meth = SESSION_REGISTER then (None, handle_register env c i params s)
      else if meth = SESSION_BYE then (Some Loop_Bye, handle_bye c i s)
      else (None, send_error c i METHOD_NOT_FOUND
              (''method '' @ [quote] @ meth @ [quote] @ '' is not supported'') s))"

section \<open>Notifications, responses and frames\<close>

definition handle_notification :: "transport_env \<Rightarrow> nat \<Rightarrow> string \<Rightarrow> json \<Rightarrow> AppState \<Rightarrow> AppState" where
  "handle_notification env c meth params s =
     (if meth = SESSION_TOOLS_CHANGED then
        (case as_peers s c of
           None \<Rightarrow> s
         | Some ident \<Rightarrow>
             (case decode_tools_changed params of
                None \<Rightarrow> s
              | Some p \<Rightarrow> s\<lparr>as_registry := snd (update_tools (te_cache env) (id_session_id ident)
                  (gate_tools (as_gate s) (tc_tools p)) (as_registry s))\<rparr>))
      else s)"

definition handle_response :: "nat \<Rightarrow> Id \<Rightarrow> (JsonRpcError, json) res \<Rightarrow> AppState \<Rightarrow> AppState" where
  "handle_response c i res s =
     (let r = as_registry s in
      s\<lparr>as_registry := r\<lparr>reg_conns := (reg_conns r)(c := snd (complete_response i res (reg_conns r c)))\<rparr>\<rparr>)"

fun transport_dispatch :: "transport_env \<Rightarrow> nat \<Rightarrow> WireMessage \<Rightarrow> AppState \<Rightarrow> loop_result option \<times> AppState" where
  "transport_dispatch env c (Request i meth params) s = handle_request env c i meth params s"
| "transport_dispatch env c (Notification meth params) s = (None, handle_notification env c meth params s)"
| "transport_dispatch env c (Response i res) s = (None, handle_response c i res s)"

datatype ws_message = Ws_Text string | Ws_Binary | Ws_Ping | Ws_Pong | Ws_Close

datatype ws_frame = Fr_Cancelled | Fr_Message ws_message | Fr_Error string | Fr_End

fun show_parse_error :: "string \<Rightarrow> WireParseError \<Rightarrow> string" where
  "show_parse_error e Json_Error = ''invalid JSON: '' @ e"
| "show_parse_error e JsonRpcVersion =
     ''missing or invalid '' @ [quote] @ ''jsonrpc'' @ [quote] @ '' field; expected '' @ [CHR 0x22] @ ''2.0'' @ [CHR 0x22]"
| "show_parse_error e Shape = ''message is neither request, response, nor notification''"
| "show_parse_error e AmbiguousResponse =
     ''response carries both '' @ [quote] @ ''result'' @ [quote] @ '' and '' @ [quote] @ ''error'' @ [quote]"

text \<open>One turn of the reader's loop; \<open>Some\<close> result ends it.\<close>

definition reader_step :: "transport_env \<Rightarrow> nat \<Rightarrow> ws_frame \<Rightarrow> AppState \<Rightarrow> loop_result option \<times> AppState" where
  "reader_step env c f s = (case f of
     Fr_Cancelled \<Rightarrow> (Some (Loop_Ws ''ws keep-alive timeout''), s)
   | Fr_Error e \<Rightarrow> (Some (Loop_Ws e), s)
   | Fr_End \<Rightarrow> (Some Loop_Ok, s)
   | Fr_Message m \<Rightarrow>
       (case m of
          Ws_Text t \<Rightarrow>
            (case wire_parse (te_parse env) t of
               Inr w \<Rightarrow> transport_dispatch env c w s
             | Inl e \<Rightarrow> (None, send_error c Id_Null PARSE_ERROR
                          (''parse error: '' @ show_parse_error (te_json_error env t) e) s))
        | Ws_Close \<Rightarrow> (Some Loop_Ok, s)
        | _ \<Rightarrow> (None, s)))"

section \<open>Keep-alive and the end of a connection\<close>

datatype writer_action = Wr_Ping | Wr_Close

text \<open>A tick of the writer's ping timer; \<open>seen\<close> is when the last frame came in.\<close>

definition writer_tick :: "TransportConfig \<Rightarrow> instant \<Rightarrow> instant \<Rightarrow> writer_action" where
  "writer_tick cfg seen now =
     (if tf_ws_ping_timeout_ms cfg \<noteq> 0 \<and> unat (tf_ws_ping_timeout_ms cfg) < now - seen then Wr_Close else Wr_Ping)"

text \<open>
  After the loop the connection is drained and the writer ends; then
  \<open>handle_socket\<close> marks the session, if it still belongs to this connection.
\<close>

definition close_connection :: "instant \<Rightarrow> nat \<Rightarrow> AppState \<Rightarrow> AppState" where
  "close_connection now c s =
     (let r = as_registry s;
          r1 = r\<lparr>reg_conns := (reg_conns r)(c := (drain_pending (reg_conns r c))\<lparr>receiver_open := False\<rparr>)\<rparr>;
          r2 = (case as_peers s c of
             Some ident \<Rightarrow> snd (mark_disconnected_if_generation (id_session_id ident) (id_generation ident) now r1)
           | None \<Rightarrow> r1)
      in s\<lparr>as_registry := r2\<rparr>)"

definition open_connection :: "nat \<Rightarrow> AppState \<Rightarrow> AppState" where
  "open_connection c s = s\<lparr>as_registry := (as_registry s)\<lparr>reg_conns := (reg_conns (as_registry s))(c := conn_new)\<rparr>,
     as_peers := (as_peers s)(c := None)\<rparr>"

definition clamp :: "nat \<Rightarrow> nat \<Rightarrow> nat \<Rightarrow> nat" where
  "clamp lo hi n = (if n < lo then lo else if hi < n then hi else n)"

definition sweep_interval_secs :: "TransportConfig \<Rightarrow> nat" where
  "sweep_interval_secs cfg = clamp 1 30 (unat (tf_reconnection_grace_secs cfg))"

definition grace_sweep :: "TransportConfig \<Rightarrow> instant \<Rightarrow> AppState \<Rightarrow> AppState" where
  "grace_sweep cfg now s = s\<lparr>as_registry :=
     snd (sweep_expired_disconnects now (unat (tf_reconnection_grace_secs cfg) * 1000) (as_registry s))\<rparr>"

definition MAX_LOGGED_ID_LENGTH :: nat where "MAX_LOGGED_ID_LENGTH = 1024"

fun unknown_response_id_summary :: "Id \<Rightarrow> string \<times> nat" where
  "unknown_response_id_summary (Id_String v) = (''string'', min (length v) MAX_LOGGED_ID_LENGTH)"
| "unknown_response_id_summary (Id_Number n) = (''number'', min (length (show_int (sint n))) MAX_LOGGED_ID_LENGTH)"
| "unknown_response_id_summary Id_Null = (''null'', min 4 MAX_LOGGED_ID_LENGTH)"

section \<open>Answers\<close>

lemma register_conns [simp]: "reg_conns (snd (register_with_generation env p now cn r)) = reg_conns r"
  by (auto simp: register_with_generation_def admit_session_def next_generation_def new_dispatcher_def
      Let_def split: option.splits SessionState.splits)

lemma remove_conns [simp]: "reg_conns (snd (remove_if_generation sid g r)) = reg_conns r"
  by (simp add: remove_if_generation_def remove_when_def split: option.split)

lemma tx_send_fields [simp]:
  "as_peers (tx_send c m s) = as_peers s" "as_gate (tx_send c m s) = as_gate s"
  "reg_inner (as_registry (tx_send c m s)) = reg_inner (as_registry s)"
  "last_generation (as_registry (tx_send c m s)) = last_generation (as_registry s)"
  "next_disp (as_registry (tx_send c m s)) = next_disp (as_registry s)"
  "reg_disps (as_registry (tx_send c m s)) = reg_disps (as_registry s)"
  "reg_cache (as_registry (tx_send c m s)) = reg_cache (as_registry s)"
  by (simp_all add: tx_send_def Let_def)

definition sent_on :: "AppState \<Rightarrow> nat \<Rightarrow> WireMessage list" where
  "sent_on s c = sent (reg_conns (as_registry s) c)"

lemma tx_send_sent:
  "sent_on (tx_send c m s) d =
     (if d = c \<and> receiver_open (reg_conns (as_registry s) c) then sent_on s c @ [m] else sent_on s d)"
  by (simp add: tx_send_def sent_on_def Let_def)

text \<open>
  C32: every request of a client is answered exactly once, under its own id,
  on its own connection, as long as the writer lives; no other connection receives
  anything. Only \<open>session.bye\<close> ends the loop.
\<close>

theorem every_request_is_answered:
  assumes "receiver_open (reg_conns (as_registry s) c)" "handle_request env c i meth params s = (res, s')"
  shows "(\<exists>a. sent_on s' c = sent_on s c @ [Response i a]) \<and> (\<forall>d. d \<noteq> c \<longrightarrow> sent_on s' d = sent_on s d) \<and>
    (res = (if meth = SESSION_BYE then Some Loop_Bye else None))"
proof (cases "meth = SESSION_REGISTER")
  case True
  have "(\<exists>a. sent_on (handle_register env c i params s) c = sent_on s c @ [Response i a]) \<and>
      (\<forall>d. d \<noteq> c \<longrightarrow> sent_on (handle_register env c i params s) d = sent_on s d)"
    using assms(1)
    by (auto simp: handle_register_def send_error_def tx_send_sent Let_def split_beta
        split: option.splits sum.splits RegisterError.splits)
       (auto simp: sent_on_def)
  with True assms(2) show ?thesis by (auto simp: handle_request_def)
next
  case False
  have "(\<exists>a. sent_on (handle_bye c i s) c = sent_on s c @ [Response i a]) \<and>
      (\<forall>d. d \<noteq> c \<longrightarrow> sent_on (handle_bye c i s) d = sent_on s d)"
    using assms(1)
    by (auto simp: handle_bye_def Let_def tx_send_def sent_on_def split: option.split)
  with False assms show ?thesis
    by (auto simp: handle_request_def send_error_def tx_send_sent split: if_splits)
qed

definition sample_app :: AppState where
  "sample_app = \<lparr>as_registry = registry_new, as_gate = Some sample_gate, as_peers = (\<lambda>_. None)\<rparr>"

definition sample_tenv :: transport_env where
  "sample_tenv = \<lparr>te_config = \<lparr>tf_heartbeat_interval_ms = 5000, tf_idle_timeout_secs = 0, tf_ws_ping_interval_ms = 1000,
       tf_ws_ping_timeout_ms = 3000, tf_reconnection_grace_secs = 60\<rparr>, te_server_version = ''1'', te_now = 0,
     te_cache = sample_env, te_ras = silent_ras, te_ras_slow = False, te_ras_after = 0,
     te_decode_error = (\<lambda>_. ''bad''), te_parse = (\<lambda>_. None), te_json_error = (\<lambda>_. ''bad'')\<rparr>"

text \<open>The message with which the sample client registers.\<close>

definition demo_register :: json where
  "demo_register = jobj [(''client_uid'', JString ''s1''), (''kind'', JString ''va''), (''version'', JString ''1''),
     (''infobase_name'', JString ''ib''), (''ib_session_number'', enc_u32 7), (''tools'', JArray [encode_tool (sample_tool ''find'')])]"

theorem every_request_is_answered_witness:
  "\<exists>a. sent_on (snd (handle_request sample_tenv 3 (Id_Number 7) ''ping'' JNull sample_app)) 3 =
     sent_on sample_app 3 @ [Response (Id_Number 7) a]"
  by (rule every_request_is_answered [OF _ prod.collapse [symmetric], THEN conjunct1])
     (simp add: sample_app_def registry_new_def conn_new_def)

section \<open>Registration\<close>

lemma resolve_identity_key:
  assumes "decode_register params = Some p0"
  shows "fst (resolve_identity env (p0\<lparr>rp_tools := ts\<rparr>) gate) =
    (case (gate, rp_cluster_server p0) of
       (Some g, Some srv) \<Rightarrow> if str_trim srv = [] then None
          else Some (database_key srv (rp_infobase_name p0) (case mg_ras g of
             None \<Rightarrow> None
           | Some rs \<Rightarrow> fst (resolve (te_ras env) (te_ras_slow env) (te_now env) (te_ras_after env) srv (rp_infobase_name p0) rs)))
     | _ \<Rightarrow> None)"
  using decode_register_checked(1) [OF assms]
  by (auto simp: resolve_identity_def Let_def split_beta split: option.splits)

lemma register_success:
  assumes inv: "reg_inv (as_registry s)" and call: "handle_register env c i params s = s'"
    and none: "as_peers s c = None" and some: "as_peers s' c \<noteq> None"
  shows "\<exists>p rec g. decode_register params = Some p \<and>
    map_of (reg_inner (as_registry s')) (rp_client_uid p) = Some rec \<and> sr_state rec = Active \<and>
    as_peers s' c = Some \<lparr>id_session_id = rp_client_uid p, id_generation = sr_generation rec\<rparr> \<and>
    sr_connection rec = Some c \<and> sr_database_key rec = g \<and>
    (as_gate s = None \<or> rp_cluster_server p = None \<longrightarrow> g = None) \<and>
    (g \<noteq> None \<longrightarrow> (\<exists>srv res. rp_cluster_server p = Some srv \<and> g = Some (database_key srv (rp_infobase_name p) res))) \<and>
    sr_tools rec = gate_tools (as_gate s) (rp_tools p)"
proof (cases "decode_register params")
  case None
  with none some call show ?thesis by (auto simp: handle_register_def send_error_def)
next
  case (Some p0)
  define p1 where "p1 = p0\<lparr>rp_tools := gate_tools (as_gate s) (rp_tools p0)\<rparr>"
  define key where "key = fst (resolve_identity env p1 (as_gate s))"
  define p where "p = p1\<lparr>rp_database_key := key\<rparr>"
  obtain out r' where reg: "register_with_generation (te_cache env) p (te_now env) (Some c) (as_registry s) = (out, r')"
    by (metis surj_pair)
  show ?thesis
  proof (cases out)
    case (Inl e)
    with none some call Some reg show ?thesis
      by (cases e) (auto simp: handle_register_def send_error_def Let_def split_beta p1_def [symmetric] key_def [symmetric] p_def [symmetric])
  next
    case (Inr x)
    obtain oc g where x: "x = (oc, g)" by (cases x)
    note facts = register_admitted [OF register_ok_admitted [OF reg [unfolded Inr x]] reg]
      and rec = admitted_record_fields [OF inv, of p "te_now env" "Some c"]
    have "sr_database_key (admitted_record p (te_now env) (Some c) (as_registry s)) = key"
      by (simp add: admitted_record_def new_record_def reconnect_record_def p_def split: option.split)
    moreover have "key = None" if "as_gate s = None \<or> rp_cluster_server p0 = None"
      using that resolve_identity_key [OF Some, of env] by (auto simp: key_def p1_def split: option.splits)
    moreover have "\<exists>srv res. rp_cluster_server p0 = Some srv \<and> key = Some (database_key srv (rp_infobase_name p0) res)" if "key \<noteq> None"
      using that resolve_identity_key [OF Some, of env]
      by (auto simp: key_def p1_def split: option.splits if_splits)
    moreover have "g = last_generation (as_registry s) + 1" using facts(1) Inr x by (simp split: if_splits)
    moreover have "map_of (reg_inner (as_registry s')) (rp_client_uid p0) = Some (admitted_record p (te_now env) (Some c) (as_registry s))"
        "as_peers s' c = Some \<lparr>id_session_id = rp_client_uid p0, id_generation = g\<rparr>"
      using none call Some reg facts(2)
      by (auto simp: handle_register_def Let_def split_beta p1_def [symmetric] key_def [symmetric] p_def [symmetric] Inr x hm_put_get)
         (simp_all add: p_def p1_def)
    ultimately show ?thesis
      using Some rec by (intro exI [of _ p0] exI [of _ "admitted_record p (te_now env) (Some c) (as_registry s)"] exI [of _ key])
        (simp add: p_def p1_def)
  qed
qed


lemma demo_decode: "decode_register demo_register = Some sample_params"
  by (simp add: decode_register_def demo_register_def sample_params_def field_req_def field_default_def
      deserialize_non_empty_string_def dec_list_def tool_roundtrip)


section \<open>The end of a connection\<close>

text \<open>
  When a connection closes, its session is no longer active, and nobody
  else's is touched. Every call that waited on the connection is released; the session that
  the connection registered is not live under that generation any more; every record
  of another generation or another id is exactly as before.
\<close>

theorem close_ends_only_own_session:
  assumes "close_connection now c s = s'"
  shows "pending (reg_conns (as_registry s') c) = [] \<and> \<not> conn_is_active (reg_conns (as_registry s') c) \<and>
    (\<forall>ident. as_peers s c = Some ident \<longrightarrow>
       phase (as_registry s') (id_session_id ident) \<noteq> Live (id_generation ident)) \<and>
    (\<forall>sid rec. map_of (reg_inner (as_registry s)) sid = Some rec \<longrightarrow>
       as_peers s c \<noteq> Some \<lparr>id_session_id = sid, id_generation = sr_generation rec\<rparr> \<longrightarrow>
       map_of (reg_inner (as_registry s')) sid = Some rec)"
proof -
  let ?r = "(as_registry s)\<lparr>reg_conns := (reg_conns (as_registry s))(c := (drain_pending (reg_conns (as_registry s) c))\<lparr>receiver_open := False\<rparr>)\<rparr>"
  have dead: "pending (reg_conns ?r c) = []" "\<not> conn_is_active (reg_conns ?r c)"
    by (simp_all add: conn_is_active_def)
  show ?thesis
  proof (cases "as_peers s c")
    case None
    then show ?thesis using dead assms by (auto simp: close_connection_def Let_def)
  next
    case (Some ident)
    let ?d = "snd (mark_disconnected_if_generation (id_session_id ident) (id_generation ident) now ?r)"
    have s': "as_registry s' = ?d" using assms Some by (auto simp: close_connection_def Let_def)
    have "pending (reg_conns ?d c) = [] \<and> \<not> conn_is_active (reg_conns ?d c)"
      using dead
      by (auto simp: mark_disconnected_if_generation_def disconnect_when_def drain_record_def conn_is_active_def
          split: option.splits)
    moreover have "phase ?d (id_session_id ident) \<noteq> Live (id_generation ident)"
      by (auto simp: phase_def rec_phase_def mark_disconnected_if_generation_def disconnect_when_def hm_put_get
          disconnect_record_def split: option.splits SessionState.splits)
    moreover have "map_of (reg_inner ?d) sid = Some rec"
      if "map_of (reg_inner (as_registry s)) sid = Some rec" "ident \<noteq> \<lparr>id_session_id = sid, id_generation = sr_generation rec\<rparr>" for sid rec
      using that
      by (cases ident) (auto simp: mark_disconnected_if_generation_def disconnect_when_def hm_put_get split: option.splits)
    ultimately show ?thesis unfolding s' using Some by simp
  qed
qed

theorem close_ends_only_own_session_witness:
  "phase (as_registry (close_connection 5 0 \<lparr>as_registry = sample_reg, as_gate = None,
     as_peers = (\<lambda>_. Some \<lparr>id_session_id = ''s1'', id_generation = 1\<rparr>)\<rparr>)) ''s1'' \<noteq> Live 1"
  using close_ends_only_own_session [OF refl, of 5 0 "\<lparr>as_registry = sample_reg, as_gate = None,
     as_peers = (\<lambda>_. Some \<lparr>id_session_id = ''s1'', id_generation = 1\<rparr>)\<rparr>"]
  by simp

text \<open>
  Tool updates are not tied to the generation of the connection. A
  \<open>session.tools_changed\<close> on a connection whose session has been registered anew
  elsewhere still replaces the tools of the new session, unlike disconnect and
  \<open>session.bye\<close>, which check the generation.
\<close>

theorem stale_connection_can_change_tools:
  assumes "as_peers s c = Some ident" "map_of (reg_inner (as_registry s)) (id_session_id ident) = Some rec"
    and "sr_generation rec \<noteq> id_generation ident" "decode_tools_changed params = Some p"
  shows "\<exists>rec'. map_of (reg_inner (as_registry (handle_notification env c SESSION_TOOLS_CHANGED params s)))
      (id_session_id ident) = Some rec' \<and>
    sr_tools rec' = gate_tools (as_gate s) (tc_tools p) \<and> sr_generation rec' \<noteq> id_generation ident"
  using assms by (auto simp: handle_notification_def update_tools_def hm_put_get)

theorem stale_connection_can_change_tools_witness:
  "\<exists>rec'. map_of (reg_inner (as_registry (handle_notification sample_tenv 9 SESSION_TOOLS_CHANGED
        (jobj [(''tools'', JArray [])])
        \<lparr>as_registry = sample_reg, as_gate = None, as_peers = (\<lambda>_. Some \<lparr>id_session_id = ''s1'', id_generation = 77\<rparr>)\<rparr>)))
      ''s1'' = Some rec' \<and> sr_tools rec' = []"
proof -
  let ?s = "\<lparr>as_registry = sample_reg, as_gate = None,
    as_peers = (\<lambda>_. Some \<lparr>id_session_id = ''s1'', id_generation = 77\<rparr>)\<rparr> :: AppState"
  have "decode_tools_changed (jobj [(''tools'', JArray [])]) = Some \<lparr>tc_tools = [], tc_resources = None, tc_prompts = None\<rparr>"
    by (simp add: decode_tools_changed_def field_req_def field_default_def dec_list_def)
  from stale_connection_can_change_tools [of ?s 9, OF _ _ _ this] show ?thesis
    by (fastforce simp: sample_reg_inner new_record_def gate_tools_def)
qed

section \<open>Keep-alive\<close>

text \<open>
  The keep-alive closes exactly the silent connections. A tick closes the
  connection if and only if a timeout is configured and no frame has arrived for longer than it;
  a zero timeout never closes.
\<close>

theorem keepalive_closes_only_silent:
  "writer_tick cfg seen now = Wr_Close \<longleftrightarrow>
     tf_ws_ping_timeout_ms cfg \<noteq> 0 \<and> seen + unat (tf_ws_ping_timeout_ms cfg) < now"
  by (auto simp: writer_tick_def)

section \<open>All connections together\<close>

datatype manager_event =
    Me_Open nat
  | Me_Frame transport_env nat ws_frame
  | Me_Close instant nat
  | Me_Sweep TransportConfig instant
  | Me_Bump string instant
  | Me_Shutdown string SessionRecord KillOutcome

fun manager_step :: "AppState \<Rightarrow> manager_event \<Rightarrow> AppState" where
  "manager_step s (Me_Open c) = open_connection c s"
| "manager_step s (Me_Frame env c f) = snd (reader_step env c f s)"
| "manager_step s (Me_Close now c) = close_connection now c s"
| "manager_step s (Me_Sweep cfg now) = grace_sweep cfg now s"
| "manager_step s (Me_Bump sid now) = s\<lparr>as_registry := snd (bump_last_call sid now (as_registry s))\<rparr>"
| "manager_step s (Me_Shutdown sid rec out) =
     s\<lparr>as_registry := snd (shutdown_finish sid (Sd_Finish rec out) (as_registry s))\<rparr>"

definition manager_run :: "AppState \<Rightarrow> manager_event list \<Rightarrow> AppState" where
  "manager_run s es = foldl manager_step s es"

text \<open>Tools with a reserved name are internal in every record.\<close>

definition tools_gated :: "string list \<Rightarrow> ToolDescriptor list \<Rightarrow> bool" where
  "tools_gated names ts \<longleftrightarrow> (\<forall>t \<in> set ts. td_name t \<in> set names \<longrightarrow> td_visibility t = Internal)"

definition gate_names :: "AppState \<Rightarrow> string list" where
  "gate_names s = (case as_gate s of None \<Rightarrow> [] | Some g \<Rightarrow> mg_internal_tools g)"

definition gated :: "AppState \<Rightarrow> bool" where
  "gated s \<longleftrightarrow> (\<forall>sid rec. map_of (reg_inner (as_registry s)) sid = Some rec \<longrightarrow> tools_gated (gate_names s) (sr_tools rec))"

lemma gate_tools_gated: "tools_gated (gate_names s) (gate_tools (as_gate s) ts)"
  by (auto simp: tools_gated_def gate_names_def gate_tools_def normalize_tools_def split: option.splits)

lemma resolve_identity_names:
  "snd (resolve_identity env p gate) = gate \<or>
   (\<exists>g rs. gate = Some g \<and> snd (resolve_identity env p gate) = Some (g\<lparr>mg_ras := rs\<rparr>))"
  by (auto simp: resolve_identity_def Let_def split_beta split: option.splits)

lemma gate_names_upd [simp]:
  "gate_names (s\<lparr>as_registry := r\<rparr>) = gate_names s" "gate_names (s\<lparr>as_peers := ps\<rparr>) = gate_names s"
  "gate_names (tx_send c m s) = gate_names s"
  by (simp_all add: gate_names_def cong: option.case_cong)

text \<open>Every record of the new registry has acceptable tools or those of its predecessor.\<close>

definition tools_from :: "(ToolDescriptor list \<Rightarrow> bool) \<Rightarrow> SessionRegistry \<Rightarrow> SessionRegistry \<Rightarrow> bool" where
  "tools_from ok r r' \<longleftrightarrow> (\<forall>sid q. map_of (reg_inner r') sid = Some q \<longrightarrow>
     ok (sr_tools q) \<or> (\<exists>q0. map_of (reg_inner r) sid = Some q0 \<and> sr_tools q0 = sr_tools q))"

lemma tools_from_same: "reg_inner r' = reg_inner r \<Longrightarrow> tools_from ok r r'"
  by (auto simp: tools_from_def)

lemma tools_from_register:
  "ok (rp_tools p) \<Longrightarrow> tools_from ok r (snd (register_with_generation env p now cn r))"
  by (auto simp: tools_from_def register_with_generation_def admit_session_def next_generation_def new_dispatcher_def
      Let_def hm_put_get new_record_def reconnect_record_def split: option.splits SessionState.splits if_splits)

lemma tools_from_others:
  "ok ts \<Longrightarrow> tools_from ok r (snd (update_tools env sid ts r))"
  "tools_from ok r (snd (remove_if_generation sid g r))"
  "tools_from ok r (snd (mark_disconnected_if_generation sid g now r))"
  "tools_from ok r (snd (sweep_expired_disconnects now grace r))"
  "tools_from ok r (snd (bump_last_call sid now r))"
  "tools_from ok r (snd (shutdown_finish sid (Sd_Finish q out) r))"
  by (auto simp: tools_from_def update_tools_def remove_if_generation_def remove_when_def
      mark_disconnected_if_generation_def disconnect_when_def disconnect_record_def bump_last_call_def
      shutdown_finish_def sweep_inner fold_hm_del hm_put_get hm_del_get split: option.splits if_splits)

lemma tools_from_mark_conns:
  "tools_from ok r (snd (mark_disconnected_if_generation sid g now (r\<lparr>reg_conns := cs\<rparr>)))"
  using tools_from_others(3) [of ok "r\<lparr>reg_conns := cs\<rparr>" sid g now] by (simp add: tools_from_def)

lemma handle_register_registry:
  "\<exists>p. tools_gated (gate_names s) (rp_tools p) \<and>
     (reg_inner (as_registry (handle_register env c i params s)) = reg_inner (as_registry s) \<or>
      (\<exists>now cn env'. reg_inner (as_registry (handle_register env c i params s)) =
         reg_inner (snd (register_with_generation env' p now cn (as_registry s))))) \<and>
     gate_names (handle_register env c i params s) = gate_names s"
proof (cases "as_peers s c = None \<and> decode_register params \<noteq> None")
  case False
  have "handle_register env c i params s = send_error c i INVALID_REQUEST ''session already registered on this connection'' s \<or>
      handle_register env c i params s = send_error c i INVALID_PARAMS (te_decode_error env params) s"
    using False by (auto simp: handle_register_def)
  then show ?thesis
    by (intro exI [of _ "sample_params\<lparr>rp_tools := []\<rparr>"]) (auto simp: send_error_def tools_gated_def)
next
  case True
  then obtain p0 where p0: "as_peers s c = None" "decode_register params = Some p0" by auto
  define p1 where "p1 = p0\<lparr>rp_tools := gate_tools (as_gate s) (rp_tools p0)\<rparr>"
  define key where "key = fst (resolve_identity env p1 (as_gate s))"
  define gate' where "gate' = snd (resolve_identity env p1 (as_gate s))"
  define p where "p = p1\<lparr>rp_database_key := key\<rparr>"
  have tools: "tools_gated (gate_names s) (rp_tools p)"
    by (simp add: p_def p1_def gate_tools_gated)
  have names: "gate_names (s\<lparr>as_registry := r, as_gate := gate'\<rparr>) = gate_names s" for r
    using resolve_identity_names [of env p1 "as_gate s"] by (auto simp: gate'_def gate_names_def split: option.splits)
  have "reg_inner (as_registry (handle_register env c i params s)) =
      reg_inner (snd (register_with_generation (te_cache env) p (te_now env) (Some c) (as_registry s))) \<and>
    gate_names (handle_register env c i params s) = gate_names s"
    using p0 names
    by (auto simp: handle_register_def Let_def split_beta p1_def [symmetric] key_def [symmetric] gate'_def [symmetric]
        p_def [symmetric] send_error_def split: sum.split RegisterError.split)
  with tools show ?thesis by blast
qed

lemma gated_from:
  assumes "gated s" "tools_from (tools_gated (gate_names s)) (as_registry s) (as_registry s')" "gate_names s' = gate_names s"
  shows "gated s'"
  using assms unfolding gated_def tools_from_def by (metis)

lemma gated_register: "gated s \<Longrightarrow> gated (handle_register env c i params s)"
  using handle_register_registry [of s env c i params] tools_from_register [of "tools_gated (gate_names s)"]
  by (fastforce intro: gated_from simp: tools_from_def)

lemma handle_bye_registry:
  "reg_inner (as_registry (handle_bye c i s)) = reg_inner (as_registry s) \<or>
   (\<exists>sid g. reg_inner (as_registry (handle_bye c i s)) = reg_inner (snd (remove_if_generation sid g (as_registry s))))"
  "gate_names (handle_bye c i s) = gate_names s"
  by (auto simp: handle_bye_def Let_def split: option.splits)

lemma gated_dispatch: "gated s \<Longrightarrow> gated (snd (transport_dispatch env c m s))"
proof (cases m)
  case (Request i meth ps)
  assume g: "gated s"
  have "gated (handle_bye c i s)"
    using g handle_bye_registry [of c i s] tools_from_others(2) [of "tools_gated (gate_names s)" "as_registry s"]
    by (auto intro!: gated_from [OF g] simp: tools_from_def)
  moreover have "gated (tx_send c x s)" for x
    using g by (auto intro!: gated_from [OF g] tools_from_same)
  ultimately show ?thesis
    using Request gated_register [OF g] by (simp add: handle_request_def send_error_def)
next
  case (Notification meth ps)
  assume g: "gated s"
  have "tools_from (tools_gated (gate_names s)) (as_registry s)
      (snd (update_tools env' sid (gate_tools (as_gate s) ts) (as_registry s)))" for env' sid ts
    by (intro tools_from_others(1)) (simp add: gate_tools_gated)
  then show ?thesis
    using g by (auto simp: Notification handle_notification_def intro!: gated_from [OF g] split: option.split)
next
  case (Response i a)
  assume g: "gated s"
  then show ?thesis
    by (auto simp: Response handle_response_def Let_def intro!: gated_from [OF g] tools_from_same)
qed

lemma gated_step [inv_intros]:
  assumes g: "gated s"
  shows "gated (manager_step s e)"
proof (cases e)
  case (Me_Frame env c f)
  have "gated (send_error c i code m s)" for i code m
    using g by (auto simp: send_error_def intro!: gated_from [OF g] tools_from_same)
  then show ?thesis
    using Me_Frame g gated_dispatch [OF g]
    by (auto simp: reader_step_def split: ws_frame.split ws_message.split sum.split)
next
  case (Me_Open c)
  then show ?thesis by (auto simp: open_connection_def intro!: gated_from [OF g] tools_from_same)
next
  case (Me_Close now c)
  show ?thesis
  proof (cases "as_peers s c")
    case None
    with Me_Close show ?thesis
      by (auto simp: close_connection_def Let_def intro!: gated_from [OF g] tools_from_same)
  next
    case (Some ident)
    with Me_Close show ?thesis
      by (auto simp: close_connection_def Let_def intro!: gated_from [OF g] tools_from_mark_conns)
  qed
next
  case (Me_Sweep cfg now)
  then show ?thesis by (auto simp: grace_sweep_def tools_from_others intro!: gated_from [OF g])
next
  case (Me_Bump sid now)
  then show ?thesis by (auto simp: tools_from_others intro!: gated_from [OF g])
next
  case (Me_Shutdown sid rec out)
  then show ?thesis by (auto simp: tools_from_others intro!: gated_from [OF g])
qed


interpretation gm: event_machine manager_step gated
  by unfold_locales (rule gated_step)

lemma gated_run: "gated s \<Longrightarrow> gated (manager_run s es)"
  unfolding manager_run_def by (rule gm.run_keeps)

section \<open>The registry stays well formed whatever the clients send\<close>

lemma reg_inv_conns [simp]: "reg_inv (r\<lparr>reg_conns := cs\<rparr>) = reg_inv r"
  by (rule reg_inv_cong) simp_all

lemma reg_inv_tx_send [simp]: "reg_inv (as_registry (tx_send c m s)) = reg_inv (as_registry s)"
  by (rule reg_inv_cong) simp_all

lemma reg_inv_drain_record [inv_intros]:
  assumes "reg_inv r"
  shows "reg_inv (drain_record rec r)"
proof -
  have "rec_inv (drain_record rec r) sid q" if "rec_inv r sid q" for sid q
    using that by (rule rec_inv_mono) (simp_all add: drain_record_def disp_drain_def)
  then show ?thesis using assms by (simp add: reg_inv_def)
qed

definition reg_next :: "SessionRegistry \<Rightarrow> SessionRegistry \<Rightarrow> bool" where
  "reg_next r r' \<longleftrightarrow> reg_inv r' \<and> (last_generation r' = last_generation r \<or> last_generation r' = last_generation r + 1)"

lemma reg_next_apply:
  assumes "reg_inv r" "last_generation r \<noteq> -1"
  shows "reg_next r (snd (register_with_generation env p now cn r))"
    "reg_next r (snd (mark_disconnected_if_generation sid g now r))"
    "reg_next r (snd (remove_if_generation sid g r))"
    "reg_next r (snd (update_tools env sid ts r))"
    "reg_next r (snd (bump_last_call sid now r))"
    "reg_next r (snd (sweep_expired_disconnects now grace r))"
proof -
  have a: "reg_next r (reg_apply r op)" for op
    using assms reg_inv_apply [of r op] generation_apply [of r op] by (auto simp: reg_next_def)
  show "reg_next r (snd (register_with_generation env p now cn r))"
    "reg_next r (snd (mark_disconnected_if_generation sid g now r))"
    "reg_next r (snd (remove_if_generation sid g r))"
    "reg_next r (snd (update_tools env sid ts r))"
    "reg_next r (snd (bump_last_call sid now r))"
    "reg_next r (snd (sweep_expired_disconnects now grace r))"
    using a [of "Op_Register env p now cn"] a [of "Op_Disconnect_Gen sid g now"] a [of "Op_Remove_Gen sid g"]
      a [of "Op_Update env sid ts"] a [of "Op_Bump sid now"] a [of "Op_Sweep now grace"] by simp_all
qed

lemma reg_next_same [simp]:
  "reg_inv r \<Longrightarrow> reg_next r r"
  "reg_next r (as_registry (tx_send c m s)) = reg_next r (as_registry s)"
  "reg_next (r\<lparr>reg_conns := cs\<rparr>) r' = reg_next r r'"
  "reg_next r (r'\<lparr>reg_conns := cs\<rparr>) = reg_next r r'"
  by (simp_all add: reg_next_def)

lemma reg_next_dispatch:
  assumes "reg_inv (as_registry s)" "last_generation (as_registry s) \<noteq> -1"
  shows "reg_next (as_registry s) (as_registry (snd (transport_dispatch env c m s)))"
proof (cases m)
  case (Request i meth ps)
  have "reg_next (as_registry s) (as_registry (handle_register env c i ps s))"
    using assms reg_next_apply(1) [OF assms]
    by (auto simp: handle_register_def send_error_def Let_def split_beta split: option.split sum.split RegisterError.split)
  moreover have "reg_next (as_registry s) (as_registry (handle_bye c i s))"
    using assms reg_next_apply(3) [OF assms] by (auto simp: handle_bye_def Let_def split: option.split)
  ultimately show ?thesis using assms by (simp add: Request handle_request_def send_error_def)
next
  case (Notification meth ps)
  then show ?thesis
    using assms reg_next_apply(4) [OF assms] by (auto simp: handle_notification_def split: option.split)
next
  case (Response i a)
  then show ?thesis using assms by (simp add: handle_response_def Let_def)
qed

lemma reg_next_step:
  assumes "reg_inv (as_registry s)" "last_generation (as_registry s) \<noteq> -1"
  shows "reg_next (as_registry s) (as_registry (manager_step s e))"
proof (cases e)
  case (Me_Frame env c f)
  then show ?thesis
    using assms reg_next_dispatch [OF assms]
    by (auto simp: reader_step_def send_error_def split: ws_frame.split ws_message.split sum.split)
next
  case (Me_Close now c)
  have "reg_next (as_registry s) (snd (mark_disconnected_if_generation sid g now ((as_registry s)\<lparr>reg_conns := cs\<rparr>)))"
    for sid g cs using reg_next_apply(2) [of "(as_registry s)\<lparr>reg_conns := cs\<rparr>"] assms by simp
  with Me_Close assms show ?thesis by (auto simp: close_connection_def Let_def split: option.split)
next
  case (Me_Shutdown sid rec out)
  have "reg_next (drain_record rec (as_registry s)) (snd (remove_if_generation sid (sr_generation rec) (drain_record rec (as_registry s))))"
    using assms by (intro reg_next_apply) (simp_all add: reg_inv_drain_record)
  with Me_Shutdown show ?thesis by (simp add: shutdown_finish_def reg_next_def)
qed (use assms in \<open>simp_all add: open_connection_def grace_sweep_def reg_next_apply\<close>)

lemma manager_run_inv:
  assumes "reg_inv (as_registry s)" "unat (last_generation (as_registry s)) + length es < 2 ^ 64"
  shows "reg_inv (as_registry (manager_run s es))"
  using assms
proof (induction es arbitrary: s)
  case (Cons e es)
  have room: "last_generation (as_registry s) \<noteq> -1"
    using Cons.prems by (auto simp: unsigned_minus_1_eq_mask mask_eq_exp_minus_1)
  have "reg_next (as_registry s) (as_registry (manager_step s e))"
    by (rule reg_next_step [OF Cons.prems(1) room])
  then have "reg_inv (as_registry (manager_step s e))"
    "unat (last_generation (as_registry (manager_step s e))) \<le> Suc (unat (last_generation (as_registry s)))"
    using unat_succ_le [of "last_generation (as_registry s)"] by (auto simp: reg_next_def)
  with Cons.IH [of "manager_step s e"] Cons.prems(2) show ?case by (simp add: manager_run_def)
qed (simp add: manager_run_def)

lemma gate_names_run: "gate_names (manager_run s es) = gate_names s"
proof -
  have dispatch: "gate_names (snd (transport_dispatch env c m s)) = gate_names s" for env c m s
    using handle_register_registry [of s env c]
    by (cases m) (auto simp: handle_request_def handle_bye_registry send_error_def handle_notification_def
        handle_response_def Let_def split: option.split)
  have "gate_names (manager_step s e) = gate_names s" for s e
    by (cases e) (auto simp: dispatch reader_step_def send_error_def open_connection_def close_connection_def Let_def
        grace_sweep_def split: ws_frame.split ws_message.split sum.split option.split)
  then show ?thesis
    unfolding manager_run_def by (induction es arbitrary: s) simp_all
qed

lemma gated_not_published:
  assumes "reg_inv (as_registry s)" "gated s" "name \<in> set (gate_names s)"
  shows "\<not> publishes (as_registry s) sid name"
  using assms(2,3) by (auto simp: publishes_def gated_def tools_gated_def split: option.splits)

text \<open>The manager just started, with its registry empty.\<close>

definition manager_start :: "ToolsCacheStore option \<Rightarrow> MaskingGate option \<Rightarrow> AppState" where
  "manager_start cache gate = \<lparr>as_registry = registry_new\<lparr>reg_cache := cache\<rparr>, as_gate = gate, as_peers = (\<lambda>_. None)\<rparr>"

lemma manager_start_inv:
  "reg_inv (as_registry (manager_start cache gate))" "gated (manager_start cache gate)"
  "last_generation (as_registry (manager_start cache gate)) = 0"
proof -
  have "reg_inv (registry_new\<lparr>reg_cache := cache\<rparr>) = reg_inv registry_new" by (rule reg_inv_cong) simp_all
  then show "reg_inv (as_registry (manager_start cache gate))" by (simp add: manager_start_def reg_inv_new)
qed (simp_all add: manager_start_def gated_def registry_new_def)

text \<open>
  C3: the names reserved by the masking gate are unreachable for agents.
  Whatever frames, closings, sweeps and shutdowns happen on whatever connections, no session
  ever publishes a tool whose name is on the gate's internal list, even if clients declare
  it public: such a call is never routed.
\<close>

theorem internal_names_are_never_routed:
  assumes "length es < 2 ^ 64" "name \<in> set (mg_internal_tools g)"
  shows "let r = as_registry (manager_run (manager_start cache (Some g)) es) in
    reg_inv r \<and> (\<forall>sid. \<not> publishes r sid name) \<and>
    resolve_published name (build_proxy_view hash r) req = Err NotProxyTool"
proof -
  let ?s = "manager_run (manager_start cache (Some g)) es"
  have inv: "reg_inv (as_registry ?s)"
    using manager_run_inv [of "manager_start cache (Some g)" es] manager_start_inv assms(1) by simp
  have "name \<in> set (gate_names ?s)" using assms(2) by (simp add: gate_names_run) (simp add: gate_names_def manager_start_def)
  then have none: "\<not> publishes (as_registry ?s) sid name" for sid
    by (rule gated_not_published [OF inv gated_run [OF manager_start_inv(2)]])
  then have "candidates (as_registry ?s) name = []" using candidate_iff [OF inv, of _ name] by (cases "candidates (as_registry ?s) name") auto
  with inv none show ?thesis by (simp add: resolve_by_candidates Let_def)
qed

theorem internal_names_are_never_routed_witness:
  "resolve_published ''secret'' (build_proxy_view (\<lambda>_. ''h'') (as_registry
      (manager_run (manager_start None (Some sample_gate)) [Me_Open 0, Me_Frame sample_tenv 0 Fr_End]))) None = Err NotProxyTool"
  using internal_names_are_never_routed [of "[Me_Open 0, Me_Frame sample_tenv 0 Fr_End]" "''secret''" sample_gate None "\<lambda>_. ''h''" None]
  by (simp add: sample_gate_def Let_def)

end
