(* ===== verification/Mcp_Server.thy ===== *)
theory Mcp_Server
  imports Transport
begin

text \<open>
  The agents' side of the manager (\<open>src/mcp/server.rs\<close>): the tool list, the
  built-in tools, and the whole path of a proxied call through argument extraction, routing,
  masking gate, dispatcher and finalization. A call takes its locks one after the
  other, so it is modelled as a machine whose steps interleave with the
  connections' events of \<open>Transport\<close>. Results and tools are values of the
  MCP library; they are kept as the constructor the code applies.
\<close>

section \<open>Results\<close>

datatype ErrorData = Invalid_Params string | Internal_Error string

datatype CallToolResult =
    Ct_Success "string list" "json option"
  | Ct_Error "string list" "json option"
  | Ct_Structured json
  | Ct_Structured_Error json

type_synonym call_answer = "(ErrorData, CallToolResult) res"

definition CLIENT_PROXY_CALL_TIMEOUT_SECS :: nat where "CLIENT_PROXY_CALL_TIMEOUT_SECS = 60"
definition SERVER_PROXY_CALL_TIMEOUT_SECS :: nat where "SERVER_PROXY_CALL_TIMEOUT_SECS = 3600"
definition MANAGER_CALL_OPTIONS_KEY :: string where "MANAGER_CALL_OPTIONS_KEY = ''_v8_call_options''"
definition MANAGER_NO_DEADLINE_KEY :: string where "MANAGER_NO_DEADLINE_KEY = ''no_deadline''"

definition quoted :: "string \<Rightarrow> string" where "quoted s = [quote] @ s @ [quote]"

section \<open>Arguments of the manager\<close>

definition extract_manager_arguments :: "jobject option \<Rightarrow> (ErrorData, json \<times> string option \<times> bool) res" where
  "extract_manager_arguments arguments =
     (let m = unwrap_or [] arguments;
          m1 = bm_del SESSION_ID_ARGUMENT m;
          rest = (\<lambda>requested.
            (case map_of m1 MANAGER_CALL_OPTIONS_KEY of
               None \<Rightarrow> Ok (JObject m1, requested, False)
             | Some (JObject options) \<Rightarrow>
                 (let m2 = bm_del MANAGER_CALL_OPTIONS_KEY m1;
                      left = bm_del MANAGER_NO_DEADLINE_KEY options;
                      flag = (case map_of options MANAGER_NO_DEADLINE_KEY of
                         Some (JBool b) \<Rightarrow> Some b | None \<Rightarrow> Some False | Some _ \<Rightarrow> None)
                  in case flag of
                       None \<Rightarrow> Err (Invalid_Params (MANAGER_CALL_OPTIONS_KEY @ ''.'' @ MANAGER_NO_DEADLINE_KEY @ '' must be boolean''))
                     | Some no_deadline \<Rightarrow>
                         if left \<noteq> [] then Err (Invalid_Params (''unknown '' @ MANAGER_CALL_OPTIONS_KEY @ '' keys: '' @
                             str_join '', '' (sort (map fst left))))
                         else Ok (JObject m2, requested, no_deadline))
             | Some _ \<Rightarrow> Err (Invalid_Params (MANAGER_CALL_OPTIONS_KEY @ '' must be an object''))))
      in case map_of m SESSION_ID_ARGUMENT of
           Some (JString v) \<Rightarrow> if v \<noteq> [] then rest (Some v)
             else Err (Invalid_Params (SESSION_ID_ARGUMENT @ '' must be a non-empty string''))
         | None \<Rightarrow> rest None
         | Some _ \<Rightarrow> Err (Invalid_Params (SESSION_ID_ARGUMENT @ '' must be a non-empty string'')))"

definition validate_explicit_target :: "SessionRegistry \<Rightarrow> string \<Rightarrow> string \<Rightarrow> (ErrorData, unit) res" where
  "validate_explicit_target r sid tool = (case reg_get sid r of
     None \<Rightarrow> Err (Invalid_Params (''unknown session_id '' @ quoted sid))
   | Some rec \<Rightarrow>
       if sr_state rec \<noteq> Active then Err (Invalid_Params (''session '' @ quoted sid @ '' is not active''))
       else if \<not> (\<exists>t \<in> set (sr_tools rec). td_name t = tool \<and> is_public (td_visibility t))
       then Err (Invalid_Params (''session '' @ quoted sid @ '' does not publish tool '' @ quoted tool))
       else Ok ())"

definition proxy_call_deadline :: "instant \<Rightarrow> string \<Rightarrow> bool \<Rightarrow> (ErrorData, instant option) res" where
  "proxy_call_deadline now kind no_deadline =
     (if no_deadline then
        (if kind = ''server'' then Ok None
         else Err (Invalid_Params (MANAGER_CALL_OPTIONS_KEY @ ''.'' @ MANAGER_NO_DEADLINE_KEY @
                '' is allowed only for server sessions'')))
      else Ok (Some (now + 1000 *
             (if kind = ''server'' then SERVER_PROXY_CALL_TIMEOUT_SECS else CLIENT_PROXY_CALL_TIMEOUT_SECS))))"

section \<open>Results of the client\<close>

datatype ToolPayload = Envelope json json | Opaque json | Malformed string

text \<open>
  The envelope read from the text itself: unlike the parsed value, it rejects a
  repeated field; \<open>repeats\<close> gives the keys a text repeats at its top level.
\<close>

definition decode_envelope :: "string list \<Rightarrow> json \<Rightarrow> (u8 \<times> json \<times> json) option" where
  "decode_envelope repeats v =
     (if set repeats \<inter> {''schema_version'', ''result'', ''field_sources''} \<noteq> {} then None
      else Option.bind (struct_map [''schema_version'', ''result'', ''field_sources''] v) (\<lambda>m.
        Option.bind (field_req dec_u8 ''schema_version'' m) (\<lambda>sv.
        Option.bind (field_req dec_value ''result'' m) (\<lambda>res.
        Option.bind (field_req dec_value ''field_sources'' m) (\<lambda>fs. Some (sv, res, fs))))))"

definition claims_envelope :: "(string \<Rightarrow> json option) \<Rightarrow> ToolCallResult \<Rightarrow> bool" where
  "claims_envelope parse r = (case cr_content r of
     Text_Content t # _ \<Rightarrow> (case parse t of
        Some (JObject m) \<Rightarrow> map_of m ''schema_version'' \<noteq> None \<or> map_of m ''field_sources'' \<noteq> None
      | _ \<Rightarrow> False)
   | _ \<Rightarrow> False)"

definition extract_tool_payload ::
  "(string \<Rightarrow> json option) \<Rightarrow> (string \<Rightarrow> string list) \<Rightarrow> ToolCallResult \<Rightarrow> ToolPayload" where
  "extract_tool_payload parse repeats r =
     (if claims_envelope parse r then
        (case cr_content r of
           Text_Content t # _ \<Rightarrow>
             (case Option.bind (parse t) (decode_envelope (repeats t)) of
                None \<Rightarrow> Malformed ''RESULT_INVALID''
              | Some (sv, res, fs) \<Rightarrow> if sv \<noteq> 1 then Malformed ''RESULT_INVALID'' else Envelope res fs)
         | _ \<Rightarrow> Malformed ''RESULT_INVALID'')
      else Opaque (encode_call_result r))"

fun dispatcher_error_code :: "DispatcherError \<Rightarrow> string" where
  "dispatcher_error_code CancelledWhileQueued = ''TOOL_CANCELLED''"
| "dispatcher_error_code Cancelled = ''TOOL_CANCELLED''"
| "dispatcher_error_code TimedOutWhileQueued = ''TOOL_TIMEOUT''"
| "dispatcher_error_code TimedOutWhileRunning = ''TOOL_TIMEOUT''"
| "dispatcher_error_code SessionGone = ''SESSION_GONE''"
| "dispatcher_error_code Disp_WriterClosed = ''SESSION_GONE''"
| "dispatcher_error_code (ClientError e) = ''CLIENT_ERROR''"
| "dispatcher_error_code (InvalidResult m) = ''RESULT_INVALID''"

definition masking_failure_response :: "MaskingFailure \<Rightarrow> CallToolResult" where
  "masking_failure_response f = Ct_Error [mf_message f]
     (Some (jobj [(''error'', jobj ([(''code'', JString (mf_code f)), (''message'', JString (mf_message f)),
        (''correlation_id'', JString (mf_correlation_id f))] @ enc_opt ''retry_after_s'' enc_u64 (mf_retry_after_s f)))]))"

fun content_text :: "(json \<Rightarrow> string) \<Rightarrow> ToolContent \<Rightarrow> string" where
  "content_text print (Text_Content t) = t"
| "content_text print (Json_Content j) = print j"

definition dispatcher_outcome_to_call_result ::
  "(json \<Rightarrow> string) \<Rightarrow> (DispatcherError, ToolCallResult) res \<Rightarrow> call_answer" where
  "dispatcher_outcome_to_call_result print outcome = (case outcome of
     Inr r \<Rightarrow> Ok ((if cr_is_error r then Ct_Error else Ct_Success)
                  (map (content_text print) (cr_content r)) (cr_structured_content r))
   | Inl CancelledWhileQueued \<Rightarrow> Err (Internal_Error ''tool.call cancelled while queued'')
   | Inl Cancelled \<Rightarrow> Err (Internal_Error ''tool.call cancelled during execution'')
   | Inl TimedOutWhileQueued \<Rightarrow> Err (Internal_Error ''tool.call timed out while queued'')
   | Inl TimedOutWhileRunning \<Rightarrow> Err (Internal_Error ''tool.call timed out during execution'')
   | Inl SessionGone \<Rightarrow> Err (Invalid_Params ''session_gone: target session is disconnected'')
   | Inl (ClientError e) \<Rightarrow> Err (Internal_Error (''client error '' @ show_int (sint (err_code e)) @ '': '' @ err_message e))
   | Inl (InvalidResult m) \<Rightarrow> Err (Internal_Error m)
   | Inl Disp_WriterClosed \<Rightarrow> Err (Internal_Error ''session connection writer closed''))"


section \<open>The tool list and the built-in tools\<close>

definition cached_description :: "ToolsCacheEntry \<Rightarrow> ToolDescriptor \<Rightarrow> string" where
  "cached_description e t = unwrap_or (''Cached ClientProxy tool (kind='' @ ce_kind e @ '', config_id='' @ ce_config_id e @ '')'')
     (td_description t)"

definition cached_tool :: "ToolsCacheEntry \<Rightarrow> ToolDescriptor \<Rightarrow> mcp_tool" where
  "cached_tool e t = \<lparr>mt_name = td_name t, mt_description = cached_description e t,
     mt_input_schema = unwrap_or [] (as_object (input_schema_with_session_selector (td_input_schema t) [] False))\<rparr>"

text \<open>One turn of the loop over the cached tools: \<open>seen\<close> are the names listed so far.\<close>

fun add_cached :: "ToolsCacheEntry \<times> ToolDescriptor \<Rightarrow> string list \<times> mcp_tool list \<Rightarrow> string list \<times> mcp_tool list" where
  "add_cached (e, t) (seen, tools) =
     (if \<not> is_public (td_visibility t) then (seen, tools)
      else if td_name t \<in> set seen then (seen, tools)
      else (td_name t # seen, tools @ [cached_tool e t]))"

definition cache_items :: "ToolsCacheEntry list \<Rightarrow> (ToolsCacheEntry \<times> ToolDescriptor) list" where
  "cache_items es = concat (map (\<lambda>e. map (Pair e) (ce_tools e)) es)"

definition cache_read :: "serde \<Rightarrow> utc \<Rightarrow> SessionRegistry \<Rightarrow> ToolsCacheEntry list \<times> SessionRegistry" where
  "cache_read sd now r = (case reg_cache r of
     None \<Rightarrow> ([], r)
   | Some c \<Rightarrow> (fst (cache_list_all sd now c), with_cache (\<lambda>c. snd (cache_list_all sd now c)) r))"

definition list_all_tools_inner ::
  "mcp_tool list \<Rightarrow> (json \<Rightarrow> string) \<Rightarrow> serde \<Rightarrow> utc \<Rightarrow> SessionRegistry \<Rightarrow> mcp_tool list \<times> SessionRegistry" where
  "list_all_tools_inner builtin hash sd now r =
     (let live = proxy_tools (build_proxy_view hash r);
          (entries, r') = cache_read sd now r
      in (snd (fold add_cached (cache_items entries) (map mt_name (builtin @ live), builtin @ live)), r'))"

definition get_tool :: "mcp_tool list \<Rightarrow> (json \<Rightarrow> string) \<Rightarrow> string \<Rightarrow> SessionRegistry \<Rightarrow> mcp_tool option" where
  "get_tool builtin hash name r = (case find (\<lambda>t. mt_name t = name) builtin of
     Some t \<Rightarrow> Some t
   | None \<Rightarrow> find (\<lambda>t. mt_name t = name) (proxy_tools (build_proxy_view hash r)))"

definition session_list :: "instant \<Rightarrow> SessionRegistry \<Rightarrow> CallToolResult" where
  "session_list now r = Ct_Structured (encode_session_list (management_list now r))"

definition tools_cache_reset :: "serde \<Rightarrow> string option \<Rightarrow> SessionRegistry \<Rightarrow> CallToolResult \<times> SessionRegistry" where
  "tools_cache_reset sd config_id r = (case reg_cache r of
     None \<Rightarrow> (Ct_Structured (jobj [(''removed'', enc_nat 0), (''enabled'', JBool False),
                (''message'', JString ''tools_cache is not configured'')]), r)
   | Some c \<Rightarrow>
       (let (reset, scope) = (case config_id of
               Some cid \<Rightarrow> if cid \<noteq> [] then (reset_by_config_id sd cid, ''by_config_id'') else (reset_all sd, ''all'')
             | None \<Rightarrow> (reset_all sd, ''all''))
        in (Ct_Structured (jobj [(''removed'', enc_nat (fst (reset c))), (''scope'', JString scope),
              (''enabled'', JBool (tc_enabled c))]), with_cache (\<lambda>c. snd (reset c)) r)))"

fun show_client_error :: "ClientError \<Rightarrow> string" where
  "show_client_error Cl_Transport = ''masking service transport unavailable''"
| "show_client_error Cl_Timeout = ''masking service deadline exceeded''"
| "show_client_error Cl_InvalidResponse = ''masking service returned an invalid response''"
| "show_client_error (Cl_Service n e) = ''masking service denied the call''"

definition export_refused :: "string \<Rightarrow> string \<Rightarrow> (string \<times> json) list \<Rightarrow> CallToolResult" where
  "export_refused code msg extra = Ct_Structured (jobj ([(''exported'', JBool False), (''code'', JString code),
     (''message'', JString msg)] @ extra))"

definition masking_export_setup ::
  "(string \<Rightarrow> bool) \<Rightarrow> (string \<Rightarrow> bool \<Rightarrow> (ClientError, json) res) \<Rightarrow> string \<Rightarrow> bool option \<Rightarrow>
     MaskingGate option \<Rightarrow> CallToolResult" where
  "masking_export_setup uuid_ok export database include_tools gate =
     (if \<not> (\<exists>g \<in> set_option gate. mg_enabled g)
      then export_refused ''MASKING_DISABLED'' ''masking integration is not enabled'' []
      else if \<not> uuid_ok database then export_refused ''DATABASE_INVALID'' ''database must be a UUID'' []
      else (case export database (unwrap_or False include_tools) of
         Inr body \<Rightarrow> Ct_Structured body
       | Inl (Cl_Service st e) \<Rightarrow> export_refused (se_code e) (se_message e) [(''http_status'', enc_nat st)]
       | Inl e \<Rightarrow> export_refused ''SERVICE_UNAVAILABLE'' (show_client_error e) []))"

section \<open>Answers without a session\<close>

definition lookup_cache_entry :: "string \<Rightarrow> ToolsCacheEntry list \<Rightarrow> (string \<times> string) option" where
  "lookup_cache_entry name es =
     map_option (\<lambda>e. (ce_kind e, ce_config_id e))
       (find (\<lambda>e. \<exists>t \<in> set (ce_tools e). td_name t = name \<and> is_public (td_visibility t)) es)"

definition tool_error :: "string \<Rightarrow> json \<Rightarrow> CallToolResult" where
  "tool_error text meta = Ct_Structured_Error (jobj [
     (''content'', JArray [jobj [(''type'', JString ''text''), (''text'', JString text)]]),
     (''isError'', JBool True), (''_meta'', meta)])"

definition no_live_session_response :: "string \<Rightarrow> (string \<times> string) option \<Rightarrow> CallToolResult" where
  "no_live_session_response tool hit = tool_error (''Tool '' @ quoted tool @ '' is currently unavailable: no live session.'')
     (jobj ([(''error_code'', JString ''no_live_session''), (''tool'', JString tool)] @
        (case hit of None \<Rightarrow> [] | Some (k, cid) \<Rightarrow> [(''kind'', JString k), (''config_id'', JString cid)])))"

definition unknown_tool_response :: "string \<Rightarrow> CallToolResult" where
  "unknown_tool_response tool = tool_error (''Tool '' @ quoted tool @ '' is unavailable: unknown tool name.'')
     (jobj [(''error_code'', JString ''unknown_tool''), (''tool'', JString tool)])"

section \<open>A proxied call\<close>

record CallToolRequest =
  rq_name :: string
  rq_arguments :: "jobject option"
  rq_caller :: CallerInfo

datatype call_phase =
    Cp_Start
  | Cp_Validated json "string option" bool
  | Cp_Unrouted
  | Cp_Resolved json bool ResolvedCall
  | Cp_Found json bool ResolvedCall SessionRecord
  | Cp_Gated "MaskingCallContext option" json bool ResolvedCall SessionRecord
  | Cp_Calling "MaskingCallContext option" ResolvedCall nat ToolCallParams "instant option"
  | Cp_Done call_answer

text \<open>
  What a step takes from outside: clocks, formats, the two fresh ids, and, in the
  last step, what \<open>enqueue\<close> returned.
\<close>

record call_env =
  ca_hash :: "json \<Rightarrow> string"
  ca_serde :: serde
  ca_utc :: utc
  ca_now :: instant
  ca_call_id :: string
  ca_correlation_id :: string
  ca_repeats :: "string \<Rightarrow> string list"
  ca_outcome :: "(DispatcherError, ToolCallResult) res"

definition IDENTITY_UNVERIFIED_MESSAGE :: string where
  "IDENTITY_UNVERIFIED_MESSAGE = map char_of [208, 152, 208, 180, 208, 181, 208, 189, 209, 130, 208, 184, 209,
     135, 208, 189, 208, 190, 209, 129, 209, 130, 209, 140, 32, 208, 177, 208, 176, 208, 183, 209, 139, 32, 208,
     189, 208, 181, 32, 208, 191, 208, 190, 208, 180, 209, 130, 208, 178, 208, 181, 209, 128, 208, 182, 208, 180,
     208, 181, 208, 189, 208, 176 :: nat]"

definition resolve_failure :: "ResolveError \<Rightarrow> ErrorData" where
  "resolve_failure e = (case e of
     SessionRequired tool ids \<Rightarrow> Invalid_Params (''tool '' @ quoted tool @
       '' has multiple active targets; session_id is required (candidates: '' @ str_join '', '' ids @ '')'')
   | SessionToolMismatch tool sid \<Rightarrow> Invalid_Params (''session '' @ quoted sid @ '' does not publish tool '' @ quoted tool)
   | NotProxyTool \<Rightarrow> Internal_Error [])"

text \<open>The gate's part: first the identity of the database, then the service.\<close>

definition call_gate ::
  "gate_env \<Rightarrow> call_env \<Rightarrow> CallToolRequest \<Rightarrow> json \<Rightarrow> SessionRecord \<Rightarrow> MaskingGate \<Rightarrow>
     (CallToolResult, MaskingCallContext \<times> json) res \<times> MaskingGate" where
  "call_gate srv env q args rec g = (case verify_database rec of
     None \<Rightarrow>
       (let failure = with_correlation ''DATABASE_IDENTITY_UNVERIFIED'' IDENTITY_UNVERIFIED_MESSAGE (ca_correlation_id env);
            (res, g1) = record_terminal srv (unverified_terminal (ca_call_id env) (ca_correlation_id env) (rq_name q) (mf_code failure)) g
        in (Err (masking_failure_response (case res of
              Inl _ \<Rightarrow> with_correlation ''HISTORY_UNAVAILABLE'' UNAVAILABLE (ca_correlation_id env)
            | Inr _ \<Rightarrow> failure)), g1))
   | Some ident \<Rightarrow>
       (let (res, g1) = preflight srv (call_context ident (rq_caller q) (rq_name q) (ca_call_id env) (ca_correlation_id env)) args g
        in (case res of Inl failure \<Rightarrow> Err (masking_failure_response failure) | Inr x \<Rightarrow> Ok x, g1)))"

definition finalize_input ::
  "call_env \<Rightarrow> FinalizeOutcome \<times> json option" where
  "finalize_input env = (case ca_outcome env of
     Inr r \<Rightarrow> (case extract_tool_payload (sd_parse (ca_serde env)) (ca_repeats env) r of
        Envelope res fs \<Rightarrow> (ToolResult res, Some fs)
      | Opaque res \<Rightarrow> (ToolResult res, None)
      | Malformed code \<Rightarrow> (transport_error_outcome code, None))
   | Inl e \<Rightarrow> (transport_error_outcome (dispatcher_error_code e), None))"

definition call_finish ::
  "gate_env \<Rightarrow> call_env \<Rightarrow> MaskingCallContext option \<Rightarrow> MaskingGate option \<Rightarrow> call_answer \<times> MaskingGate option" where
  "call_finish srv env ctx gate = (case (ctx, gate) of
     (Some c, Some g) \<Rightarrow>
       (let (res, g1) = finalize srv c (fst (finalize_input env)) (snd (finalize_input env)) g
        in (case res of
              Inr r \<Rightarrow> dispatcher_outcome_to_call_result (sd_print (ca_serde env)) (Ok r)
            | Inl failure \<Rightarrow> Ok (masking_failure_response failure), Some g1))
   | _ \<Rightarrow> (dispatcher_outcome_to_call_result (sd_print (ca_serde env)) (ca_outcome env), gate))"

definition gate_enabled :: "AppState \<Rightarrow> bool" where
  "gate_enabled s \<longleftrightarrow> (\<exists>g \<in> set_option (as_gate s). mg_enabled g)"

fun call_step :: "gate_env \<Rightarrow> call_env \<Rightarrow> CallToolRequest \<Rightarrow> call_phase \<Rightarrow> AppState \<Rightarrow> call_phase \<times> AppState" where
  "call_step srv env q Cp_Start s = (case extract_manager_arguments (rq_arguments q) of
     Inl e \<Rightarrow> (Cp_Done (Err e), s)
   | Inr (args, requested, nd) \<Rightarrow>
       (case requested of
          None \<Rightarrow> (Cp_Validated args requested nd, s)
        | Some sid \<Rightarrow> (case validate_explicit_target (as_registry s) sid (rq_name q) of
             Inl e \<Rightarrow> (Cp_Done (Err e), s)
           | Inr _ \<Rightarrow> (Cp_Validated args requested nd, s))))"
| "call_step srv env q (Cp_Validated args requested nd) s =
     (case resolve_published (rq_name q) (build_proxy_view (ca_hash env) (as_registry s)) requested of
        Inr c \<Rightarrow> (Cp_Resolved args nd c, s)
      | Inl NotProxyTool \<Rightarrow> (Cp_Unrouted, s)
      | Inl e \<Rightarrow> (Cp_Done (Err (resolve_failure e)), s))"
| "call_step srv env q Cp_Unrouted s =
     (let (entries, r) = cache_read (ca_serde env) (ca_utc env) (as_registry s)
      in (Cp_Done (Ok (case lookup_cache_entry (rq_name q) entries of
             Some hit \<Rightarrow> no_live_session_response (rq_name q) (Some hit)
           | None \<Rightarrow> unknown_tool_response (rq_name q))), s\<lparr>as_registry := r\<rparr>))"
| "call_step srv env q (Cp_Resolved args nd c) s = (case reg_get (rc_session_id c) (as_registry s) of
     None \<Rightarrow> (Cp_Done (Err (Internal_Error (''session '' @ quoted (rc_session_id c) @ '' disappeared between resolve and call''))), s)
   | Some rec \<Rightarrow>
       if sr_state rec \<noteq> Active
       then (Cp_Done (Err (Invalid_Params (''session '' @ quoted (rc_session_id c) @ '' is not active''))), s)
       else (Cp_Found args nd c rec, s))"
| "call_step srv env q (Cp_Found args nd c rec) s = (case as_gate s of
     Some g \<Rightarrow>
       if mg_enabled g
       then (let (res, g1) = call_gate srv env q args rec g
             in (case res of
                   Inl answer \<Rightarrow> Cp_Done (Ok answer)
                 | Inr (ctx, a) \<Rightarrow> Cp_Gated (Some ctx) a nd c rec, s\<lparr>as_gate := Some g1\<rparr>))
       else (Cp_Gated None args nd c rec, s)
   | None \<Rightarrow> (Cp_Gated None args nd c rec, s))"
| "call_step srv env q (Cp_Gated ctx args nd c rec) s = (case sr_connection rec of
     None \<Rightarrow> (Cp_Done (Err (Internal_Error (''session '' @ quoted (rc_session_id c) @ '' has no active connection''))), s)
   | Some cn \<Rightarrow>
       (case proxy_call_deadline (ca_now env) (sr_kind rec) nd of
          Inl e \<Rightarrow> (Cp_Done (Err e), s)
        | Inr deadline \<Rightarrow>
            (Cp_Calling ctx c cn \<lparr>cp_name = rc_tool_name c, cp_arguments = args\<rparr> deadline,
             s\<lparr>as_registry := snd (bump_last_call (rc_session_id c) (ca_now env) (as_registry s))\<rparr>)))"
| "call_step srv env q (Cp_Calling ctx c cn params deadline) s =
     (let (answer, gate) = call_finish srv env ctx (as_gate s) in (Cp_Done answer, s\<lparr>as_gate := gate\<rparr>))"
| "call_step srv env q (Cp_Done answer) s = (Cp_Done answer, s)"


text \<open>
  A call among everything else that happens in the manager: other calls, frames
  and closings of connections, sweeps, the replay of the outbox, the reading and resetting of
  the cache, and whatever queued and running calls do to the connections and dispatchers. The service \<open>srv\<close> answers every request of the run.
\<close>

definition replay_gate :: "gate_env \<Rightarrow> MaskingGate \<Rightarrow> MaskingGate" where
  "replay_gate srv g = g\<lparr>mg_outbox := map_option (flush_terminal (ge_print srv) (ge_terminal srv) 0) (mg_outbox g)\<rparr>"

inductive call_reaches :: "gate_env \<Rightarrow> CallToolRequest \<Rightarrow> AppState \<Rightarrow> call_phase \<Rightarrow> AppState \<Rightarrow> bool"
  for srv :: gate_env and q :: CallToolRequest and s0 :: AppState where
  cr_start: "call_reaches srv q s0 Cp_Start s0"
| cr_own: "call_reaches srv q s0 ph s \<Longrightarrow> call_step srv env q ph s = (ph', s') \<Longrightarrow> call_reaches srv q s0 ph' s'"
| cr_peer: "call_reaches srv q s0 ph s \<Longrightarrow> call_step srv env q' ph1 s = (ph2, s') \<Longrightarrow> call_reaches srv q s0 ph s'"
| cr_event: "call_reaches srv q s0 ph s \<Longrightarrow> call_reaches srv q s0 ph (manager_step s e)"
| cr_replay: "call_reaches srv q s0 ph s \<Longrightarrow> call_reaches srv q s0 ph (s\<lparr>as_gate := map_option (replay_gate srv) (as_gate s)\<rparr>)"
| cr_cache: "call_reaches srv q s0 ph s \<Longrightarrow> call_reaches srv q s0 ph (s\<lparr>as_registry := with_cache f (as_registry s)\<rparr>)"
| cr_objects: "call_reaches srv q s0 ph s \<Longrightarrow>
    call_reaches srv q s0 ph (s\<lparr>as_registry := (as_registry s)\<lparr>reg_conns := cs, reg_disps := ds\<rparr>\<rparr>)"

section \<open>The gate's configuration never changes\<close>

definition gate_core :: "AppState \<Rightarrow> (bool \<times> string list) option" where
  "gate_core s = map_option (\<lambda>g. (mg_enabled g, mg_internal_tools g)) (as_gate s)"

lemma gate_core_enabled: "gate_enabled s \<longleftrightarrow> (\<exists>ns. gate_core s = Some (True, ns))"
  by (cases "as_gate s") (auto simp: gate_enabled_def gate_core_def)

lemma gate_core_upd [simp]:
  "gate_core (s\<lparr>as_registry := r\<rparr>) = gate_core s" "gate_core (s\<lparr>as_peers := ps\<rparr>) = gate_core s"
  "gate_core (tx_send c m s) = gate_core s"
  by (simp_all add: gate_core_def)

lemma gate_core_register: "gate_core (handle_register env c i params s) = gate_core s"
proof -
  have "map_option (\<lambda>g. (mg_enabled g, mg_internal_tools g)) (snd (resolve_identity env p gate)) =
      map_option (\<lambda>g. (mg_enabled g, mg_internal_tools g)) gate" for p gate
    using resolve_identity_names [of env p gate] by auto
  then show ?thesis
    by (auto simp: handle_register_def send_error_def Let_def split_beta gate_core_def
        split: option.split sum.split RegisterError.split)
qed

lemma gate_core_event [simp]: "gate_core (manager_step s e) = gate_core s"
proof -
  have d: "gate_core (snd (transport_dispatch env c m s)) = gate_core s" for env c m
    by (cases m) (auto simp: handle_request_def gate_core_register send_error_def handle_notification_def
        handle_response_def handle_bye_def Let_def split: option.split)
  show ?thesis
    by (cases e) (auto simp: d reader_step_def send_error_def open_connection_def close_connection_def Let_def
        grace_sweep_def split: ws_frame.split ws_message.split sum.split option.split)
qed

lemma same_outbox: "\<exists>ob. g = g\<lparr>mg_outbox := ob\<rparr>" for g :: MaskingGate
  by (rule exI [of _ "mg_outbox g"]) simp

lemma record_terminal_core: "\<exists>ob. snd (record_terminal srv e g) = g\<lparr>mg_outbox := ob\<rparr>"
  by (auto simp: record_terminal_def same_outbox split: option.splits prod.splits sum.splits)

lemma refuse_core: "\<exists>ob. snd (refuse_recorded srv c code f g) = g\<lparr>mg_outbox := ob\<rparr>"
  using record_terminal_core [of srv "verified_terminal c code" g]
  by (auto simp: refuse_recorded_def split: prod.splits sum.splits)

lemma finalize_core: "\<exists>ob. snd (finalize srv c oc src g) = g\<lparr>mg_outbox := ob\<rparr>"
  using refuse_core [of srv c _ _ g] same_outbox [of g]
  by (auto simp: finalize_def Let_def split_beta split: sum.splits)

lemma call_gate_core: "\<exists>ob. snd (call_gate srv env q args rec g) = g\<lparr>mg_outbox := ob\<rparr>"
proof (cases "verify_database rec")
  case None
  then show ?thesis using record_terminal_core by (auto simp: call_gate_def Let_def split_beta)
next
  case (Some ident)
  let ?c = "call_context ident (rq_caller q) (rq_name q) (ca_call_id env) (ca_correlation_id env)"
  obtain res g1 where p: "preflight srv ?c args g = (res, g1)" by (metis surj_pair)
  have "g1 = g \<or> (\<exists>code f. g1 = snd (refuse_recorded srv ?c code f g))"
    using preflight_cases [OF p] by blast
  then have "\<exists>ob. g1 = g\<lparr>mg_outbox := ob\<rparr>" using refuse_core same_outbox by blast
  then show ?thesis using Some p by (simp add: call_gate_def)
qed

lemma gate_core_call [simp]: "gate_core (snd (call_step srv env q ph s)) = gate_core s"
proof (cases ph)
  case (Cp_Found args nd c rec)
  show ?thesis
  proof (cases "as_gate s")
    case (Some g)
    obtain ob where "snd (call_gate srv env q args rec g) = g\<lparr>mg_outbox := ob\<rparr>"
      using call_gate_core by blast
    with Cp_Found Some show ?thesis by (simp add: gate_core_def split_beta)
  qed (simp add: Cp_Found)
next
  case (Cp_Calling ctx c cn params d)
  show ?thesis
  proof (cases "ctx = None \<or> as_gate s = None")
    case False
    then obtain k g where k: "ctx = Some k" "as_gate s = Some g" by auto
    obtain ob where "snd (finalize srv k (fst (finalize_input env)) (snd (finalize_input env)) g) = g\<lparr>mg_outbox := ob\<rparr>"
      using finalize_core by blast
    with Cp_Calling k show ?thesis by (simp add: gate_core_def call_finish_def split_beta)
  qed (auto simp: Cp_Calling gate_core_def call_finish_def split: option.split)
qed (auto simp: gate_core_def Let_def split_beta split: option.split sum.split ResolveError.split)

lemma gate_core_reaches: "call_reaches srv q s0 ph s \<Longrightarrow> gate_core s = gate_core s0"
proof (induction rule: call_reaches.induct)
  case (cr_own ph s env ph' s')
  then show ?case by (metis gate_core_call snd_conv)
next
  case (cr_peer ph s env q' ph1 ph2 s')
  then show ?case by (metis gate_core_call snd_conv)
next
  case (cr_replay ph s)
  then show ?case by (cases "as_gate s") (simp_all add: gate_core_def replay_gate_def)
qed simp_all


section \<open>What holds in every phase of a call\<close>

text \<open>The service let the call of context \<open>k\<close> go on with arguments \<open>a\<close> in place of \<open>args\<close>.\<close>

definition allowed :: "gate_env \<Rightarrow> MaskingCallContext \<Rightarrow> json \<Rightarrow> json \<Rightarrow> bool" where
  "allowed srv k args a \<longleftrightarrow> (\<exists>p. ge_preflight srv \<lparr>pq_schema_version = 1, pq_context = k, pq_arguments = args\<rparr> = Ok p \<and>
     pr_schema_version p = 1 \<and> pr_decision p = ''allow'' \<and> pr_arguments p = a)"

definition target_ok :: "CallToolRequest \<Rightarrow> json \<Rightarrow> bool \<Rightarrow> ResolvedCall \<Rightarrow> bool" where
  "target_ok q args nd c \<longleftrightarrow> (\<exists>req. extract_manager_arguments (rq_arguments q) = Ok (args, req, nd) \<and>
     rc_tool_name c = rq_name q \<and> (\<forall>sid. req = Some sid \<longrightarrow> rc_session_id c = sid))"

definition masked_ok ::
  "gate_env \<Rightarrow> CallToolRequest \<Rightarrow> bool \<Rightarrow> MaskingCallContext option \<Rightarrow> SessionRecord \<Rightarrow> json \<Rightarrow> json \<Rightarrow> bool" where
  "masked_ok srv q en ctx rec args a \<longleftrightarrow>
     (if en then (\<exists>k. ctx = Some k \<and> allowed srv k args a \<and> mc_tool_name k = rq_name q \<and> from_record rec = Some (mc_database k))
      else ctx = None \<and> a = args)"

fun phase_ok :: "gate_env \<Rightarrow> CallToolRequest \<Rightarrow> bool \<Rightarrow> call_phase \<Rightarrow> bool" where
  "phase_ok srv q en (Cp_Validated args req nd) \<longleftrightarrow> extract_manager_arguments (rq_arguments q) = Ok (args, req, nd)"
| "phase_ok srv q en (Cp_Resolved args nd c) \<longleftrightarrow> target_ok q args nd c"
| "phase_ok srv q en (Cp_Found args nd c rec) \<longleftrightarrow> target_ok q args nd c \<and> sr_state rec = Active"
| "phase_ok srv q en (Cp_Gated ctx a nd c rec) \<longleftrightarrow> (\<exists>args. target_ok q args nd c \<and> sr_state rec = Active \<and>
     masked_ok srv q en ctx rec args a)"
| "phase_ok srv q en (Cp_Calling ctx c cn params d) \<longleftrightarrow> (\<exists>args nd rec now. target_ok q args nd c \<and> sr_state rec = Active \<and>
     masked_ok srv q en ctx rec args (cp_arguments params) \<and> cp_name params = rq_name q \<and> sr_connection rec = Some cn \<and>
     proxy_call_deadline now (sr_kind rec) nd = Ok d)"
| "phase_ok srv q en _ \<longleftrightarrow> True"

lemma resolve_target:
  assumes "resolve_published name (build_proxy_view hash r) req = Ok c"
  shows "rc_tool_name c = name \<and> (\<forall>sid. req = Some sid \<longrightarrow> rc_session_id c = sid)"
  using assms by (auto simp: resolve_by_candidates split: if_splits option.splits list.splits)

lemma call_gate_allows:
  assumes "call_gate srv env q args rec g = (Ok (k, a), g1)"
  shows "allowed srv k args a \<and> mc_tool_name k = rq_name q \<and> from_record rec = Some (mc_database k) \<and> g1 = g"
proof (cases "verify_database rec")
  case None
  with assms show ?thesis by (auto simp: call_gate_def Let_def split_beta)
next
  case (Some ident)
  let ?c = "call_context ident (rq_caller q) (rq_name q) (ca_call_id env) (ca_correlation_id env)"
  have p: "preflight srv ?c args g = (Ok (k, a), g1)"
    using assms Some by (auto simp: call_gate_def Let_def split_beta prod_eq_iff split: sum.splits)
  then have "k = ?c" "g1 = g" "allowed srv ?c args a"
    using preflight_cases [OF p] by (auto simp: allowed_def)
  then show ?thesis using Some by (simp add: call_context_def verify_database_def)
qed

lemma phase_ok_step:
  assumes "phase_ok srv q (gate_enabled s) ph" "call_step srv env q ph s = (ph', s')"
  shows "phase_ok srv q (gate_enabled s) ph'"
proof (cases ph)
  case Cp_Start
  with assms show ?thesis by (auto split: sum.splits option.splits)
next
  case (Cp_Validated args req nd)
  with assms resolve_target [of "rq_name q" "ca_hash env" "as_registry s" req] show ?thesis
    by (auto simp: target_ok_def split: sum.splits ResolveError.splits)
next
  case (Cp_Found args nd c rec)
  show ?thesis
  proof (cases "gate_enabled s")
    case False
    with Cp_Found assms show ?thesis
      by (auto simp: gate_enabled_def masked_ok_def split: option.splits if_splits)
  next
    case True
    then obtain g where g: "as_gate s = Some g" "mg_enabled g" by (auto simp: gate_enabled_def)
    obtain res g1 where cg: "call_gate srv env q args rec g = (res, g1)" by (metis surj_pair)
    show ?thesis
    proof (cases res)
      case (Inl x)
      with cg g Cp_Found assms show ?thesis by auto
    next
      case (Inr x)
      obtain k a where x: "x = (k, a)" by (cases x)
      with cg g Cp_Found assms Inr True call_gate_allows [OF cg [unfolded Inr x]] show ?thesis
        by (auto simp: masked_ok_def)
    qed
  qed
next
  case (Cp_Gated ctx a nd c rec)
  with assms show ?thesis by (auto simp: target_ok_def split: option.splits sum.splits) blast
qed (use assms in \<open>auto simp: Let_def split_beta split: option.splits if_splits\<close>)

lemma reaches_phase_ok: "call_reaches srv q s0 ph s \<Longrightarrow> phase_ok srv q (gate_enabled s0) ph"
proof (induction rule: call_reaches.induct)
  case (cr_own ph s env ph' s')
  have "gate_enabled s = gate_enabled s0"
    using gate_core_reaches [OF cr_own.hyps(1)] by (simp add: gate_core_enabled)
  then show ?case using phase_ok_step [OF _ cr_own.hyps(2)] cr_own.IH by simp
qed simp_all


section \<open>Masked calls\<close>

text \<open>
  C2: with masking enabled no \<open>tool.call\<close> is sent to a client without the
  consent of the service. Whatever else happens in the manager meanwhile, a call that is handed to
  a session's dispatcher was routed to a session found active, the session's database
  was identified, the service answered its preflight with \<open>allow\<close>, and what is
  sent are the service's arguments under the requested name, never the agent's own.
\<close>

theorem masked_call_needs_consent:
  assumes "call_reaches srv q s0 (Cp_Calling ctx c cn params d) s" "gate_enabled s0"
  shows "\<exists>k rec args nd req. ctx = Some k \<and> extract_manager_arguments (rq_arguments q) = Ok (args, req, nd) \<and>
    sr_state rec = Active \<and> sr_connection rec = Some cn \<and> from_record rec = Some (mc_database k) \<and>
    mc_tool_name k = rq_name q \<and> allowed srv k args (cp_arguments params) \<and> cp_name params = rq_name q"
  using reaches_phase_ok [OF assms(1)] assms(2) by (auto simp: masked_ok_def target_ok_def)

definition released :: "gate_env \<Rightarrow> call_env \<Rightarrow> MaskingCallContext \<Rightarrow> call_answer \<Rightarrow> bool" where
  "released srv env k answer \<longleftrightarrow>
     (case ge_finalize srv \<lparr>fq_schema_version = 1, fq_context = k, fq_outcome = fst (finalize_input env),
           fq_field_sources = snd (finalize_input env)\<rparr> of
         Inr p \<Rightarrow> fr_schema_version p = 1 \<and>
             answer = dispatcher_outcome_to_call_result (sd_print (ca_serde env)) (Ok (fr_public_result p)) \<or>
           (\<exists>code \<in> {''MASKING_FAILED'', ''HISTORY_UNAVAILABLE''}.
              answer = Ok (masking_failure_response (with_correlation code UNAVAILABLE (mc_correlation_id k))))
       | Inl err \<Rightarrow> answer = Ok (masking_failure_response (map_client_error err (mc_correlation_id k))) \<or>
           answer = Ok (masking_failure_response (with_correlation ''HISTORY_UNAVAILABLE'' UNAVAILABLE (mc_correlation_id k))))"

lemma call_finish_released:
  assumes "call_finish srv env (Some k) (Some g) = (answer, gate)"
  shows "released srv env k answer"
proof -
  have r: "fst (refuse_recorded srv k code f g) \<in> {f, with_correlation ''HISTORY_UNAVAILABLE'' UNAVAILABLE (mc_correlation_id k)}"
    for code f by (auto simp: refuse_recorded_def split: prod.split sum.split)
  show ?thesis
  proof (cases "ge_finalize srv \<lparr>fq_schema_version = 1, fq_context = k, fq_outcome = fst (finalize_input env),
      fq_field_sources = snd (finalize_input env)\<rparr>")
    case (Inl err)
    then show ?thesis
      using assms r [of "terminal_fallback_code (mf_code (map_client_error err (mc_correlation_id k)))"
          "map_client_error err (mc_correlation_id k)"]
      by (auto simp: released_def call_finish_def finalize_def Let_def split_beta)
  next
    case (Inr p)
    then show ?thesis
      using assms r [of "''MASKING_FAILED''" "with_correlation ''MASKING_FAILED'' UNAVAILABLE (mc_correlation_id k)"]
      by (auto simp: released_def call_finish_def finalize_def split_beta split: if_splits)
  qed
qed

lemma call_gate_outcome [simp]: "call_gate srv (env\<lparr>ca_outcome := x\<rparr>) q args rec g = call_gate srv env q args rec g"
  by (simp add: call_gate_def Let_def split_beta split: option.split sum.split)

text \<open>
  C1: agents see only what the service releases. With masking enabled, no step
  before the call's last one looks at what the client returned; and the last one answers with
  the public result of the service for this very call, or with a failure made
  from the service's error or from fixed texts. The client's own result, or its error, never
  becomes the answer.
\<close>

theorem agents_see_only_released_results:
  assumes "call_reaches srv q s0 ph s" "gate_enabled s0" "call_step srv env q ph s = (Cp_Done answer, s')"
  shows "case ph of
      Cp_Calling ctx c cn params d \<Rightarrow> \<exists>k. ctx = Some k \<and> released srv env k answer
    | _ \<Rightarrow> \<forall>x. call_step srv (env\<lparr>ca_outcome := x\<rparr>) q ph s = (Cp_Done answer, s')"
proof (cases "\<exists>ctx c cn params d. ph = Cp_Calling ctx c cn params d")
  case True
  then obtain ctx c cn params d where ph: "ph = Cp_Calling ctx c cn params d" by blast
  obtain k where k: "ctx = Some k" using reaches_phase_ok [OF assms(1)] assms(2) ph by (auto simp: masked_ok_def)
  obtain g where g: "as_gate s = Some g"
    using gate_core_reaches [OF assms(1)] assms(2) by (cases "as_gate s") (auto simp: gate_core_enabled gate_core_def)
  have "released srv env k answer"
    using assms(3) call_finish_released [of srv env k g] by (auto simp: ph k g split: prod.splits)
  with ph k show ?thesis by simp
next
  case False
  then have "call_step srv (env\<lparr>ca_outcome := x\<rparr>) q ph s = (Cp_Done answer, s')" for x
    unfolding assms(3) [symmetric] by (cases ph) (simp_all split: option.split sum.split)
  with False show ?thesis by (cases ph) simp_all
qed

section \<open>An example call\<close>

definition call_params_sample :: SessionRegisterParams where
  "call_params_sample = sample_params\<lparr>rp_cluster_server := Some ''srv'', rp_database_key := Some ''gen:srv/ib''\<rparr>"

definition call_app :: AppState where
  "call_app = \<lparr>as_registry = snd (register_with_generation sample_env call_params_sample 0 (Some 0) registry_new),
     as_gate = Some sample_gate, as_peers = (\<lambda>_. None)\<rparr>"

definition call_request :: CallToolRequest where
  "call_request = \<lparr>rq_name = ''find'', rq_arguments = None,
     rq_caller = \<lparr>ci_mcp_session_id = None, ci_client_name = None, ci_client_version = None\<rparr>\<rparr>"

definition call_env_sample :: call_env where
  "call_env_sample = \<lparr>ca_hash = (\<lambda>_. ''h''), ca_serde = time_serde, ca_utc = 0, ca_now = 0, ca_call_id = ''call'',
     ca_correlation_id = ''corr'', ca_repeats = (\<lambda>_. []), ca_outcome = Err SessionGone\<rparr>"

lemma call_app_fields:
  "reg_inner (as_registry call_app) = [(''s1'', new_record call_params_sample 0 (Some 0) 1 0)]"
  "candidates (as_registry call_app) ''find'' = [''s1'']" "as_gate call_app = Some sample_gate"
  by (simp_all add: call_app_def call_params_sample_def reg_eval sample_params_def candidates_def offers_def offer_ids_def
      reg_snapshot_def public_tools_def sample_tool_def)

lemma call_reaches_client:
  assumes "ge_preflight srv \<lparr>pq_schema_version = 1, pq_context = sample_context, pq_arguments = JObject []\<rparr> =
      Ok \<lparr>pr_schema_version = 1, pr_decision = ''allow'', pr_arguments = a\<rparr>"
  shows "\<exists>s. call_reaches srv call_request call_app
     (Cp_Calling (Some sample_context) \<lparr>rc_session_id = ''s1'', rc_tool_name = ''find''\<rparr> 0
        \<lparr>cp_name = ''find'', cp_arguments = a\<rparr> (Some 60000)) s \<and> as_gate s = Some sample_gate"
proof -
  let ?c = "\<lparr>rc_session_id = ''s1'', rc_tool_name = ''find''\<rparr>"
  let ?rec = "new_record call_params_sample 0 (Some 0) 1 0"
  note step = call_reaches.cr_own [of srv call_request call_app _ call_app call_env_sample]
  have ctx: "call_context \<lparr>di_instance_id = ''gen:srv/ib'', di_cluster_server = ''srv'', di_infobase_name = ''ib''\<rparr>
      (rq_caller call_request) (rq_name call_request) (ca_call_id call_env_sample) (ca_correlation_id call_env_sample) = sample_context"
    by (simp add: call_context_def call_request_def caller_label_def raw_label_def nonempty_def sample_context_def call_env_sample_def)
  have "call_reaches srv call_request call_app (Cp_Validated (JObject []) None False) call_app"
    by (rule step [OF cr_start])
       (simp add: call_request_def extract_manager_arguments_def bm_del_def)
  then have "call_reaches srv call_request call_app (Cp_Resolved (JObject []) False ?c) call_app"
    by (rule step) (simp add: call_request_def resolve_by_candidates call_app_fields)
  then have "call_reaches srv call_request call_app (Cp_Found (JObject []) False ?c ?rec) call_app"
    by (rule step) (simp add: reg_get_def call_app_fields new_record_def)
  then have "call_reaches srv call_request call_app
      (Cp_Gated (Some sample_context) a False ?c ?rec) call_app"
    by (rule step)
       (simp add: call_app_fields sample_gate_def call_gate_def verify_database_def from_record_def new_record_def
        call_params_sample_def preflight_def sample_params_def ctx assms call_app_def)
  from call_reaches.cr_own [OF this, of call_env_sample] show ?thesis
    by (auto simp: call_app_fields new_record_def proxy_call_deadline_def call_params_sample_def sample_params_def call_env_sample_def
        CLIENT_PROXY_CALL_TIMEOUT_SECS_def)
qed

lemma sample_call_reaches:
  "\<exists>s. call_reaches allow_env call_request call_app
     (Cp_Calling (Some sample_context) \<lparr>rc_session_id = ''s1'', rc_tool_name = ''find''\<rparr> 0
        \<lparr>cp_name = ''find'', cp_arguments = JObject []\<rparr> (Some 60000)) s \<and> as_gate s = Some sample_gate"
  by (rule call_reaches_client) (simp add: allow_env_def)

theorem masked_call_needs_consent_witness:
  "\<exists>args. allowed allow_env sample_context args (JObject [])"
proof -
  obtain s where s: "call_reaches allow_env call_request call_app
     (Cp_Calling (Some sample_context) \<lparr>rc_session_id = ''s1'', rc_tool_name = ''find''\<rparr> 0
        \<lparr>cp_name = ''find'', cp_arguments = JObject []\<rparr> (Some 60000)) s"
    using sample_call_reaches by blast
  have "gate_enabled call_app" by (simp add: gate_enabled_def call_app_def sample_gate_def)
  from masked_call_needs_consent [OF s this] show ?thesis by auto
qed

theorem agents_see_only_released_results_witness:
  "released allow_env call_env_sample sample_context
     (Ok (masking_failure_response (with_correlation ''MASKING_TIMEOUT'' UNAVAILABLE ''corr'')))"
proof -
  let ?ph = "Cp_Calling (Some sample_context) \<lparr>rc_session_id = ''s1'', rc_tool_name = ''find''\<rparr> 0
        \<lparr>cp_name = ''find'', cp_arguments = JObject []\<rparr> (Some 60000)"
  let ?ans = "Ok (masking_failure_response (with_correlation ''MASKING_TIMEOUT'' UNAVAILABLE ''corr''))"
  obtain s where s: "call_reaches allow_env call_request call_app ?ph s" "as_gate s = Some sample_gate"
    using sample_call_reaches by blast
  have en: "gate_enabled call_app" by (simp add: gate_enabled_def call_app_def sample_gate_def)
  have "fst (call_step allow_env call_env_sample call_request ?ph s) = Cp_Done ?ans"
    using s(2)
    by (simp add: call_finish_def finalize_def refuse_recorded_def record_terminal_def outbox_enqueue_def valid_terminal_def
        verified_terminal_def valid_caller_def verified_codes_def outbox_persist_def write_json_atomic_def flush_terminal.simps
        allow_env_def sample_gate_def empty_outbox_def sample_context_def call_env_sample_def terminal_fallback_code_def
        MAX_TERMINAL_OUTBOX_EVENTS_def with_correlation_def terminal_delivery_ack_def split_beta)
  then have "call_step allow_env call_env_sample call_request ?ph s =
      (Cp_Done ?ans, snd (call_step allow_env call_env_sample call_request ?ph s))"
    by (metis prod.collapse)
  from agents_see_only_released_results [OF s(1) en this] show ?thesis by simp
qed

end
