(* ===== verification/Mcp_Calls.thy ===== *)
theory Mcp_Calls
  imports Mcp_Server
begin

text \<open>
  What agents can rely on (\<open>src/mcp/server.rs\<close>): where a call goes and how long
  it may take, that it ends, what its arguments become, what happens to a session without a
  database, and what the tool list shows.
\<close>

section \<open>Target, arguments and deadline\<close>

text \<open>
  The manager's own arguments never reach a client, and nothing else is
  lost. When the arguments of a call are accepted, what is passed on is an object without the two
  reserved keys that agrees with the agent's object everywhere else; a requested
  session is a non-empty string of the agent, and the deadline is waived only on an explicit
  \<open>true\<close>.
\<close>

theorem manager_arguments_are_stripped:
  assumes "extract_manager_arguments arguments = Ok (args, req, nd)"
  shows "\<exists>m. args = JObject m \<and>
    (\<forall>k. map_of m k = (if k = SESSION_ID_ARGUMENT \<or> k = MANAGER_CALL_OPTIONS_KEY then None
       else map_of (unwrap_or [] arguments) k)) \<and>
    map_of (unwrap_or [] arguments) SESSION_ID_ARGUMENT = map_option JString req \<and> req \<noteq> Some [] \<and>
    (nd \<longrightarrow> (\<exists>options. map_of (unwrap_or [] arguments) MANAGER_CALL_OPTIONS_KEY = Some (JObject options) \<and>
       map_of options MANAGER_NO_DEADLINE_KEY = Some (JBool True)))"
proof -
  let ?m = "unwrap_or [] arguments"
  have ne: "SESSION_ID_ARGUMENT \<noteq> MANAGER_CALL_OPTIONS_KEY"
    by (simp add: SESSION_ID_ARGUMENT_def MANAGER_CALL_OPTIONS_KEY_def)
  have sid: "map_of ?m SESSION_ID_ARGUMENT = map_option JString req \<and> req \<noteq> Some []"
    using assms by (auto simp: extract_manager_arguments_def Let_def split: option.splits json.splits bool.splits if_splits)
  show ?thesis
  proof (cases "map_of ?m MANAGER_CALL_OPTIONS_KEY")
    case None
    then show ?thesis
      using assms sid ne
      by (auto simp: extract_manager_arguments_def Let_def bm_del_get split: option.splits json.splits if_splits)
  next
    case (Some v)
    then show ?thesis
      using assms sid ne
      by (auto simp: extract_manager_arguments_def Let_def bm_del_get
          split: option.splits json.splits if_splits bool.splits)
  qed
qed

theorem manager_arguments_are_stripped_witness:
  "map_of [(''_v8_call_options'', JObject [(''no_deadline'', JBool True)]), (''q'', JNull), (''session_id'', JString ''s1'')]
     SESSION_ID_ARGUMENT = Some (JString ''s1'')"
proof -
  let ?a = "[(''_v8_call_options'', JObject [(''no_deadline'', JBool True)]), (''q'', JNull), (''session_id'', JString ''s1'')]"
  have "extract_manager_arguments (Some ?a) = Ok (JObject [(''q'', JNull)], Some ''s1'', True)"
    by (simp add: extract_manager_arguments_def SESSION_ID_ARGUMENT_def MANAGER_CALL_OPTIONS_KEY_def
        MANAGER_NO_DEADLINE_KEY_def bm_del_def)
  from manager_arguments_are_stripped [OF this] show ?thesis by auto
qed

text \<open>
  A call goes where the agent asked and is bounded in time. If it reaches a
  dispatcher, then for the session the agent named, if it named one, and under the tool's
  name; without masking with the agent's own arguments; and with a deadline of one
  minute, of one hour for a server session, or without one only for a server session whose caller
  asked for that.
\<close>

theorem call_target_and_deadline:
  assumes "call_reaches srv q s0 (Cp_Calling ctx c cn params d) s"
  shows "\<exists>args req nd (rec :: SessionRecord) now. extract_manager_arguments (rq_arguments q) = Ok (args, req, nd) \<and>
    sr_state rec = Active \<and> sr_connection rec = Some cn \<and>
    cp_name params = rq_name q \<and> (\<forall>sid. req = Some sid \<longrightarrow> rc_session_id c = sid) \<and>
    (\<not> gate_enabled s0 \<longrightarrow> cp_arguments params = args) \<and>
    d = (if nd then None else Some (now + (if sr_kind rec = ''server'' then 3600000 else 60000))) \<and>
    (nd \<longrightarrow> sr_kind rec = ''server'')"
proof -
  from reaches_phase_ok [OF assms] obtain args nd rec now req where f:
    "extract_manager_arguments (rq_arguments q) = Ok (args, req, nd)" "\<forall>sid. req = Some sid \<longrightarrow> rc_session_id c = sid"
    "sr_state rec = Active" "masked_ok srv q (gate_enabled s0) ctx rec args (cp_arguments params)"
    "cp_name params = rq_name q" "sr_connection rec = Some cn" "proxy_call_deadline now (sr_kind rec) nd = Ok d"
    by (auto simp: target_ok_def)
  have "d = (if nd then None else Some (now + (if sr_kind rec = ''server'' then 3600000 else 60000))) \<and>
      (nd \<longrightarrow> sr_kind rec = ''server'')"
    using f(7) by (auto simp: proxy_call_deadline_def CLIENT_PROXY_CALL_TIMEOUT_SECS_def
        SERVER_PROXY_CALL_TIMEOUT_SECS_def split: if_splits)
  moreover have "\<not> gate_enabled s0 \<longrightarrow> cp_arguments params = args" using f(4) by (simp add: masked_ok_def)
  ultimately show ?thesis
    using f by blast
qed

theorem call_target_and_deadline_witness:
  "\<exists>args req nd. extract_manager_arguments (rq_arguments call_request) = Ok (args, req, nd) \<and> \<not> nd"
proof -
  obtain s where "call_reaches allow_env call_request call_app
     (Cp_Calling (Some sample_context) \<lparr>rc_session_id = ''s1'', rc_tool_name = ''find''\<rparr> 0
        \<lparr>cp_name = ''find'', cp_arguments = JObject []\<rparr> (Some 60000)) s"
    using sample_call_reaches by blast
  from call_target_and_deadline [OF this] show ?thesis by auto
qed

section \<open>Every call is answered\<close>

fun call_rank :: "call_phase \<Rightarrow> nat" where
  "call_rank Cp_Start = 6"
| "call_rank (Cp_Validated _ _ _) = 5"
| "call_rank (Cp_Resolved _ _ _) = 4"
| "call_rank (Cp_Found _ _ _ _) = 3"
| "call_rank (Cp_Gated _ _ _ _ _) = 2"
| "call_rank (Cp_Calling _ _ _ _ _) = 1"
| "call_rank Cp_Unrouted = 1"
| "call_rank (Cp_Done _) = 0"

lemma call_rank_step: "call_rank (fst (call_step srv env q ph s)) \<le> call_rank ph - 1"
  by (cases ph) (auto simp: Let_def split_beta split: option.split sum.split ResolveError.split)

lemma call_rank_done: "call_rank ph = 0 \<longleftrightarrow> (\<exists>a. ph = Cp_Done a)"
  by (cases ph) auto

text \<open>The steps of one call; before each of them the other tasks change the state.\<close>

fun call_exec :: "gate_env \<Rightarrow> CallToolRequest \<Rightarrow> (call_env \<times> (AppState \<Rightarrow> AppState)) list \<Rightarrow> call_phase \<Rightarrow> AppState \<Rightarrow>
    call_phase \<times> AppState" where
  "call_exec srv q [] ph s = (ph, s)"
| "call_exec srv q ((env, others) # es) ph s =
     (let (ph', s') = call_step srv env q ph (others s) in call_exec srv q es ph' s')"

lemma call_exec_rank: "call_rank (fst (call_exec srv q es ph s)) \<le> call_rank ph - length es"
proof (induction es arbitrary: ph s)
  case (Cons e es)
  obtain env others where e: "e = (env, others)" by (cases e)
  obtain ph' s' where st: "call_step srv env q ph (others s) = (ph', s')" by (metis surj_pair)
  have "call_rank ph' \<le> call_rank ph - 1" using call_rank_step [of srv env q ph "others s"] st by simp
  with Cons.IH [of ph' s'] show ?case by (simp add: e st)
qed simp



section \<open>Refusals around the gate\<close>

text \<open>
  C25: A session without an identified database is refused before the service is
  asked. The answer is \<open>DATABASE_IDENTITY_UNVERIFIED\<close>, given only after its terminal event is
  in the outbox, or else \<open>HISTORY_UNAVAILABLE\<close>; the service's preflight has no part
  in it.
\<close>

theorem unidentified_database_is_refused:
  assumes "from_record rec = None" "as_gate s = Some g" "mg_enabled g"
    and "call_step srv env q (Cp_Found args nd c rec) s = (ph, s')"
  shows "\<exists>code. ph = Cp_Done (Ok (masking_failure_response
        (with_correlation code (if code = ''HISTORY_UNAVAILABLE'' then UNAVAILABLE else IDENTITY_UNVERIFIED_MESSAGE) (ca_correlation_id env)))) \<and>
      (code = ''HISTORY_UNAVAILABLE'' \<or> code = ''DATABASE_IDENTITY_UNVERIFIED'' \<and>
        (\<exists>ob ob1. mg_outbox g = Some ob \<and> outbox_enqueue (ge_print srv) (ge_uuid srv)
           (unverified_terminal (ca_call_id env) (ca_correlation_id env) (rq_name q) code) ob = (Ok (), ob1))) \<and>
      (\<forall>pf. call_step (srv\<lparr>ge_preflight := pf\<rparr>) env q (Cp_Found args nd c rec) s = (ph, s'))"
proof -
  let ?t = "unverified_terminal (ca_call_id env) (ca_correlation_id env) (rq_name q) ''DATABASE_IDENTITY_UNVERIFIED''"
  have pf: "record_terminal (srv\<lparr>ge_preflight := pf\<rparr>) ?t g = record_terminal srv ?t g" for pf
    by (simp add: record_terminal_def split_beta split: option.split sum.split)
  obtain res g1 where r: "record_terminal srv ?t g = (res, g1)" by (metis surj_pair)
  have step: "call_step (srv\<lparr>ge_preflight := pf\<rparr>) env q (Cp_Found args nd c rec) s = (ph, s')" for pf
    using assms by (simp add: call_gate_def verify_database_def with_correlation_def pf)
  show ?thesis
  proof (cases res)
    case (Inl err)
    with assms r step show ?thesis
      by (intro exI [of _ "''HISTORY_UNAVAILABLE''"]) (auto simp: call_gate_def verify_database_def with_correlation_def)
  next
    case (Inr u)
    obtain ob ob1 where "mg_outbox g = Some ob" "outbox_enqueue (ge_print srv) (ge_uuid srv) ?t ob = (Ok (), ob1)"
      using r Inr by (auto simp: record_terminal_def split: option.splits prod.splits sum.splits)
    with assms r Inr step show ?thesis
      by (intro exI [of _ "''DATABASE_IDENTITY_UNVERIFIED''"]) (auto simp: call_gate_def verify_database_def with_correlation_def)
  qed
qed

theorem unidentified_database_is_refused_witness:
  "\<exists>answer. fst (call_step allow_env call_env_sample call_request
     (Cp_Found JNull False \<lparr>rc_session_id = ''s1'', rc_tool_name = ''find''\<rparr> (new_record sample_params 0 (Some 0) 1 0)) call_app) =
     Cp_Done (Ok (masking_failure_response answer))"
proof -
  obtain ph s' where st: "call_step allow_env call_env_sample call_request
     (Cp_Found JNull False \<lparr>rc_session_id = ''s1'', rc_tool_name = ''find''\<rparr> (new_record sample_params 0 (Some 0) 1 0)) call_app = (ph, s')"
    by (metis surj_pair)
  have "from_record (new_record sample_params 0 (Some 0) 1 0) = None" "as_gate call_app = Some sample_gate" "mg_enabled sample_gate"
    by (simp_all add: from_record_def new_record_def sample_params_def call_app_fields sample_gate_def)
  from unidentified_database_is_refused [OF this st] show ?thesis unfolding st fst_conv by blast
qed

text \<open>
  A call the service has allowed can still end without a word to the
  service. If the agent waives the deadline of a session that is not a server session, the
  refusal comes after the preflight: the call ends with an error, and neither a
  finalization nor a terminal event is recorded, whatever the service would answer.
\<close>

theorem allowed_call_can_end_unrecorded:
  assumes "sr_kind rec \<noteq> ''server''" "sr_connection rec = Some cn"
  shows "\<exists>e. call_step srv env q (Cp_Gated (Some k) a True c rec) s = (Cp_Done (Err e), s)"
  using assms by (simp add: proxy_call_deadline_def)

theorem allowed_call_can_end_unrecorded_witness:
  "\<exists>e. call_step allow_env call_env_sample call_request (Cp_Gated (Some sample_context) JNull True
     \<lparr>rc_session_id = ''s1'', rc_tool_name = ''find''\<rparr> (new_record sample_params 0 (Some 0) 1 0)) call_app = (Cp_Done (Err e), call_app)"
  by (rule allowed_call_can_end_unrecorded [where cn = 0]) (simp_all add: new_record_def sample_params_def)


section \<open>The tool list\<close>

text \<open>The cached tools the loop appends: \<open>seen\<close> are the names already listed.\<close>

definition public_items :: "(ToolsCacheEntry \<times> ToolDescriptor) set \<Rightarrow> (ToolsCacheEntry \<times> ToolDescriptor) set" where
  "public_items items = {it \<in> items. is_public (td_visibility (snd it))}"

definition appended :: "string set \<Rightarrow> (ToolsCacheEntry \<times> ToolDescriptor) set \<Rightarrow> mcp_tool list \<Rightarrow> bool" where
  "appended seen items extra \<longleftrightarrow> distinct (map mt_name extra) \<and> mt_name ` set extra \<inter> seen = {} \<and>
     set extra \<subseteq> case_prod cached_tool ` public_items items \<and>
     (td_name \<circ> snd) ` public_items items \<subseteq> seen \<union> mt_name ` set extra"

lemma public_items_insert:
  "public_items (insert (e, t) items) =
     (if is_public (td_visibility t) then insert (e, t) (public_items items) else public_items items)"
  by (auto simp: public_items_def)

lemma cached_tool_name [simp]: "mt_name (cached_tool e t) = td_name t"
  by (simp add: cached_tool_def)

lemma appended_skip:
  assumes "appended seen items extra" "is_public (td_visibility t) \<longrightarrow> td_name t \<in> seen"
  shows "appended seen (insert (e, t) items) extra"
  using assms unfolding appended_def public_items_insert by (auto simp del: comp_apply simp: comp_def)

lemma appended_take:
  assumes "appended (insert (td_name t) seen) items extra" "is_public (td_visibility t)" "td_name t \<notin> seen"
  shows "appended seen (insert (e, t) items) (cached_tool e t # extra)"
  using assms unfolding appended_def public_items_insert by auto

lemma fold_add_cached:
  "\<exists>extra. snd (fold add_cached items (seen, tools)) = tools @ extra \<and> appended (set seen) (set items) extra"
proof (induction items arbitrary: seen tools)
  case Nil
  show ?case by (simp add: appended_def public_items_def)
next
  case (Cons it items)
  obtain e t where it: "it = (e, t)" by (cases it)
  show ?case
  proof (cases "is_public (td_visibility t) \<and> td_name t \<notin> set seen")
    case False
    then show ?thesis
      using Cons.IH [of seen tools] appended_skip [of "set seen" "set items" _ t e] by (auto simp: it)
  next
    case True
    from Cons.IH [of "td_name t # seen" "tools @ [cached_tool e t]"] obtain extra where
      "snd (fold add_cached items (td_name t # seen, tools @ [cached_tool e t])) = tools @ cached_tool e t # extra"
      "appended (insert (td_name t) (set seen)) (set items) extra" by auto
    with True appended_take [of t "set seen" "set items" extra e] show ?thesis
      by (intro exI [of _ "cached_tool e t # extra"]) (simp add: it)
  qed
qed

text \<open>What a configuration's cached snapshot offers once its last client is gone.\<close>

definition cache_offers :: "serde \<Rightarrow> utc \<Rightarrow> SessionRegistry \<Rightarrow> string \<Rightarrow> bool" where
  "cache_offers sd now r name \<longleftrightarrow> (\<exists>e \<in> set (fst (cache_read sd now r)). \<exists>t \<in> set (ce_tools e).
     td_name t = name \<and> is_public (td_visibility t))"

lemma set_cache_items: "(e, t) \<in> set (cache_items es) \<longleftrightarrow> e \<in> set es \<and> t \<in> set (ce_tools e)"
  by (auto simp: cache_items_def)

lemma live_names:
  assumes "reg_inv r"
  shows "name \<in> mt_name ` set (proxy_tools (build_proxy_view hash r)) \<longleftrightarrow> (\<exists>sid. publishes r sid name)"
proof -
  have "name \<in> mt_name ` set (proxy_tools (build_proxy_view hash r)) \<longleftrightarrow> map_of (group_tools hash r) name \<noteq> None"
    by (force simp: proxy_tools_def published_slot image_iff)
  also have "\<dots> \<longleftrightarrow> candidates r name \<noteq> []" by (simp add: group_tools_none)
  also have "\<dots> \<longleftrightarrow> (\<exists>sid. sid \<in> set (candidates r name))" by (cases "candidates r name") auto
  finally show ?thesis using candidate_iff [OF assms] by blast
qed

text \<open>
  C22: The tool list of agents is complete, shows nothing internal, and never
  lists a cached tool twice or beside a live one. It begins with the built-in tools and the tools of
  the active sessions; what follows are cached tools under new names, each once. A name
  is listed exactly if it is built in, published by an active session, or a public tool of a
  cache entry that has not expired.
\<close>

theorem tool_list_is_exact:
  assumes "reg_inv r" "list_all_tools_inner builtin hash sd now r = (tools, r')"
  shows "\<exists>extra. tools = builtin @ proxy_tools (build_proxy_view hash r) @ extra \<and> distinct (map mt_name extra) \<and>
      mt_name ` set extra \<inter> mt_name ` set (builtin @ proxy_tools (build_proxy_view hash r)) = {} \<and>
      (\<forall>name. name \<in> mt_name ` set tools \<longleftrightarrow> name \<in> mt_name ` set builtin \<or> (\<exists>sid. publishes r sid name) \<or> cache_offers sd now r name)"
proof -
  let ?live = "proxy_tools (build_proxy_view hash r)"
  let ?items = "cache_items (fst (cache_read sd now r))"
  have t: "tools = snd (fold add_cached ?items (map mt_name (builtin @ ?live), builtin @ ?live))"
    using assms(2) by (auto simp: list_all_tools_inner_def Let_def split_beta)
  from fold_add_cached [of ?items "map mt_name (builtin @ ?live)" "builtin @ ?live"] obtain extra where
    x: "tools = builtin @ ?live @ extra" "appended (mt_name ` set (builtin @ ?live)) (set ?items) extra"
    unfolding t by (auto simp: image_Un)
  have items: "cache_offers sd now r name \<longleftrightarrow> name \<in> (td_name \<circ> snd) ` public_items (set ?items)" for name
    unfolding cache_offers_def public_items_def image_iff Bex_def by (auto simp: set_cache_items)
  have new: "cache_offers sd now r name" if n: "name \<in> mt_name ` set extra" for name
  proof -
    obtain x where "x \<in> set extra" "mt_name x = name" using n by blast
    with x(2) obtain e t where "(e, t) \<in> public_items (set ?items)" "name = td_name t"
      unfolding appended_def by (auto dest!: subsetD)
    then show ?thesis unfolding items by force
  qed
  have all: "name \<in> mt_name ` set tools" if "cache_offers sd now r name" for name
    using x(2) that unfolding appended_def items x(1) by (auto simp: image_Un)
  have "name \<in> mt_name ` set tools \<longleftrightarrow> name \<in> mt_name ` set builtin \<or> (\<exists>sid. publishes r sid name) \<or> cache_offers sd now r name" for name
    using new [of name] all [of name] unfolding x(1) set_append image_Un Un_iff live_names [OF assms(1)] by blast
  with x show ?thesis unfolding appended_def by blast
qed

theorem tool_list_is_exact_witness:
  "''find'' \<in> mt_name ` set (fst (list_all_tools_inner [] (\<lambda>_. ''h'') time_serde 0 sample_reg))"
proof -
  have "publishes sample_reg ''s1'' ''find''"
    by (simp add: publishes_def sample_reg_inner new_record_def sample_params_def sample_tool_def)
  then show ?thesis
    using tool_list_is_exact [OF sample_reg_inv prod.collapse [symmetric], of "[]" "\<lambda>_. ''h''" time_serde 0] by blast
qed

text \<open>A live tool named like a built-in one is listed beside it, and is never reached.\<close>

lemma live_tool_can_shadow_builtin:
  assumes "reg_inv r" "publishes r sid (mt_name b)" "b \<in> set builtin"
  shows "\<not> distinct (map mt_name (fst (list_all_tools_inner builtin hash sd now r)))"
proof -
  from fold_add_cached [of "cache_items (fst (cache_read sd now r))"
      "map mt_name (builtin @ proxy_tools (build_proxy_view hash r))" "builtin @ proxy_tools (build_proxy_view hash r)"]
  obtain extra where "fst (list_all_tools_inner builtin hash sd now r) = builtin @ proxy_tools (build_proxy_view hash r) @ extra"
    by (auto simp: list_all_tools_inner_def Let_def split_beta)
  moreover have "mt_name b \<in> mt_name ` set (proxy_tools (build_proxy_view hash r))"
    using live_names [OF assms(1)] assms(2) by blast
  ultimately show ?thesis using assms(3) by auto
qed

end
