(* ===== verification/Shared_Objects.thy ===== *)
theory Shared_Objects
  imports Mcp_Calls
begin

text \<open>
  What the rest of the manager can do to the connections and dispatchers that a call holds: the interface
  between the calls of \<open>src/session_manager/dispatcher.rs\<close> and the tasks that share their objects with
  them, the transport, the registry and the shutdowns.
\<close>

section \<open>A connection in other hands\<close>

text \<open>
  Requests are added, waiting ones may lose their sender, and a waiting one is completed only with an answer
  \<open>P\<close> to its own id; the receivers in \<open>X\<close> may be dropped. The table stays sound, and a drained connection stays drained.
\<close>

definition table_ok :: "ConnectionHandle \<Rightarrow> bool" where
  "table_ok h \<longleftrightarrow> (\<forall>i x. (i, x) \<in> set (pending h) \<longrightarrow> x < next_cell h) \<and> (\<not> conn_is_active h \<longrightarrow> pending h = [])"

definition conn_env :: "nat set \<Rightarrow> (Id \<Rightarrow> (JsonRpcError, json) res \<Rightarrow> bool) \<Rightarrow> ConnectionHandle \<Rightarrow> ConnectionHandle \<Rightarrow> bool" where
  "conn_env X P h h' \<longleftrightarrow> next_cell h \<le> next_cell h' \<and> set (sent h) \<subseteq> set (sent h') \<and>
     (\<forall>x < next_cell h. x \<notin> X \<longrightarrow> cells h x \<noteq> ReceiverDropped \<longrightarrow> cells h' x \<noteq> ReceiverDropped) \<and>
     (\<forall>x < next_cell h. \<forall>a. cells h' x = Full a \<longrightarrow> cells h x = Full a \<or> (\<exists>i. P i a \<and> (i, x) \<in> set (pending h))) \<and>
     (\<forall>i x. (i, x) \<in> set (pending h') \<longrightarrow> x < next_cell h \<longrightarrow> (i, x) \<in> set (pending h)) \<and>
     (covered h \<longrightarrow> covered h') \<and> (table_ok h \<longrightarrow> table_ok h') \<and> (\<not> conn_is_active h \<longrightarrow> \<not> conn_is_active h')"

named_theorems conn_env_intros

lemma conn_env_refl [conn_env_intros, simp]: "conn_env X P h h"
  by (simp add: conn_env_def)

lemma conn_env_trans:
  assumes "conn_env X P h h1" "conn_env X P h1 h2"
  shows "conn_env X P h h2"
proof -
  have less: "x < next_cell h1" if "x < next_cell h" for x
    using assms(1) that by (simp add: conn_env_def)
  show ?thesis
    unfolding conn_env_def
  proof (intro conjI allI impI)
    show "next_cell h \<le> next_cell h2" "set (sent h) \<subseteq> set (sent h2)"
      using assms by (auto simp: conn_env_def)
    show "cells h2 x \<noteq> ReceiverDropped" if "x < next_cell h" "x \<notin> X" "cells h x \<noteq> ReceiverDropped" for x
      using assms that less unfolding conn_env_def by blast
    show "cells h x = Full a \<or> (\<exists>i. P i a \<and> (i, x) \<in> set (pending h))" if "x < next_cell h" "cells h2 x = Full a" for x a
      using assms that less unfolding conn_env_def by meson
    show "(i, x) \<in> set (pending h)" if "(i, x) \<in> set (pending h2)" "x < next_cell h" for i x
      using assms that less unfolding conn_env_def by blast
    show "covered h2" if "covered h" using assms that by (simp add: conn_env_def)
    show "table_ok h2" if "table_ok h" using assms that by (simp add: conn_env_def)
    show "\<not> conn_is_active h2" if "\<not> conn_is_active h" using assms that by (simp add: conn_env_def)
  qed
qed

lemma conn_env_weaken: "conn_env X P h h' \<Longrightarrow> X \<subseteq> Y \<Longrightarrow> (\<And>i a. P i a \<Longrightarrow> Q i a) \<Longrightarrow> conn_env Y Q h h'"
  unfolding conn_env_def by blast

lemma conn_env_sent [conn_env_intros]: "conn_env X P h (h\<lparr>sent := sent h @ ms\<rparr>)"
  by (auto simp: conn_env_def covered_def table_ok_def conn_is_active_def)

lemma conn_env_cancel [conn_env_intros]: "conn_env X P h (cancel_pending i h)"
proof -
  have "covered h \<longrightarrow> covered (cancel_pending i h)" by (simp add: covered_cancel)
  then show ?thesis
    by (auto simp: conn_env_def table_ok_def cancel_pending_def drop_sender_def set_hm_del conn_is_active_def split: option.splits)
qed

lemma conn_env_complete: "conn_env X (\<lambda>i' a'. i' = i \<and> a' = a) h (snd (complete_response i a h))"
proof -
  have "covered h \<longrightarrow> covered (snd (complete_response i a h))" by (simp add: covered_complete)
  then show ?thesis
    by (auto simp: conn_env_def table_ok_def complete_response_def Let_def set_hm_del conn_is_active_def dest: map_of_SomeD
        split: option.splits)
qed

lemma conn_env_drain [conn_env_intros]: "conn_env X P h ((drain_pending h)\<lparr>receiver_open := b\<rparr>)" "conn_env X P h (drain_pending h)"
  by (auto simp: conn_env_def table_ok_def drain_cells covered_def conn_is_active_def)

lemma conn_env_drop: "conn_env {x} P h (drop_receiver x h)"
  using covered_drop_receiver [of h x]
  by (auto simp: conn_env_def table_ok_def drop_receiver_def conn_is_active_def)

text \<open>A new request waits in a cell of its own.\<close>

lemma conn_env_insert:
  assumes "conn_is_active h"
  shows "conn_env X P h (snd (insert_pending h))"
proof -
  have "covered h \<longrightarrow> covered (snd (insert_pending h))" by (simp add: covered_insert)
  then show ?thesis
    using assms
    by (auto simp: conn_env_def table_ok_def less_Suc_eq insert_pending_def fresh_id_def Let_def cancel_pending_def drop_sender_def
        conn_is_active_def set_hm_del dest!: hm_put_entry split: option.splits)
qed

lemma conn_env_dispatch [conn_env_intros]: "conn_env X P h (snd (dispatch_request meth ps h))"
proof -
  have "conn_env X P h' (snd (send_request ic meth ps h'))" for ic h'
    by (auto simp: send_request_def intro: conn_env_intros)
  then show ?thesis
    using conn_env_trans [OF conn_env_insert] by (auto simp: dispatch_request_def split_beta)
qed

section \<open>The registry in other hands\<close>

text \<open>
  Where a record of the new registry comes from: it refers to the same dispatcher as an old one and to the same
  connection or none, or it was just registered over connection \<open>c\<close>.
\<close>

definition rec_from :: "nat \<Rightarrow> nat \<Rightarrow> SessionRegistry \<Rightarrow> SessionRegistry \<Rightarrow> SessionRecord \<Rightarrow> bool" where
  "rec_from n c r r' q \<longleftrightarrow>
     (\<exists>e \<in> set (reg_inner r). sr_dispatcher (snd e) = sr_dispatcher q \<and> sr_connection q \<in> {sr_connection (snd e), None}) \<or>
     sr_dispatcher q = next_disp r \<and> next_disp r' = Suc (next_disp r) \<and> (\<forall>y. sr_connection q = Some y \<longrightarrow> y = c \<and> c < n)"

definition reg_event :: "nat \<Rightarrow> (nat \<Rightarrow> Id \<Rightarrow> (JsonRpcError, json) res \<Rightarrow> bool) \<Rightarrow> nat \<Rightarrow> SessionRegistry \<Rightarrow> SessionRegistry \<Rightarrow> bool" where
  "reg_event n P c r r' \<longleftrightarrow>
     (\<forall>x < n. conn_env {} (P x) (reg_conns r x) (reg_conns r' x)) \<and>
     (next_disp r' = next_disp r \<or> next_disp r' = Suc (next_disp r)) \<and>
     (\<forall>d. reg_disps r' d = reg_disps r d \<or> reg_disps r' d = disp_drain (reg_disps r d) \<or>
        d = next_disp r \<and> next_disp r' = Suc (next_disp r) \<and> reg_disps r' d = dispatcher_new) \<and>
     (\<forall>e \<in> set (reg_inner r'). rec_from n c r r' (snd e))"

named_theorems reg_events

lemma rec_from_old: "(sid, q) \<in> set (reg_inner r) \<Longrightarrow> rec_from n c r r' q"
  by (force simp: rec_from_def)

lemma rec_from_entries: "set (reg_inner r') \<subseteq> set (reg_inner r) \<Longrightarrow> e \<in> set (reg_inner r') \<Longrightarrow> rec_from n c r r' (snd e)"
  using rec_from_old [of "fst e" "snd e" r] by auto

text \<open>Changes of connections on top of an event.\<close>

lemma reg_event_conns:
  assumes "reg_event n P c r r'" "\<And>x. x < n \<Longrightarrow> conn_env {} (P x) (reg_conns r' x) (cs x)"
  shows "reg_event n P c r (r'\<lparr>reg_conns := cs\<rparr>)"
  using assms conn_env_trans unfolding reg_event_def by (auto simp: rec_from_def)

lemma reg_event_refl [reg_events, simp]: "reg_event n P c r r"
  by (auto simp: reg_event_def intro: rec_from_entries)

lemma reg_event_conn [reg_events]:
  "conn_env {} (P y) (reg_conns r y) h \<Longrightarrow> reg_event n P c r (r\<lparr>reg_conns := (reg_conns r)(y := h)\<rparr>)"
  by (rule reg_event_conns) auto

text \<open>Operations that change the marks, the cache and single records without their references.\<close>

lemma reg_event_same:
  assumes "reg_conns r' = reg_conns r" "reg_disps r' = reg_disps r" "next_disp r' = next_disp r"
    "\<And>e. e \<in> set (reg_inner r') \<Longrightarrow> rec_from n c r r' (snd e)"
  shows "reg_event n P c r r'"
  using assms by (auto simp: reg_event_def)

lemma rec_from_put:
  assumes "map_of (reg_inner r) sid = Some q0" "(k, q') \<in> set (hm_put sid q (reg_inner r))"
    and "sr_dispatcher q = sr_dispatcher q0" "sr_connection q = sr_connection q0 \<or> sr_connection q = None"
  shows "rec_from n c r r' q'"
proof (cases "q' = q")
  case True
  then show ?thesis
    using assms(3,4) map_of_SomeD [OF assms(1)] unfolding rec_from_def by (intro disjI1 bexI [of _ "(sid, q0)"]) auto
next
  case False
  with hm_put_entry [OF assms(2)] show ?thesis by (auto intro: rec_from_old)
qed

lemma reg_event_bump [reg_events]: "reg_event n P c r (snd (bump_last_call sid now r))"
  by (rule reg_event_same) (auto simp: bump_last_call_def intro: rec_from_old elim: rec_from_put split: option.splits)

lemma reg_event_remove [reg_events]: "reg_event n P c r (snd (remove_if_generation sid g r))"
  by (rule reg_event_same)
     (auto simp: remove_if_generation_def remove_when_def set_hm_del intro: rec_from_old split: option.splits if_splits)

lemma reg_event_update [reg_events]: "reg_event n P c r (snd (update_tools env sid ts r))"
  by (rule reg_event_same) (auto simp: update_tools_def intro: rec_from_old elim: rec_from_put split: option.splits if_splits)

lemma fold_hm_del_subset: "set (fold hm_del ks m) \<subseteq> set m"
proof (induction ks arbitrary: m)
  case (Cons k ks)
  have "set (hm_del k m) \<subseteq> set m" by (auto simp: set_hm_del)
  then show ?case using Cons [of "hm_del k m"] by simp
qed simp

lemma reg_event_sweep [reg_events]: "reg_event n P c r (snd (sweep_expired_disconnects now grace r))"
  using fold_hm_del_subset
  by (intro reg_event_same rec_from_entries) (auto simp: sweep_expired_disconnects_def Let_def split: if_splits)

lemma reg_event_cache [reg_events]: "reg_event n P c r (with_cache f r)"
  by (rule reg_event_same) (auto intro: rec_from_old)

lemma reg_event_cache_read [reg_events]: "reg_event n P c r (snd (cache_read sd now r))"
  by (auto simp: cache_read_def reg_event_cache split: option.split)

lemma reg_event_drain [reg_events]: "reg_event n P c r (drain_record rec r)"
  by (auto simp: reg_event_def drain_record_def conn_env_drain intro: rec_from_old split: option.splits)

lemma reg_event_register [reg_events]:
  assumes "c < n"
  shows "reg_event n P c r (snd (register_with_generation env p now (Some c) r))"
proof -
  have put: "reg_event n P c r r'" if r': "reg_conns r' = reg_conns r" "next_disp r' = Suc (next_disp r)"
      "reg_disps r' = (reg_disps r)(next_disp r := dispatcher_new)" "reg_inner r' = hm_put (rp_client_uid p) q (reg_inner r)"
      "sr_dispatcher q = next_disp r" "sr_connection q = Some c" for r' q
    using assms r' rec_from_old by (fastforce simp: reg_event_def rec_from_def dest!: hm_put_entry)
  show ?thesis
    by (auto simp: register_with_generation_def admit_session_def next_generation_def new_dispatcher_def Let_def
        new_record_def reconnect_record_def intro: put split: option.split SessionState.split)
qed

lemma reg_event_disconnect [reg_events]:
  "reg_event n P c r (snd (mark_disconnected_if_generation sid g now r))"
proof (cases "\<exists>rec. map_of (reg_inner r) sid = Some rec \<and> sr_state rec = Active \<and> sr_generation rec = g")
  case True
  then obtain rec where rec: "map_of (reg_inner r) sid = Some rec" "sr_state rec = Active" "sr_generation rec = g" by blast
  have "rec_from n c r r' q" if "(k, q) \<in> set (hm_put sid (disconnect_record now rec) (reg_inner r))" for k q r'
    using rec_from_put [OF rec(1) that] by (simp add: disconnect_record_def)
  with rec show ?thesis
    by (auto simp: mark_disconnected_if_generation_def disconnect_when_def reg_event_def drain_record_def conn_env_drain
        split: option.splits)
qed (auto simp: mark_disconnected_if_generation_def disconnect_when_def split: option.split)

section \<open>Events of the other tasks\<close>

text \<open>A second part that creates no dispatcher and drains none.\<close>

lemma reg_event_then:
  assumes "reg_event n P c r r1" "reg_event n P c r1 r2" "next_disp r2 = next_disp r1" "reg_disps r2 = reg_disps r1"
  shows "reg_event n P c r r2"
proof -
  have "rec_from n c r r2 q" if "rec_from n c r1 r2 q" for q
  proof -
    from that assms(3) obtain e where e: "e \<in> set (reg_inner r1)" "sr_dispatcher (snd e) = sr_dispatcher q"
      "sr_connection q = sr_connection (snd e) \<or> sr_connection q = None" by (auto simp: rec_from_def)
    from e(1) assms(1) have "rec_from n c r r1 (snd e)" by (simp add: reg_event_def)
    then show ?thesis using e(2,3) assms(1,3) unfolding rec_from_def by auto
  qed
  moreover have "conn_env {} (P x) (reg_conns r x) (reg_conns r2 x)" if "x < n" for x
    using conn_env_trans [of "{}" "P x"] assms(1,2) that unfolding reg_event_def by blast
  ultimately show ?thesis using assms unfolding reg_event_def by simp
qed

lemma reg_event_before:
  assumes "\<And>x. x < n \<Longrightarrow> conn_env {} (P x) (reg_conns r x) (cs x)" "reg_event n P c (r\<lparr>reg_conns := cs\<rparr>) r2"
  shows "reg_event n P c r r2"
proof -
  have "rec_from n c (r\<lparr>reg_conns := cs\<rparr>) r2 q = rec_from n c r r2 q" for q by (simp add: rec_from_def)
  moreover have "conn_env {} (P x) (reg_conns r x) (reg_conns r2 x)" if "x < n" for x
    using conn_env_trans [OF assms(1) [OF that]] assms(2) that by (simp add: reg_event_def)
  ultimately show ?thesis using assms(2) by (simp add: reg_event_def)
qed

lemma reg_event_tx:
  assumes "reg_event n P c r (as_registry s)"
  shows "reg_event n P c r (as_registry (tx_send y m s))"
proof -
  have "reg_event n P c r ((as_registry s)\<lparr>reg_conns := (reg_conns (as_registry s))(y := (reg_conns (as_registry s) y)
      \<lparr>sent := sent (reg_conns (as_registry s) y) @ [m]\<rparr>)\<rparr>)"
    by (rule reg_event_conns [OF assms]) (auto intro: conn_env_sent)
  with assms show ?thesis by (simp add: tx_send_def Let_def)
qed

text \<open>The answers that a frame brings.\<close>

definition frame_answers :: "transport_env \<Rightarrow> nat \<Rightarrow> ws_frame \<Rightarrow> nat \<Rightarrow> Id \<Rightarrow> (JsonRpcError, json) res \<Rightarrow> bool" where
  "frame_answers env c fr x i a \<longleftrightarrow> x = c \<and> (\<exists>t. fr = Fr_Message (Ws_Text t) \<and> wire_parse (te_parse env) t = Ok (Response i a))"

lemma reg_event_handle_register:
  assumes "c < n"
  shows "reg_event n P c (as_registry s) (as_registry (handle_register env c i ps s))"
  using reg_event_register [OF assms]
  by (auto simp: handle_register_def send_error_def Let_def split_beta intro!: reg_event_tx
      split: option.split sum.split RegisterError.split)

lemma reg_event_bye: "reg_event n P c (as_registry s) (as_registry (handle_bye y i s))"
  by (auto simp: handle_bye_def Let_def reg_event_remove intro!: reg_event_tx split: option.split)

lemma reg_event_reader [reg_events]:
  assumes "c < n"
  shows "reg_event n (frame_answers env c fr) c (as_registry s) (as_registry (snd (reader_step env c fr s)))"
proof -
  have err: "reg_event n P c (as_registry s) (as_registry (send_error c i code m s))" for P i code m
    by (simp add: send_error_def reg_event_tx)
  have answer: "reg_event n (frame_answers env c fr) c (as_registry s) (as_registry (handle_response c i a s))"
    if "fr = Fr_Message (Ws_Text t)" "wire_parse (te_parse env) t = Ok (Response i a)" for t i a
    unfolding handle_response_def Let_def
    using that conn_env_weaken [OF conn_env_complete, of "{}" "{}" i a] by (auto simp: frame_answers_def intro!: reg_event_conn)
  have dispatch: "reg_event n (frame_answers env c fr) c (as_registry s) (as_registry (snd (transport_dispatch env c m s)))"
    if "fr = Fr_Message (Ws_Text t)" "wire_parse (te_parse env) t = Ok m" for t m
    using that answer err assms
    by (cases m) (auto simp: handle_request_def handle_notification_def reg_event_handle_register reg_event_bye reg_event_update
        split: option.split)
  show ?thesis
    using dispatch err by (auto simp: reader_step_def split: ws_frame.split ws_message.split sum.split)
qed

lemma reg_event_close [reg_events]: "reg_event n P c (as_registry s) (as_registry (close_connection now y s))"
proof -
  let ?r = "as_registry s"
  let ?cs = "(reg_conns ?r)(y := (drain_pending (reg_conns ?r y))\<lparr>receiver_open := False\<rparr>)"
  have "reg_event n P c ?r (snd (mark_disconnected_if_generation sid g now (?r\<lparr>reg_conns := ?cs\<rparr>)))" for sid g
    by (rule reg_event_before [OF _ reg_event_disconnect]) (auto intro: conn_env_drain)
  moreover have "reg_event n P c ?r (?r\<lparr>reg_conns := ?cs\<rparr>)" by (auto intro: reg_event_conn conn_env_drain)
  ultimately show ?thesis by (simp add: close_connection_def Let_def split: option.split)
qed

lemma reg_event_grace [reg_events]: "reg_event n P c (as_registry s) (as_registry (grace_sweep cfg now s))"
  by (simp add: grace_sweep_def reg_event_sweep)

lemma reg_event_call [reg_events]: "reg_event n P c (as_registry s) (as_registry (snd (call_step srv env q ph s)))"
  by (cases ph) (auto simp: Let_def split_beta reg_event_bump reg_event_cache_read
      split: option.split sum.split ResolveError.split)

lemma reg_event_shutdown_begin [reg_events]: "reg_event n P c r (snd (shutdown_begin grace sid r))"
  by (auto simp: shutdown_begin_def Let_def split_beta intro!: reg_event_conn conn_env_dispatch
      split: option.split SessionState.split sum.split)

lemma conn_env_call_poll: "conn_env X P h (snd (call_poll ic elapsed h))"
  by (auto simp: call_poll_def conn_env_cancel split: oneshot.split sum.split)

lemma reg_event_shutdown_poll: "reg_event n P c r (snd (shutdown_poll elapsed st r))"
  by (auto simp: shutdown_poll_def Let_def split_beta intro!: reg_event_conn conn_env_call_poll
      split: shutdown.split option.split sum.split)

lemma remove_objects [simp]:
  "next_disp (snd (remove_if_generation sid g r)) = next_disp r" "reg_disps (snd (remove_if_generation sid g r)) = reg_disps r"
  by (simp_all add: remove_if_generation_def remove_when_def split: option.split)

lemma reg_event_shutdown_finish: "reg_event n P c r (snd (shutdown_finish sid st r))"
  using reg_event_then [OF reg_event_drain reg_event_remove]
  by (auto simp: shutdown_finish_def split: shutdown.split)

end
