(* ===== verification/Internal_Endpoint.thy ===== *)
theory Internal_Endpoint
  imports Transport
begin

text \<open>
  The endpoint through which the masking service calls internal tools
  (\<open>src/session_manager/masking/internal.rs\<close>): the check of the peer, of the request and
  of the tool's name, the choice of the session by the exact key of its database, and
  the call itself. The socket and its peer's user id are inputs.
\<close>

section \<open>Target\<close>

datatype InternalDispatchError = NoTarget | AmbiguousTarget | Dispatch_Failed

record InternalCallRequest =
  ic_instance_id :: string
  ic_name :: string
  ic_arguments :: json

definition internal_match :: "InternalCallRequest \<Rightarrow> SessionRecord \<Rightarrow> bool" where
  "internal_match call rec \<longleftrightarrow> sr_state rec = Active \<and> sr_database_key rec = Some (ic_instance_id call) \<and>
     (\<exists>t \<in> set (sr_tools rec). td_name t = ic_name call \<and> td_visibility t = Internal)"

definition resolve_internal_target ::
  "SessionRegistry \<Rightarrow> InternalCallRequest \<Rightarrow> (InternalDispatchError, SessionRecord) res" where
  "resolve_internal_target r call = (case filter (internal_match call) (reg_snapshot r) of
     [] \<Rightarrow> Err NoTarget
   | [rec] \<Rightarrow> Ok rec
   | _ \<Rightarrow> Err AmbiguousTarget)"

section \<open>Requests\<close>

definition INTERNAL_CALL_PATH :: string where "INTERNAL_CALL_PATH = ''/internal/v1/tools/call''"
definition MAX_INTERNAL_REQUEST_BYTES :: nat where "MAX_INTERNAL_REQUEST_BYTES = 1024 * 1024"

text \<open>As for the envelope of a result, a text that repeats one of the fields is rejected.\<close>

definition decode_internal_call :: "string list \<Rightarrow> json \<Rightarrow> InternalCallRequest option" where
  "decode_internal_call repeats v =
     (if set repeats \<inter> {''instance_id'', ''name'', ''arguments''} \<noteq> {} then None
      else Option.bind (struct_map [''instance_id'', ''name'', ''arguments''] v) (\<lambda>m.
        Option.bind (field_req dec_string ''instance_id'' m) (\<lambda>i.
        Option.bind (field_req dec_string ''name'' m) (\<lambda>n.
        Option.bind (field_default JNull dec_value ''arguments'' m) (\<lambda>a.
          Some \<lparr>ic_instance_id = i, ic_name = n, ic_arguments = a\<rparr>)))))"

record internal_request =
  ir_post :: bool
  ir_path :: string
  ir_body :: "string option"

record InternalEndpointContext =
  ix_authorized :: bool
  ix_internal_tools :: "string list"
  ix_call_timeout :: duration

text \<open>The gate's part of \<open>spawn_internal_endpoint\<close>: no endpoint without masking or without a user id.\<close>

definition endpoint_context :: "MaskingGate \<Rightarrow> nat option \<Rightarrow> duration \<Rightarrow> nat option \<Rightarrow> InternalEndpointContext option" where
  "endpoint_context g expected_uid timeout peer_uid =
     (if \<not> mg_enabled g then None
      else map_option (\<lambda>uid. \<lparr>ix_authorized = (peer_uid = Some uid), ix_internal_tools = mg_internal_tools g,
             ix_call_timeout = timeout\<rparr>) expected_uid)"

type_synonym internal_response = "nat \<times> json"

definition internal_failure :: "nat \<Rightarrow> string \<Rightarrow> internal_response" where
  "internal_failure status code =
     (status, jobj [(''success'', JBool False), (''error'', jobj [(''code'', JString code)])])"

datatype internal_phase =
    Ip_Reply internal_response
  | Ip_Call SessionRecord nat ToolCallParams instant

definition dispatch_internal_tool ::
  "instant \<Rightarrow> SessionRecord \<Rightarrow> string \<Rightarrow> json \<Rightarrow> duration \<Rightarrow> internal_phase" where
  "dispatch_internal_tool now rec name args timeout = (case sr_connection rec of
     None \<Rightarrow> Ip_Reply (internal_failure 502 ''dispatch_failed'')
   | Some cn \<Rightarrow> Ip_Call rec cn \<lparr>cp_name = name, cp_arguments = args\<rparr> (now + timeout))"

definition handle_internal_request ::
  "(string \<Rightarrow> json option) \<Rightarrow> (string \<Rightarrow> string list) \<Rightarrow> instant \<Rightarrow> InternalEndpointContext \<Rightarrow> internal_request \<Rightarrow>
     SessionRegistry \<Rightarrow> internal_phase" where
  "handle_internal_request parse repeats now ctx q r =
     (if \<not> ix_authorized ctx then Ip_Reply (internal_failure 403 ''forbidden'')
      else if \<not> ir_post q \<or> ir_path q \<noteq> INTERNAL_CALL_PATH then Ip_Reply (internal_failure 404 ''not_found'')
      else (case ir_body q of
         None \<Rightarrow> Ip_Reply (internal_failure 400 ''invalid_request'')
       | Some body \<Rightarrow>
           if MAX_INTERNAL_REQUEST_BYTES < length body then Ip_Reply (internal_failure 400 ''invalid_request'')
           else (case Option.bind (parse body) (decode_internal_call (repeats body)) of
              None \<Rightarrow> Ip_Reply (internal_failure 400 ''invalid_request'')
            | Some call \<Rightarrow>
                if ic_name call \<notin> set (ix_internal_tools ctx) then Ip_Reply (internal_failure 404 ''method_not_found'')
                else (case resolve_internal_target r call of
                   Inl NoTarget \<Rightarrow> Ip_Reply (internal_failure 503 ''no_target'')
                 | Inl AmbiguousTarget \<Rightarrow> Ip_Reply (internal_failure 503 ''ambiguous_target'')
                 | Inl Dispatch_Failed \<Rightarrow> Ip_Reply (internal_failure 502 ''dispatch_failed'')
                 | Inr rec \<Rightarrow> dispatch_internal_tool now rec (ic_name call) (ic_arguments call) (ix_call_timeout ctx)))))"

text \<open>What \<open>enqueue\<close> returned becomes the answer.\<close>

definition internal_finish :: "(DispatcherError, ToolCallResult) res \<Rightarrow> internal_response" where
  "internal_finish outcome = (case outcome of
     Inr r \<Rightarrow> (200, jobj [(''success'', JBool True), (''result'', encode_call_result r)])
   | Inl _ \<Rightarrow> internal_failure 502 ''dispatch_failed'')"

section \<open>Only the service, only internal tools, only the exact database\<close>

lemma snapshot_distinct: "reg_inv r \<Longrightarrow> distinct (reg_snapshot r)"
proof -
  assume inv: "reg_inv r"
  have "map sr_session_id (reg_snapshot r) = map fst (reg_inner r)"
  proof -
    have "sr_session_id (snd e) = fst e" if "e \<in> set (reg_inner r)" for e
      using that hm.entries_get [OF reg_inv_ok [OF inv], of "fst e" "snd e"] reg_inv_rec [OF inv, of "fst e" "snd e"]
      by (simp add: rec_inv_def)
    then show ?thesis by (simp add: reg_snapshot_def)
  qed
  then show "distinct (reg_snapshot r)"
    using reg_inv_ok [OF inv] by (metis distinct_map hm_ok_def)
qed

lemma filter_unique:
  "distinct xs \<Longrightarrow> filter p xs = [x] \<longleftrightarrow> x \<in> set xs \<and> p x \<and> (\<forall>y \<in> set xs. p y \<longrightarrow> y = x)"
proof (induction xs)
  case (Cons a xs)
  have "filter p xs = [] \<longleftrightarrow> (\<forall>y \<in> set xs. \<not> p y)" by (simp add: filter_empty_conv)
  with Cons show ?case by auto
qed simp

lemma resolve_internal_iff:
  assumes "reg_inv r"
  shows "resolve_internal_target r call = Ok rec \<longleftrightarrow> rec \<in> set (reg_snapshot r) \<and> internal_match call rec \<and>
    (\<forall>q \<in> set (reg_snapshot r). internal_match call q \<longrightarrow> q = rec)"
  unfolding filter_unique [OF snapshot_distinct [OF assms], symmetric] resolve_internal_target_def
  by (auto split: list.split)

text \<open>
  C12: The endpoint serves the service only, and hits the right database or
  nothing. A call is dispatched if and only if the peer is the expected user, the request
  is a well-formed post to the one path, the tool is on the internal list, and exactly
  one active session has this very key of its database and offers the tool as an internal
  one; it goes to that session's connection with the configured deadline. A peer
  that is not authorized always gets the same answer, whatever it asks and whatever
  sessions there are.
\<close>

theorem internal_call_is_exact:
  assumes "reg_inv r"
  shows "(\<not> ix_authorized ctx \<longrightarrow> handle_internal_request parse repeats now ctx q r = Ip_Reply (internal_failure 403 ''forbidden'')) \<and>
   (handle_internal_request parse repeats now ctx q r = Ip_Call rec cn params d \<longleftrightarrow>
    ix_authorized ctx \<and> ir_post q \<and> ir_path q = INTERNAL_CALL_PATH \<and>
    (\<exists>body call. ir_body q = Some body \<and> length body \<le> MAX_INTERNAL_REQUEST_BYTES \<and>
       Option.bind (parse body) (decode_internal_call (repeats body)) = Some call \<and>
       ic_name call \<in> set (ix_internal_tools ctx) \<and>
       map_of (reg_inner r) (sr_session_id rec) = Some rec \<and> internal_match call rec \<and>
       (\<forall>sid q'. map_of (reg_inner r) sid = Some q' \<longrightarrow> internal_match call q' \<longrightarrow> q' = rec) \<and>
       sr_connection rec = Some cn \<and> params = \<lparr>cp_name = ic_name call, cp_arguments = ic_arguments call\<rparr> \<and>
       d = now + ix_call_timeout ctx))"
    (is "_ \<and> (?l \<longleftrightarrow> ?r)")
proof -
  have snap: "q' \<in> set (reg_snapshot r) \<longleftrightarrow> (\<exists>sid. map_of (reg_inner r) sid = Some q')" for q'
    using snapshot_iff [OF assms, of q'] by blast
  have own: "rec \<in> set (reg_snapshot r) \<longleftrightarrow> map_of (reg_inner r) (sr_session_id rec) = Some rec"
    using snapshot_iff [OF assms, of rec "sr_session_id rec"] by simp
  have target: "resolve_internal_target r call = Ok rec \<longleftrightarrow>
      map_of (reg_inner r) (sr_session_id rec) = Some rec \<and> internal_match call rec \<and>
      (\<forall>sid q'. map_of (reg_inner r) sid = Some q' \<longrightarrow> internal_match call q' \<longrightarrow> q' = rec)" for call
    using own snap [of rec] unfolding resolve_internal_iff [OF assms] Ball_def snap by blast
  have "?l \<longleftrightarrow> ix_authorized ctx \<and> ir_post q \<and> ir_path q = INTERNAL_CALL_PATH \<and>
    (\<exists>body call. ir_body q = Some body \<and> length body \<le> MAX_INTERNAL_REQUEST_BYTES \<and>
       Option.bind (parse body) (decode_internal_call (repeats body)) = Some call \<and>
       ic_name call \<in> set (ix_internal_tools ctx) \<and> resolve_internal_target r call = Ok rec \<and>
       sr_connection rec = Some cn \<and> params = \<lparr>cp_name = ic_name call, cp_arguments = ic_arguments call\<rparr> \<and>
       d = now + ix_call_timeout ctx)"
    by (auto simp: handle_internal_request_def dispatch_internal_tool_def not_less
        split: option.splits sum.splits InternalDispatchError.splits if_splits)
  then have "?l \<longleftrightarrow> ?r" unfolding target by blast
  then show ?thesis by (simp add: handle_internal_request_def)
qed

text \<open>A session of the sample database that offers one internal tool.\<close>

definition internal_reg :: SessionRegistry where
  "internal_reg = snd (register_with_generation sample_env (sample_params\<lparr>rp_database_key := Some ''gen:srv/ib'',
     rp_tools := [(sample_tool ''secret'')\<lparr>td_visibility := Internal\<rparr>]\<rparr>) 0 (Some 0) registry_new)"

theorem internal_call_is_exact_witness:
  "handle_internal_request (\<lambda>_. Some (jobj [(''instance_id'', JString ''gen:srv/ib''), (''name'', JString ''secret'')])) (\<lambda>_. []) 5
     \<lparr>ix_authorized = False, ix_internal_tools = [''secret''], ix_call_timeout = 10\<rparr>
     \<lparr>ir_post = True, ir_path = INTERNAL_CALL_PATH, ir_body = Some ''text''\<rparr> internal_reg = Ip_Reply (internal_failure 403 ''forbidden'') \<and>
   handle_internal_request (\<lambda>_. Some (jobj [(''instance_id'', JString ''gen:srv/ib''), (''name'', JString ''secret'')])) (\<lambda>_. []) 5
     \<lparr>ix_authorized = True, ix_internal_tools = [''secret''], ix_call_timeout = 10\<rparr>
     \<lparr>ir_post = True, ir_path = INTERNAL_CALL_PATH, ir_body = Some ''text''\<rparr> internal_reg =
     Ip_Call (snd (hd (reg_inner internal_reg))) 0 \<lparr>cp_name = ''secret'', cp_arguments = JNull\<rparr> 15"
proof -
  have inv: "reg_inv internal_reg"
    using reg_inv_register [OF reg_inv_new] by (simp add: internal_reg_def registry_new_def)
  have inner: "reg_inner internal_reg = [(''s1'', new_record (sample_params\<lparr>rp_database_key := Some ''gen:srv/ib'',
     rp_tools := [(sample_tool ''secret'')\<lparr>td_visibility := Internal\<rparr>]\<rparr>) 0 (Some 0) 1 0)]"
    by (simp add: internal_reg_def reg_eval sample_params_def)
  have dec: "decode_internal_call [] (jobj [(''instance_id'', JString ''gen:srv/ib''), (''name'', JString ''secret'')]) =
      Some \<lparr>ic_instance_id = ''gen:srv/ib'', ic_name = ''secret'', ic_arguments = JNull\<rparr>"
    by (simp add: decode_internal_call_def field_req_def field_default_def)
  show ?thesis
    by (intro conjI internal_call_is_exact [OF inv, THEN conjunct1, rule_format] internal_call_is_exact [OF inv, THEN conjunct2, THEN iffD2])
       (auto simp: dec inner new_record_def sample_params_def internal_match_def sample_tool_def MAX_INTERNAL_REQUEST_BYTES_def)
qed

end
