(* ===== verification/Whole_Manager.thy ===== *)
theory Whole_Manager
  imports Shared_Objects Internal_Endpoint
begin

text \<open>
  The manager as a whole: the connections of \<open>src/session_manager/transport.rs\<close>, the calls of agents
  (\<open>src/mcp/server.rs\<close>) and of the masking service (\<open>src/session_manager/masking/internal.rs\<close>), the
  shutdowns of \<open>src/session_manager/lifecycle.rs\<close> and the dispatchers of
  \<open>src/session_manager/dispatcher.rs\<close> run interleaved on the one registry. A call that has reached
  \<open>enqueue\<close> is a future that holds the dispatcher and the connection of the record it was given, and
  its pieces work on the shared objects.
\<close>

section \<open>State\<close>

record call_future =
  cf_disp :: nat
  cf_conn :: nat
  cf_params :: ToolCallParams
  cf_deadline :: "instant option"
  cf_cancelled :: bool
  cf_state :: call_state

text \<open>A call of \<open>enqueue\<close> with what a record refers to.\<close>

definition enqueue_call :: "SessionRecord \<Rightarrow> nat \<Rightarrow> ToolCallParams \<Rightarrow> instant option \<Rightarrow> call_future" where
  "enqueue_call rec cn params deadline =
     \<lparr>cf_disp = sr_dispatcher rec, cf_conn = cn, cf_params = params, cf_deadline = deadline,
      cf_cancelled = False, cf_state = Call_New\<rparr>"

datatype caller = Agent CallToolRequest call_phase | Service internal_phase

text \<open>
  Connections are numbered in the order in which they are accepted. The two ghost lists
  record, for each dispatcher, who came to its queue and who got its permit.
\<close>

record whole =
  wm_app :: AppState
  wm_next_conn :: nat
  wm_callers :: "nat \<Rightarrow> caller option"
  wm_futures :: "nat \<Rightarrow> call_future option"
  wm_shutdowns :: "nat \<Rightarrow> (string \<times> shutdown) option"
  wm_clock :: instant
  wm_arrivals :: "nat \<Rightarrow> nat list"
  wm_admissions :: "nat \<Rightarrow> nat list"

definition whole_start :: "ToolsCacheStore option \<Rightarrow> MaskingGate option \<Rightarrow> whole" where
  "whole_start cache gate = \<lparr>wm_app = manager_start cache gate, wm_next_conn = 0, wm_callers = (\<lambda>_. None),
     wm_futures = (\<lambda>_. None), wm_shutdowns = (\<lambda>_. None), wm_clock = 0, wm_arrivals = (\<lambda>_. []), wm_admissions = (\<lambda>_. [])\<rparr>"

abbreviation wm_reg :: "whole \<Rightarrow> SessionRegistry" where
  "wm_reg s \<equiv> as_registry (wm_app s)"

definition set_reg :: "SessionRegistry \<Rightarrow> whole \<Rightarrow> whole" where
  "set_reg r s = s\<lparr>wm_app := (wm_app s)\<lparr>as_registry := r\<rparr>\<rparr>"

section \<open>One call among the others\<close>

definition future_on :: "nat \<Rightarrow> call_future option \<Rightarrow> call_state" where
  "future_on d fo = (case fo of None \<Rightarrow> Call_New | Some f \<Rightarrow> if cf_disp f = d then cf_state f else Call_New)"

text \<open>The dispatcher \<open>d\<close> with connection \<open>c\<close> and the calls that were given this dispatcher.\<close>

definition session_view :: "whole \<Rightarrow> nat \<Rightarrow> nat \<Rightarrow> disp_sys" where
  "session_view s d c = \<lparr>disp = reg_disps (wm_reg s) d, conn = reg_conns (wm_reg s) c,
     calls = (\<lambda>k. future_on d (wm_futures s k)),
     call_params = (\<lambda>k. case wm_futures s k of None \<Rightarrow> \<lparr>cp_name = [], cp_arguments = JNull\<rparr> | Some f \<Rightarrow> cf_params f),
     call_deadline = (\<lambda>k. Option.bind (wm_futures s k) cf_deadline),
     call_cancelled = (\<lambda>k. case wm_futures s k of None \<Rightarrow> False | Some f \<Rightarrow> cf_cancelled f),
     clock = wm_clock s, arrivals = wm_arrivals s d, admissions = wm_admissions s d\<rparr>"

text \<open>What the future of a call can do, or have done to it.\<close>

datatype call_piece = Pc_Start | Pc_Poll | Pc_Cancel | Pc_Drop

fun piece_event :: "nat \<Rightarrow> call_piece \<Rightarrow> disp_event" where
  "piece_event k Pc_Start = Ev_Enqueue k"
| "piece_event k Pc_Poll = Ev_Poll k"
| "piece_event k Pc_Cancel = Ev_Cancel k"
| "piece_event k Pc_Drop = Ev_Abandon k"

definition run_piece :: "nat \<Rightarrow> call_piece \<Rightarrow> whole \<Rightarrow> whole" where
  "run_piece k p s = (case wm_futures s k of
     None \<Rightarrow> s
   | Some f \<Rightarrow>
       (let d = cf_disp f; c = cf_conn f; t = disp_step (session_view s d c) (piece_event k p); r = wm_reg s
        in (set_reg (r\<lparr>reg_conns := (reg_conns r)(c := conn t), reg_disps := (reg_disps r)(d := disp t)\<rparr>) s)
             \<lparr>wm_futures := (wm_futures s)(k \<mapsto> f\<lparr>cf_state := calls t k, cf_cancelled := call_cancelled t k\<rparr>),
              wm_arrivals := (wm_arrivals s)(d := arrivals t),
              wm_admissions := (wm_admissions s)(d := admissions t)\<rparr>))"

section \<open>Callers\<close>

text \<open>
  A step of an agent's call. In its last but one step it creates the future; the last one waits until the
  future has returned.
\<close>

fun call_started :: "call_phase \<Rightarrow> call_phase \<Rightarrow> call_future option" where
  "call_started (Cp_Gated _ _ _ _ rec) (Cp_Calling _ _ cn params deadline) = Some (enqueue_call rec cn params deadline)"
| "call_started _ _ = None"

definition agent_step :: "gate_env \<Rightarrow> call_env \<Rightarrow> nat \<Rightarrow> CallToolRequest \<Rightarrow> call_phase \<Rightarrow> whole \<Rightarrow> whole" where
  "agent_step srv env k q ph s =
     (let (ph', app) = call_step srv env q ph (wm_app s)
      in s\<lparr>wm_app := app, wm_callers := (wm_callers s)(k \<mapsto> Agent q ph'),
           wm_futures := (case call_started ph ph' of None \<Rightarrow> wm_futures s | Some f \<Rightarrow> (wm_futures s)(k \<mapsto> f))\<rparr>)"

definition agent_turn :: "gate_env \<Rightarrow> call_env \<Rightarrow> nat \<Rightarrow> CallToolRequest \<Rightarrow> call_phase \<Rightarrow> whole \<Rightarrow> whole" where
  "agent_turn srv env k q ph s = (case ph of
     Cp_Calling _ _ _ _ _ \<Rightarrow>
       (case wm_futures s k of
          Some f \<Rightarrow> (case cf_state f of
              Call_Done out \<Rightarrow> agent_step srv (env\<lparr>ca_now := wm_clock s, ca_outcome := out\<rparr>) k q ph s
            | _ \<Rightarrow> s)
        | None \<Rightarrow> s)
   | _ \<Rightarrow> agent_step srv (env\<lparr>ca_now := wm_clock s\<rparr>) k q ph s)"

text \<open>What the endpoint of the masking service needs to read a request.\<close>

record endpoint_env =
  ee_parse :: "string \<Rightarrow> json option"
  ee_repeats :: "string \<Rightarrow> string list"
  ee_context :: InternalEndpointContext

definition service_begin :: "endpoint_env \<Rightarrow> nat \<Rightarrow> internal_request \<Rightarrow> whole \<Rightarrow> whole" where
  "service_begin env k q s =
     (let ph = handle_internal_request (ee_parse env) (ee_repeats env) (wm_clock s) (ee_context env) q (wm_reg s);
          s' = s\<lparr>wm_callers := (wm_callers s)(k \<mapsto> Service ph)\<rparr>
      in case ph of
           Ip_Reply _ \<Rightarrow> s'
         | Ip_Call rec cn params deadline \<Rightarrow>
             s'\<lparr>wm_futures := (wm_futures s)(k \<mapsto> enqueue_call rec cn params (Some deadline))\<rparr>)"

definition caller_turn :: "gate_env \<Rightarrow> call_env \<Rightarrow> nat \<Rightarrow> whole \<Rightarrow> whole" where
  "caller_turn srv env k s = (case wm_callers s k of
     Some (Agent q ph) \<Rightarrow> agent_turn srv env k q ph s
   | Some (Service (Ip_Call _ _ _ _)) \<Rightarrow>
       (case wm_futures s k of
          Some f \<Rightarrow> (case cf_state f of
              Call_Done out \<Rightarrow> s\<lparr>wm_callers := (wm_callers s)(k \<mapsto> Service (Ip_Reply (internal_finish out)))\<rparr>
            | _ \<Rightarrow> s)
        | None \<Rightarrow> s)
   | _ \<Rightarrow> s)"

definition shutdown_turn :: "bool \<Rightarrow> string \<Rightarrow> shutdown \<Rightarrow> SessionRegistry \<Rightarrow> shutdown \<times> SessionRegistry" where
  "shutdown_turn elapsed sid st r = (case st of
     Sd_Wait _ _ _ \<Rightarrow> shutdown_poll elapsed st r
   | Sd_Finish _ _ \<Rightarrow> shutdown_finish sid st r
   | Sd_Done _ \<Rightarrow> (st, r))"

section \<open>Events\<close>

datatype whole_event =
    Wm_Open
  | Wm_Frame transport_env nat ws_frame
  | Wm_Close instant nat
  | Wm_Sweep TransportConfig instant
  | Wm_Call nat CallToolRequest
  | Wm_Internal endpoint_env nat internal_request
  | Wm_Turn call_env nat
  | Wm_Piece nat call_piece
  | Wm_Tick nat
  | Wm_Shutdown u64 nat string
  | Wm_Shutdown_Turn bool nat
  | Wm_Replay
  | Wm_Cache "ToolsCacheStore \<Rightarrow> ToolsCacheStore"

fun whole_step :: "gate_env \<Rightarrow> whole \<Rightarrow> whole_event \<Rightarrow> whole" where
  "whole_step srv s Wm_Open =
     s\<lparr>wm_app := open_connection (wm_next_conn s) (wm_app s), wm_next_conn := Suc (wm_next_conn s)\<rparr>"
| "whole_step srv s (Wm_Frame env c fr) =
     (if c < wm_next_conn s then s\<lparr>wm_app := snd (reader_step env c fr (wm_app s))\<rparr> else s)"
| "whole_step srv s (Wm_Close now c) =
     (if c < wm_next_conn s then s\<lparr>wm_app := close_connection now c (wm_app s)\<rparr> else s)"
| "whole_step srv s (Wm_Sweep cfg now) = s\<lparr>wm_app := grace_sweep cfg now (wm_app s)\<rparr>"
| "whole_step srv s (Wm_Call k q) =
     (if wm_callers s k = None then s\<lparr>wm_callers := (wm_callers s)(k \<mapsto> Agent q Cp_Start)\<rparr> else s)"
| "whole_step srv s (Wm_Internal env k q) = (if wm_callers s k = None then service_begin env k q s else s)"
| "whole_step srv s (Wm_Turn env k) = caller_turn srv env k s"
| "whole_step srv s (Wm_Piece k p) = run_piece k p s"
| "whole_step srv s (Wm_Tick n) = s\<lparr>wm_clock := wm_clock s + n\<rparr>"
| "whole_step srv s (Wm_Shutdown grace j sid) =
     (if wm_shutdowns s j = None
      then (let (st, r) = shutdown_begin grace sid (wm_reg s)
            in (set_reg r s)\<lparr>wm_shutdowns := (wm_shutdowns s)(j \<mapsto> (sid, st))\<rparr>)
      else s)"
| "whole_step srv s (Wm_Shutdown_Turn elapsed j) = (case wm_shutdowns s j of
     None \<Rightarrow> s
   | Some (sid, st) \<Rightarrow>
       (let (st', r) = shutdown_turn elapsed sid st (wm_reg s)
        in (set_reg r s)\<lparr>wm_shutdowns := (wm_shutdowns s)(j \<mapsto> (sid, st'))\<rparr>))"
| "whole_step srv s Wm_Replay = s\<lparr>wm_app := (wm_app s)\<lparr>as_gate := map_option (replay_gate srv) (as_gate (wm_app s))\<rparr>\<rparr>"
| "whole_step srv s (Wm_Cache f) = set_reg (with_cache f (wm_reg s)) s"

definition whole_run :: "gate_env \<Rightarrow> whole \<Rightarrow> whole_event list \<Rightarrow> whole" where
  "whole_run srv s es = foldl (whole_step srv) s es"

section \<open>A call's session, alone and among the others\<close>

lemma set_reg_fields [simp]:
  "wm_reg (set_reg r s) = r" "wm_next_conn (set_reg r s) = wm_next_conn s" "wm_callers (set_reg r s) = wm_callers s"
  "wm_futures (set_reg r s) = wm_futures s" "wm_shutdowns (set_reg r s) = wm_shutdowns s" "wm_clock (set_reg r s) = wm_clock s"
  "wm_arrivals (set_reg r s) = wm_arrivals s" "wm_admissions (set_reg r s) = wm_admissions s"
  by (simp_all add: set_reg_def)

lemma piece_frame:
  "call_params (disp_step t (piece_event k p)) = call_params t" "call_deadline (disp_step t (piece_event k p)) = call_deadline t"
  "clock (disp_step t (piece_event k p)) = clock t"
  "j \<noteq> k \<Longrightarrow> calls (disp_step t (piece_event k p)) j = calls t j"
  "j \<noteq> k \<Longrightarrow> call_cancelled (disp_step t (piece_event k p)) j = call_cancelled t j"
  by (cases p; auto simp: disp_step.simps enqueue_start_def step_queued_def step_running_def abandon_call_def
      split: call_state.split sum.split prod.split admission.split running.split)+

text \<open>
  A piece of a call runs on its session as if the session were alone: the session's view of the manager makes
  exactly the step of the dispatcher's own system.
\<close>

lemma view_piece:
  assumes "wm_futures s k = Some f"
  shows "session_view (run_piece k p s) (cf_disp f) (cf_conn f) = disp_step (session_view s (cf_disp f) (cf_conn f)) (piece_event k p)"
proof -
  let ?t = "session_view s (cf_disp f) (cf_conn f)" and ?e = "piece_event k p"
  have calls: "calls ?t k = cf_state f" "\<And>j. calls ?t j = future_on (cf_disp f) (wm_futures s j)"
    "call_cancelled ?t j = (case wm_futures s j of None \<Rightarrow> False | Some f \<Rightarrow> cf_cancelled f)" for j
    by (simp_all add: session_view_def future_on_def assms)
  have "future_on (cf_disp f) (wm_futures (run_piece k p s) j) = calls (disp_step ?t ?e) j" for j
    using piece_frame(4) [of j k ?t p] by (cases "j = k") (simp_all add: run_piece_def assms Let_def future_on_def calls(2))
  moreover have "(case wm_futures (run_piece k p s) j of None \<Rightarrow> False | Some f \<Rightarrow> cf_cancelled f) = call_cancelled (disp_step ?t ?e) j" for j
    using piece_frame(5) [of j k ?t p] by (cases "j = k") (simp_all add: run_piece_def assms Let_def calls(3))
  moreover have "(case wm_futures (run_piece k p s) j of None \<Rightarrow> \<lparr>cp_name = [], cp_arguments = JNull\<rparr> | Some f \<Rightarrow> cf_params f) =
      call_params (disp_step ?t ?e) j" for j
    by (simp add: piece_frame(1)) (simp add: run_piece_def assms Let_def session_view_def)
  moreover have "Option.bind (wm_futures (run_piece k p s) j) cf_deadline = call_deadline (disp_step ?t ?e) j" for j
    by (simp add: piece_frame(2)) (simp add: run_piece_def assms Let_def session_view_def)
  moreover have "wm_clock (run_piece k p s) = clock (disp_step ?t ?e)"
    by (simp add: piece_frame(3)) (simp add: run_piece_def assms Let_def session_view_def)
  ultimately show ?thesis
    unfolding session_view_def [of "run_piece k p s"]
    by (intro disp_sys.equality) (simp_all add: fun_eq_iff, simp_all add: run_piece_def assms Let_def)
qed

text \<open>The view of another dispatcher differs in the connection at most.\<close>

lemma view_other:
  assumes "wm_futures s k = Some f" "d \<noteq> cf_disp f"
  shows "\<exists>cd ca. session_view (run_piece k p s) d c = (session_view s d c)\<lparr>conn := cd, call_cancelled := ca\<rparr>"
  using assms
  by (intro exI [of _ "conn (session_view (run_piece k p s) d c)"] exI [of _ "call_cancelled (session_view (run_piece k p s) d c)"]
        disp_sys.equality)
     (auto simp: session_view_def run_piece_def Let_def future_on_def fun_eq_iff)

lemma disp_inv_conn [simp]: "disp_inv (t\<lparr>conn := h, call_cancelled := ca\<rparr>) = disp_inv t"
  by (simp add: disp_inv_def)

lemma disp_inv_view_conn: "disp_inv (session_view s d c) \<Longrightarrow> disp_inv (session_view s d c')"
  by (simp add: disp_inv_def session_view_def)

section \<open>Who holds which record\<close>

fun phase_rec :: "call_phase \<Rightarrow> SessionRecord option" where
  "phase_rec (Cp_Found _ _ _ rec) = Some rec"
| "phase_rec (Cp_Gated _ _ _ _ rec) = Some rec"
| "phase_rec _ = None"

fun shutdown_rec :: "shutdown \<Rightarrow> SessionRecord option" where
  "shutdown_rec (Sd_Wait rec _ _) = Some rec"
| "shutdown_rec (Sd_Finish rec _) = Some rec"
| "shutdown_rec (Sd_Done _) = None"

definition in_registry :: "whole \<Rightarrow> SessionRecord \<Rightarrow> bool" where
  "in_registry s rec \<longleftrightarrow> rec \<in> snd ` set (reg_inner (wm_reg s))"

definition held :: "whole \<Rightarrow> SessionRecord \<Rightarrow> bool" where
  "held s rec \<longleftrightarrow> in_registry s rec \<or>
     (\<exists>k q ph. wm_callers s k = Some (Agent q ph) \<and> phase_rec ph = Some rec) \<or>
     (\<exists>j sid st. wm_shutdowns s j = Some (sid, st) \<and> shutdown_rec st = Some rec)"

text \<open>A caller has a future only from its last step on.\<close>

fun may_wait :: "caller option \<Rightarrow> bool" where
  "may_wait (Some (Agent _ ph)) \<longleftrightarrow> call_rank ph \<le> 1"
| "may_wait (Some (Service _)) \<longleftrightarrow> True"
| "may_wait None \<longleftrightarrow> False"

definition futures_late :: "whole \<Rightarrow> bool" where
  "futures_late s \<longleftrightarrow> (\<forall>k. wm_futures s k \<noteq> None \<longrightarrow> may_wait (wm_callers s k))"

text \<open>What any event does that is not a piece of a call.\<close>

definition new_future :: "whole \<Rightarrow> call_future \<Rightarrow> bool" where
  "new_future s f \<longleftrightarrow> (\<exists>rec cn ps dl. held s rec \<and> sr_connection rec = Some cn \<and> f = enqueue_call rec cn ps dl)"

definition grows :: "(nat \<Rightarrow> Id \<Rightarrow> (JsonRpcError, json) res \<Rightarrow> bool) \<Rightarrow> nat \<Rightarrow> whole \<Rightarrow> whole \<Rightarrow> bool" where
  "grows P c s s' \<longleftrightarrow> reg_event (wm_next_conn s) P c (wm_reg s) (wm_reg s') \<and>
     wm_next_conn s \<le> wm_next_conn s' \<and>
     (\<forall>x. wm_next_conn s \<le> x \<longrightarrow> x < wm_next_conn s' \<longrightarrow> reg_conns (wm_reg s') x = conn_new) \<and>
     wm_arrivals s' = wm_arrivals s \<and> wm_admissions s' = wm_admissions s \<and>
     (\<forall>k. wm_futures s' k = wm_futures s k \<or>
        wm_futures s k = None \<and> (\<exists>f. wm_futures s' k = Some f \<and> new_future s f)) \<and>
     (\<forall>rec. held s' rec \<longrightarrow> held s rec \<or> in_registry s' rec)"

fun event_answers :: "whole_event \<Rightarrow> nat \<Rightarrow> Id \<Rightarrow> (JsonRpcError, json) res \<Rightarrow> bool" where
  "event_answers (Wm_Frame env c fr) = frame_answers env c fr"
| "event_answers _ = (\<lambda>_ _ _. False)"

text \<open>An event of the transport, which leaves callers, futures and shutdowns alone.\<close>

lemma grows_app:
  assumes "reg_event (wm_next_conn s) P c (wm_reg s) (as_registry app)"
  shows "grows P c s (s\<lparr>wm_app := app\<rparr>)"
  using assms by (auto simp: grows_def held_def in_registry_def)

lemma grows_refl [simp]: "grows P c s s"
  by (simp add: grows_def)

lemma phase_rec_step:
  assumes "phase_rec (fst (call_step srv env q ph app)) = Some rec"
  shows "phase_rec ph = Some rec \<or> rec \<in> snd ` set (reg_inner (as_registry app))"
  using assms
  by (cases ph)
     (force simp: Let_def split_beta reg_get_def dest!: map_of_SomeD
        split: option.splits sum.splits ResolveError.splits if_splits)+

lemma agent_calls:
  assumes "call_step srv env q (Cp_Gated ctx a nd c rec) app = (Cp_Calling ctx' c' cn ps dl, app')"
  shows "sr_connection rec = Some cn"
  using assms by (auto split: option.splits sum.splits)

lemma held_call:
  assumes "call_step srv env q ph (wm_app s) = (ph', app)" "wm_callers s k = Some (Agent q ph)"
    and "held (s\<lparr>wm_app := app, wm_callers := (wm_callers s)(k \<mapsto> Agent q ph')\<rparr>) rec"
  shows "held s rec \<or> rec \<in> snd ` set (reg_inner (as_registry app))"
  using assms(2,3) phase_rec_step [of srv env q ph "wm_app s" rec] assms(1)
  by (auto simp: held_def in_registry_def split: if_splits)

text \<open>A step of \<open>call_step\<close> that the caller \<open>k\<close> makes, with or without a new future.\<close>

lemma grows_agent:
  assumes "call_step srv env q ph (wm_app s) = (ph', app)" "wm_callers s k = Some (Agent q ph)"
    and "fs = wm_futures s \<or> wm_futures s k = None \<and> (\<exists>f. fs = (wm_futures s)(k \<mapsto> f) \<and> new_future s f)"
  shows "grows P c s (s\<lparr>wm_app := app, wm_callers := (wm_callers s)(k \<mapsto> Agent q ph'), wm_futures := fs\<rparr>)"
proof -
  let ?s = "s\<lparr>wm_app := app, wm_callers := (wm_callers s)(k \<mapsto> Agent q ph'), wm_futures := fs\<rparr>"
  have "reg_event (wm_next_conn s) P c (wm_reg s) (as_registry app)"
    using reg_event_call [of _ P c "wm_app s" srv env q ph] assms(1) by simp
  moreover have "held s rec \<or> in_registry ?s rec" if "held ?s rec" for rec
    using that held_call [OF assms(1,2), of rec] by (auto simp: held_def in_registry_def)
  moreover have "fs j = wm_futures s j \<or> wm_futures s j = None \<and> (\<exists>f. fs j = Some f \<and> new_future s f)" for j
    using assms(3) by (cases "j = k") auto
  ultimately show ?thesis by (simp add: grows_def)
qed

lemma agent_step_cases:
  assumes "wm_callers s k = Some (Agent q ph)"
  obtains (step) ph' app where "call_step srv env q ph (wm_app s) = (ph', app)"
      "agent_step srv env k q ph s = s\<lparr>wm_app := app, wm_callers := (wm_callers s)(k \<mapsto> Agent q ph'), wm_futures := wm_futures s\<rparr>"
  | (call) app rec cn ps dl ctx a nd c where "ph = Cp_Gated ctx a nd c rec"
      "call_step srv env q ph (wm_app s) = (Cp_Calling ctx c cn ps dl, app)" "sr_connection rec = Some cn" "held s rec"
      "agent_step srv env k q ph s = s\<lparr>wm_app := app, wm_callers := (wm_callers s)(k \<mapsto> Agent q (Cp_Calling ctx c cn ps dl)),
         wm_futures := (wm_futures s)(k \<mapsto> enqueue_call rec cn ps dl)\<rparr>"
proof -
  obtain ph' app where st: "call_step srv env q ph (wm_app s) = (ph', app)" by (metis surj_pair)
  show ?thesis
  proof (cases "call_started ph ph'")
    case None
    with st show ?thesis by (intro step [OF st]) (simp add: agent_step_def)
  next
    case (Some f)
    then obtain ctx a nd c rec ctx' c' cn ps dl where ph: "ph = Cp_Gated ctx a nd c rec" "ph' = Cp_Calling ctx' c' cn ps dl"
      and f: "f = enqueue_call rec cn ps dl" by (cases "(ph, ph')" rule: call_started.cases) auto
    have same: "ctx' = ctx" "c' = c" using st ph by (auto split: option.splits sum.splits)
    have "held s rec" using assms ph by (force simp: held_def)
    with st Some ph same f show ?thesis
      using agent_calls [of srv env q ctx a nd c rec "wm_app s" ctx c cn ps dl app]
      by (intro call [of ctx a nd c rec cn ps dl app]) (auto simp: agent_step_def simp del: call_step.simps)
  qed
qed

lemma agent_turn_step:
  obtains "agent_turn srv env k q ph s = s"
  | env' where "agent_turn srv env k q ph s = agent_step srv env' k q ph s"
      "\<And>ctx c cn ps dl. ph = Cp_Calling ctx c cn ps dl \<Longrightarrow>
         \<exists>f. wm_futures s k = Some f \<and> cf_state f = Call_Done (ca_outcome env')"
proof (cases "\<exists>ctx c cn ps dl. ph = Cp_Calling ctx c cn ps dl")
  case True
  then obtain ctx c cn ps dl where ph: "ph = Cp_Calling ctx c cn ps dl" by blast
  show ?thesis
  proof (cases "\<exists>f out. wm_futures s k = Some f \<and> cf_state f = Call_Done out")
    case True
    then obtain f out where "wm_futures s k = Some f" "cf_state f = Call_Done out" by blast
    then show ?thesis
      using that(2) [of "env\<lparr>ca_now := wm_clock s, ca_outcome := out\<rparr>"] by (simp add: ph agent_turn_def)
  next
    case False
    then show ?thesis by (intro that(1)) (auto simp: ph agent_turn_def split: option.split call_state.split)
  qed
next
  case False
  then show ?thesis
    using that(2) [of "env\<lparr>ca_now := wm_clock s\<rparr>"] by (cases ph) (auto simp: agent_turn_def)
qed

lemma grows_caller_turn:
  assumes "futures_late s"
  shows "grows P c s (caller_turn srv env k s)"
proof (cases "\<exists>q ph. wm_callers s k = Some (Agent q ph)")
  case True
  then obtain q ph where k: "wm_callers s k = Some (Agent q ph)" by blast
  have turn: "caller_turn srv env k s = agent_turn srv env k q ph s" by (simp add: caller_turn_def k)
  have "grows P c s (agent_step srv env' k q ph s)" for env'
    using k
  proof (cases rule: agent_step_cases [where srv = srv and env = env'])
    case (step ph' app)
    show ?thesis unfolding step(2) by (rule grows_agent [OF step(1) k]) simp
  next
    case (call app rec cn ps dl ctx a nd c')
    have "wm_futures s k = None" using assms k call(1) by (auto simp: futures_late_def dest!: spec [of _ k])
    moreover have "new_future s (enqueue_call rec cn ps dl)" using call(3,4) by (auto simp: new_future_def)
    ultimately show ?thesis using grows_agent [OF call(2) k] call(5) by auto
  qed
  then show ?thesis unfolding turn by (cases rule: agent_turn_step [of srv env k q ph s]) simp_all
next
  case False
  then have "caller_turn srv env k s = s \<or>
      (\<exists>rec cn ps dl out. wm_callers s k = Some (Service (Ip_Call rec cn ps dl)) \<and>
         caller_turn srv env k s = s\<lparr>wm_callers := (wm_callers s)(k \<mapsto> Service (Ip_Reply (internal_finish out)))\<rparr>)"
    by (auto simp: caller_turn_def split: option.splits caller.splits internal_phase.splits call_state.splits)
  then show ?thesis by (auto simp: grows_def held_def in_registry_def split: if_splits)
qed

lemma internal_target_held:
  assumes "handle_internal_request parse repeats now ctx q (wm_reg s) = Ip_Call rec cn ps dl"
  shows "held s rec" "sr_connection rec = Some cn"
proof -
  from assms obtain call where t: "resolve_internal_target (wm_reg s) call = Ok rec" and cn: "sr_connection rec = Some cn"
    by (auto simp: handle_internal_request_def dispatch_internal_tool_def
        split: if_splits option.splits sum.splits InternalDispatchError.splits)
  from t have "filter (internal_match call) (reg_snapshot (wm_reg s)) = [rec]"
    by (auto simp: resolve_internal_target_def split: list.splits)
  then have "rec \<in> set (reg_snapshot (wm_reg s))" by (metis filter_is_subset list.set_intros(1) subsetD)
  then show "held s rec" by (auto simp: held_def in_registry_def reg_snapshot_def)
  show "sr_connection rec = Some cn" by (fact cn)
qed

lemma grows_service_begin:
  assumes "futures_late s" "wm_callers s k = None"
  shows "grows P c s (service_begin env k q s)"
proof -
  have none: "wm_futures s k = None" using assms by (auto simp: futures_late_def dest!: spec [of _ k])
  let ?ph = "handle_internal_request (ee_parse env) (ee_repeats env) (wm_clock s) (ee_context env) q (wm_reg s)"
  show ?thesis
  proof (cases ?ph)
    case (Ip_Reply a)
    then show ?thesis by (auto simp: service_begin_def grows_def held_def in_registry_def split: if_splits)
  next
    case (Ip_Call rec cn ps dl)
    then have "new_future s (enqueue_call rec cn ps (Some dl))"
      using internal_target_held [OF Ip_Call] by (auto simp: new_future_def)
    with Ip_Call none show ?thesis
      by (auto simp: service_begin_def grows_def held_def in_registry_def split: if_splits)
  qed
qed

lemma shutdown_rec_begin: "shutdown_rec (fst (shutdown_begin grace sid r)) = Some rec \<Longrightarrow> rec \<in> snd ` set (reg_inner r)"
  by (force simp: shutdown_begin_def reg_get_def Let_def split_beta dest!: map_of_SomeD
      split: option.splits SessionState.splits sum.splits)

lemma shutdown_begin_inner [simp]: "reg_inner (snd (shutdown_begin grace sid r)) = reg_inner r"
  by (simp add: shutdown_begin_def Let_def split_beta split: option.split SessionState.split sum.split)

lemma shutdown_rec_turn: "shutdown_rec (fst (shutdown_turn elapsed sid st r)) = Some rec \<Longrightarrow> shutdown_rec st = Some rec"
  by (cases st) (auto simp: shutdown_turn_def shutdown_poll_def shutdown_finish_def Let_def split_beta
      split: option.splits sum.splits)

lemma grows_shutdown:
  assumes "reg_event (wm_next_conn s) P c (wm_reg s) r"
    and "\<And>rec. shutdown_rec st = Some rec \<Longrightarrow> held s rec \<or> rec \<in> snd ` set (reg_inner r)"
  shows "grows P c s ((set_reg r s)\<lparr>wm_shutdowns := (wm_shutdowns s)(j \<mapsto> (sid, st))\<rparr>)"
  using assms unfolding grows_def held_def in_registry_def by (auto simp: set_reg_def split: if_splits)

text \<open>Every event that is not a piece of a call is a change by other tasks.\<close>

lemma whole_grows:
  assumes "futures_late s" "\<nexists>k p. e = Wm_Piece k p"
  shows "\<exists>c. grows (event_answers e) c s (whole_step srv s e)"
proof (cases e)
  case Wm_Open
  have "reg_event (wm_next_conn s) P c (wm_reg s) (as_registry (open_connection (wm_next_conn s) (wm_app s)))" for P c
    by (simp add: open_connection_def) (rule reg_event_conns, simp_all)
  then show ?thesis using Wm_Open by (auto simp: grows_def held_def in_registry_def less_Suc_eq) (simp add: open_connection_def)+
next
  case (Wm_Frame env c fr)
  have "grows (frame_answers env c fr) c s (s\<lparr>wm_app := snd (reader_step env c fr (wm_app s))\<rparr>)" if "c < wm_next_conn s"
    by (rule grows_app [OF reg_event_reader [OF that]])
  then show ?thesis using Wm_Frame by auto
next
  case (Wm_Close now c)
  then show ?thesis by (auto intro: grows_app reg_event_close)
next
  case (Wm_Sweep cfg now)
  then show ?thesis by (auto intro: grows_app reg_event_grace)
next
  case (Wm_Call k q)
  then show ?thesis by (auto simp: grows_def held_def in_registry_def split: if_splits)
next
  case (Wm_Internal env k q)
  then show ?thesis using grows_service_begin [OF assms(1)] by simp
next
  case (Wm_Turn env k)
  then show ?thesis using grows_caller_turn [OF assms(1)] by simp
next
  case (Wm_Piece k p)
  then show ?thesis using assms(2) by blast
next
  case (Wm_Tick n)
  then show ?thesis by (simp add: grows_def held_def in_registry_def)
next
  case (Wm_Shutdown grace j sid)
  then show ?thesis
    using shutdown_rec_begin [of grace sid "wm_reg s"]
    by (auto simp: split_beta intro!: grows_shutdown reg_event_shutdown_begin)
next
  case (Wm_Shutdown_Turn elapsed j)
  have ev: "reg_event (wm_next_conn s) P c (wm_reg s) (snd (shutdown_turn elapsed sid st (wm_reg s)))" for P c sid st
    by (simp add: shutdown_turn_def reg_event_shutdown_poll reg_event_shutdown_finish split: shutdown.split)
  have "held s rec" if "wm_shutdowns s j = Some (sid, st)" "shutdown_rec (fst (shutdown_turn elapsed sid st (wm_reg s))) = Some rec" for sid st rec
    using that(1) shutdown_rec_turn [OF that(2)] unfolding held_def by blast
  with Wm_Shutdown_Turn show ?thesis
    by (auto simp: split_beta intro!: grows_shutdown [OF ev] split: option.split)
next
  case Wm_Replay
  then show ?thesis by (simp add: grows_app)
next
  case (Wm_Cache f)
  then show ?thesis by (simp add: set_reg_def grows_app reg_event_cache)
qed

section \<open>Every queue of the manager is in order\<close>

lemma call_rank_le: "call_step srv env q ph app = (ph', app') \<Longrightarrow> call_rank ph' \<le> call_rank ph - 1"
  using call_rank_step [of srv env q ph app] by simp

lemma run_piece_futures: "wm_futures (run_piece k p s) j = None \<longleftrightarrow> wm_futures s j = None"
  by (auto simp: run_piece_def Let_def split: option.split)

lemma run_piece_fields [simp]:
  "wm_callers (run_piece k p s) = wm_callers s" "wm_next_conn (run_piece k p s) = wm_next_conn s"
  "wm_shutdowns (run_piece k p s) = wm_shutdowns s" "reg_inner (wm_reg (run_piece k p s)) = reg_inner (wm_reg s)"
  "next_disp (wm_reg (run_piece k p s)) = next_disp (wm_reg s)"
  by (simp_all add: run_piece_def Let_def split: option.split)

lemma futures_late_step [inv_intros]:
  assumes "futures_late s"
  shows "futures_late (whole_step srv s e)"
proof (cases e)
  case (Wm_Turn env k)
  show ?thesis
  proof (cases "\<exists>q ph. wm_callers s k = Some (Agent q ph)")
    case True
    then obtain q ph where k: "wm_callers s k = Some (Agent q ph)" by blast
    have "futures_late (agent_step srv env' k q ph s)" for env'
      using k
    proof (cases rule: agent_step_cases [where srv = srv and env = env'])
      case (step ph' app)
      with assms k call_rank_le [OF step(1)] show ?thesis by (auto simp: futures_late_def dest: spec [of _ k])
    next
      case (call app rec cn ps dl ctx a nd c')
      with assms show ?thesis by (auto simp: futures_late_def)
    qed
    then show ?thesis using assms k Wm_Turn
      by (cases rule: agent_turn_step [of srv env k q ph s]) (simp_all add: caller_turn_def)
  next
    case False
    then show ?thesis using assms Wm_Turn
      by (auto simp: caller_turn_def futures_late_def split: option.split caller.splits internal_phase.split call_state.split)
  qed
next
  case (Wm_Internal env k q)
  with assms show ?thesis
    by (auto simp: service_begin_def Let_def futures_late_def split: internal_phase.split)
next
  case (Wm_Piece k p)
  with assms show ?thesis by (simp add: futures_late_def run_piece_futures)
qed (use assms in \<open>auto simp: futures_late_def split_beta split: option.split\<close>)

text \<open>
  The dispatchers: every queue satisfies the invariant of the dispatcher's own system, and one that has
  not been created has seen nobody.
\<close>

definition queues_ok :: "whole \<Rightarrow> bool" where
  "queues_ok s \<longleftrightarrow> (\<forall>d. disp_inv (session_view s d 0)) \<and>
     (\<forall>d \<ge> next_disp (wm_reg s). wm_arrivals s d = [] \<and> (\<forall>k f. wm_futures s k = Some f \<longrightarrow> cf_disp f \<noteq> d)) \<and>
     (\<forall>rec. held s rec \<longrightarrow> sr_dispatcher rec < next_disp (wm_reg s)) \<and> futures_late s"

lemma queues_ok_inv: "queues_ok s \<Longrightarrow> disp_inv (session_view s d c)"
  unfolding queues_ok_def using disp_inv_view_conn by blast

lemma disp_inv_drain: "disp_inv t \<Longrightarrow> disp_inv (t\<lparr>disp := disp_drain (disp t)\<rparr>)"
  by (simp add: disp_inv_def disp_drain_def)

lemma queues_ok_piece:
  assumes "queues_ok s"
  shows "queues_ok (run_piece k p s)"
proof (cases "wm_futures s k")
  case None
  then show ?thesis using assms by (simp add: run_piece_def)
next
  case (Some f)
  have "disp_inv (session_view (run_piece k p s) d c)" for d c
  proof (cases "d = cf_disp f")
    case True
    have "disp_inv (session_view (run_piece k p s) d (cf_conn f))"
      unfolding True view_piece [OF Some] by (intro disp_inv_step queues_ok_inv [OF assms])
    then show ?thesis by (rule disp_inv_view_conn)
  next
    case False
    with view_other [OF Some False, of p c] queues_ok_inv [OF assms, of d c] show ?thesis by auto
  qed
  moreover have "held (run_piece k p s) rec = held s rec" for rec
    by (simp add: held_def in_registry_def)
  moreover have "\<not> next_disp (wm_reg s) \<le> cf_disp f" using assms Some unfolding queues_ok_def by blast
  ultimately show ?thesis
    using assms futures_late_step [of s _ "Wm_Piece k p"] Some
    unfolding queues_ok_def by (auto simp: run_piece_def Let_def split: if_splits)
qed

lemma queues_ok_grows:
  assumes ok: "queues_ok s" and g: "grows P c s s'" and late: "futures_late s'"
  shows "queues_ok s'"
proof -
  let ?r = "wm_reg s" and ?r' = "wm_reg s'"
  have ev: "reg_event (wm_next_conn s) P c ?r ?r'" and same: "wm_arrivals s' = wm_arrivals s" "wm_admissions s' = wm_admissions s"
    and fut: "\<And>k. wm_futures s' k = wm_futures s k \<or> wm_futures s k = None \<and> (\<exists>f. wm_futures s' k = Some f \<and> new_future s f)"
    and hold: "\<And>rec. held s' rec \<Longrightarrow> held s rec \<or> in_registry s' rec"
    using g by (auto simp: grows_def)
  have more: "next_disp ?r \<le> next_disp ?r'" using ev by (auto simp: reg_event_def)
  have newf: "cf_disp f < next_disp ?r \<and> cf_state f = Call_New" if "new_future s f" for f
    using that ok unfolding queues_ok_def new_future_def by (auto simp: enqueue_call_def)
  have calls: "future_on d (wm_futures s' k) = future_on d (wm_futures s k)" for d k
    using fut [of k] newf by (auto simp: future_on_def)
  have view: "disp_inv (session_view s' d 0)" for d
  proof -
    have "disp_inv ((session_view s d 0)\<lparr>disp := reg_disps ?r' d\<rparr>)"
    proof (cases "reg_disps ?r' d = reg_disps ?r d \<or> reg_disps ?r' d = disp_drain (reg_disps ?r d)")
      case True
      then show ?thesis
        using disp_inv_drain [OF queues_ok_inv [OF ok, of d 0]] queues_ok_inv [OF ok, of d 0] by (auto simp: session_view_def)
    next
      case False
      with ev have d: "d = next_disp ?r" "reg_disps ?r' d = dispatcher_new" by (auto simp: reg_event_def)
      then have "wm_arrivals s d = []" "\<And>k. future_on d (wm_futures s k) = Call_New"
        using ok by (auto simp: queues_ok_def future_on_def split: option.split)
      then show ?thesis
        using queues_ok_inv [OF ok, of d 0] d
        by (auto simp: disp_inv_def session_view_def slot_inv_def queue_inv_def dispatcher_new_def)
    qed
    then show ?thesis by (simp add: disp_inv_def session_view_def same calls)
  qed
  have fresh: "cf_disp f < next_disp ?r" if "wm_futures s' k = Some f" for k f
    using fut [of k] newf that ok unfolding queues_ok_def by (metis not_less option.sel)
  have "sr_dispatcher rec < next_disp ?r'" if "held s' rec" for rec
  proof (cases "held s rec")
    case True
    then show ?thesis using ok more unfolding queues_ok_def by (meson less_le_trans)
  next
    case False
    with hold [OF that] obtain e where "e \<in> set (reg_inner ?r')" "snd e = rec" unfolding in_registry_def by blast
    with ev have "rec_from (wm_next_conn s) c ?r ?r' rec" by (auto simp: reg_event_def)
    moreover have "sr_dispatcher (snd e) < next_disp ?r" if "e \<in> set (reg_inner ?r)" for e
      using ok that unfolding queues_ok_def held_def in_registry_def by blast
    ultimately show ?thesis using more by (fastforce simp: rec_from_def)
  qed
  then show ?thesis
    using view late more fresh ok same unfolding queues_ok_def by (metis le_trans not_less)
qed

lemma queues_ok_step [inv_intros]: "queues_ok s \<Longrightarrow> queues_ok (whole_step srv s e)"
proof (cases "\<exists>k p. e = Wm_Piece k p")
  case True
  assume "queues_ok s"
  with True show ?thesis by (auto simp: queues_ok_piece)
next
  case False
  assume ok: "queues_ok s"
  then have late: "futures_late s" by (simp add: queues_ok_def)
  from whole_grows [OF late False] obtain c where "grows (event_answers e) c s (whole_step srv s e)" by blast
  with ok late show ?thesis by (blast intro: queues_ok_grows futures_late_step)
qed

lemma queues_ok_start: "queues_ok (whole_start cache gate)"
  by (auto simp: queues_ok_def whole_start_def manager_start_def registry_new_def held_def in_registry_def futures_late_def
      session_view_def future_on_def disp_inv_def slot_inv_def queue_inv_def dispatcher_new_def)

interpretation wm: event_machine "whole_step srv" queues_ok for srv
  by unfold_locales (rule queues_ok_step)

lemma queues_ok_run: "queues_ok (whole_run srv (whole_start cache gate) es)"
  unfolding whole_run_def by (rule wm.run_keeps [OF queues_ok_start])

definition running_on :: "whole \<Rightarrow> nat \<Rightarrow> nat set" where
  "running_on s d = {k. is_running (future_on d (wm_futures s k))}"

lemma running_on_slot:
  assumes "queues_ok s"
  shows "finite (running_on s d)" "card (running_on s d) = unat (inflight (reg_disps (wm_reg s) d))" "card (running_on s d) \<le> 1"
proof -
  let ?d = "reg_disps (wm_reg s) d"
  have "slot_inv ?d (\<lambda>k. future_on d (wm_futures s k))"
    using queues_ok_inv [OF assms, of d 0] by (simp add: disp_inv_def session_view_def)
  then consider "inflight ?d = 0" "running_on s d = {}" | j where "inflight ?d = 1" "running_on s d = {j}"
    unfolding slot_inv_def running_on_def by blast
  then show "finite (running_on s d)" "card (running_on s d) = unat (inflight ?d)" "card (running_on s d) \<le> 1"
    by (cases; simp)+
qed

text \<open>
  C9: in the whole manager every session runs one call at a time, in order. Whatever agents and the masking
  service call, whatever clients send and whichever connections, sessions and shutdowns come and go
  in between, each dispatcher has at most one running call, exactly as many as its counter says; it has
  given its permit in the order of arrival; and the list of sessions shows agents exactly the number of calls that run.
\<close>

theorem manager_runs_one_call_per_session:
  "let s = whole_run srv (whole_start cache gate) es; r = wm_reg s in
    (\<forall>d. finite (running_on s d) \<and> card (running_on s d) = unat (inflight (reg_disps r d)) \<and> card (running_on s d) \<le> 1 \<and>
       subseq (wm_admissions s d @ waiters (reg_disps r d)) (wm_arrivals s d) \<and> distinct (wm_arrivals s d)) \<and>
    map (\<lambda>rec. unat (li_inflight (list_item r now rec))) (reg_snapshot r) =
      map (\<lambda>rec. card (running_on s (sr_dispatcher rec))) (reg_snapshot r)"
proof -
  define s where "s = whole_run srv (whole_start cache gate) es"
  have ok: "queues_ok s" by (simp add: s_def queues_ok_run)
  note slot = running_on_slot [OF ok]
  have "subseq (wm_admissions s d @ waiters (reg_disps (wm_reg s) d)) (wm_arrivals s d) \<and> distinct (wm_arrivals s d)" for d
    using queues_ok_inv [OF ok, of d 0] by (simp add: disp_inv_def session_view_def)
  with slot have "(\<forall>d. finite (running_on s d) \<and> card (running_on s d) = unat (inflight (reg_disps (wm_reg s) d)) \<and> card (running_on s d) \<le> 1 \<and>
       subseq (wm_admissions s d @ waiters (reg_disps (wm_reg s) d)) (wm_arrivals s d) \<and> distinct (wm_arrivals s d))" by blast
  moreover have "map (\<lambda>rec. unat (li_inflight (list_item (wm_reg s) now rec))) (reg_snapshot (wm_reg s)) =
      map (\<lambda>rec. card (running_on s (sr_dispatcher rec))) (reg_snapshot (wm_reg s))"
    by (simp add: list_item_def slot(2))
  ultimately show ?thesis unfolding s_def [symmetric] Let_def by blast
qed

end
