(* ===== verification/Whole_Calls.thy ===== *)
theory Whole_Calls
  imports Whole_Manager
begin

text \<open>
  What callers can rely on in the whole manager: a call ends when its client is lost, and the answer
  it gets is the one its own client gave to its own request.
\<close>

section \<open>What a piece of a call does to its connection\<close>

text \<open>The cell a dropped call gives up.\<close>

definition dropped_cells :: "call_piece \<Rightarrow> call_state \<Rightarrow> nat set" where
  "dropped_cells p c = (case (p, c) of (Pc_Drop, Call_Running ic _) \<Rightarrow> {snd ic} | _ \<Rightarrow> {})"

lemma send_cancel_env: "conn_env {} P h (send_tool_cancel i h)"
proof -
  obtain r h' where d: "dispatch_request TOOL_CANCEL
      (encode_cancel_params \<lparr>tcp_id = i, tcp_reason = Some ''cancelled by manager''\<rparr>) h = (r, h')"
    by (metis surj_pair)
  have env: "conn_env {} P h h'" using conn_env_dispatch [of "{}" P h TOOL_CANCEL] d by (metis snd_conv)
  have "conn_env {} P h (drop_receiver c h')" if "r = Ok (j, c)" for j c
  proof -
    have "next_cell h \<le> c" using keeps_dispatch [OF d] that by blast
    moreover have "conn_env {c} P h (drop_receiver c h')"
      using conn_env_trans [OF conn_env_weaken [OF env] conn_env_drop, of c] by blast
    ultimately show ?thesis by (fastforce simp: conn_env_def)
  qed
  with env show ?thesis by (auto simp: send_tool_cancel_def d Let_def split: sum.split)
qed

lemma poll_running_env: "conn_env {} P h (snd (poll_running cc dl cs ic h))"
  by (auto simp: poll_running_def conn_env_cancel send_cancel_env split: oneshot.split sum.split)

lemma admitted_env: "conn_env {} P h (snd (snd (enqueue_admitted ps d h)))"
  using conn_env_dispatch [of "{}" P h TOOL_CALL "encode_call_params ps"]
  by (auto simp: enqueue_admitted_def Let_def split_beta split: sum.split)

lemma piece_env: "conn_env (dropped_cells p (calls v k)) P (conn v) (conn (disp_step v (piece_event k p)))"
proof (cases p)
  case Pc_Poll
  show ?thesis
  proof (cases "calls v k")
    case Call_Queued
    then show ?thesis
      using Pc_Poll admitted_env [of P "conn v" "call_params v k"]
      by (cases rule: poll_admission_cases [of "call_cancelled v k" "deadline_hit v k" k "disp v"])
         (auto simp: disp_step.simps step_queued_def dropped_cells_def split: prod.split sum.split, (metis snd_conv)+)
  next
    case (Call_Running ic cs)
    obtain o' h where o': "poll_running (call_cancelled v k) (deadline_hit v k) cs ic (conn v) = (o', h)" by (metis surj_pair)
    with poll_running_env [of P "conn v" "call_cancelled v k" "deadline_hit v k" cs ic] have "conn_env {} P (conn v) h" by simp
    with Pc_Poll Call_Running o' show ?thesis
      by (auto simp: disp_step.simps step_running_def dropped_cells_def split: running.split)
  qed (simp_all add: Pc_Poll disp_step.simps dropped_cells_def)
next
  case Pc_Drop
  then show ?thesis by (auto simp: disp_step.simps abandon_call_def dropped_cells_def conn_env_drop split: call_state.split)
qed (auto simp: disp_step.simps enqueue_start_def dropped_cells_def)

text \<open>What a call waits for: a cell of its own, entered under the id of its own request.\<close>

definition waits_for :: "ConnectionHandle \<Rightarrow> Id \<Rightarrow> nat \<Rightarrow> json \<Rightarrow> bool" where
  "waits_for h i x ps \<longleftrightarrow> x < next_cell h \<and> cells h x \<noteq> ReceiverDropped \<and>
     (\<forall>j. (j, x) \<in> set (pending h) \<longrightarrow> j = i) \<and> Request i TOOL_CALL ps \<in> set (sent h)"

lemma waits_for_env:
  assumes "waits_for h i x ps" "conn_env X P h h'" "x \<notin> X"
  shows "waits_for h' i x ps"
  using assms unfolding waits_for_def conn_env_def by (meson less_le_trans subsetD)

lemma dispatch_waits:
  assumes "dispatch_request TOOL_CALL ps h = (Ok (i, x), h')" "table_ok h"
  shows "waits_for h' i x ps" "cells h' x = Empty" "next_cell h \<le> x"
proof -
  have new: "(j, next_cell h) \<notin> set (pending h)" for j using assms(2) by (auto simp: table_ok_def)
  show "waits_for h' i x ps" "cells h' x = Empty" "next_cell h \<le> x"
    using assms(1) new
    by (auto simp: dispatch_request_def send_request_def insert_pending_def fresh_id_def Let_def waits_for_def
        cancel_pending_def set_hm_del dest!: hm_put_entry split: if_splits option.splits)
qed

text \<open>A call runs after one of its pieces only if it ran before or has just sent its request.\<close>

lemma piece_running:
  assumes "calls (disp_step v (piece_event k p)) k = Call_Running (i, x) b" "table_ok (conn v)"
  obtains b' where "calls v k = Call_Running (i, x) b'" "x \<notin> dropped_cells p (calls v k)"
  | "next_cell (conn v) \<le> x" "cells (conn (disp_step v (piece_event k p))) x = Empty"
    "waits_for (conn (disp_step v (piece_event k p))) i x (encode_call_params (call_params v k))"
proof (cases p)
  case Pc_Poll
  show ?thesis
  proof (cases "calls v k")
    case Call_Queued
    show ?thesis
    proof (cases rule: poll_admission_cases [of "call_cancelled v k" "deadline_hit v k" k "disp v"])
      case (granted ws)
      let ?d = "(disp v)\<lparr>permits := permits (disp v) - 1, waiters := ws\<rparr>"
      obtain r d' h' where adm: "enqueue_admitted (call_params v k) ?d (conn v) = (r, d', h')" by (metis prod_cases3)
      with Pc_Poll Call_Queued granted assms(1) have "r = Ok (i, x)"
        by (auto simp: disp_step.simps step_queued_def split: sum.splits)
      with adm have "dispatch_request TOOL_CALL (encode_call_params (call_params v k)) (conn v) = (Ok (i, x), h')"
        by (auto simp: enqueue_admitted_def Let_def split: if_splits prod.splits sum.splits)
      from dispatch_waits [OF this assms(2)] show ?thesis
        using that(2) Pc_Poll Call_Queued granted adm by (simp add: disp_step.simps step_queued_def \<open>r = Ok (i, x)\<close>)
    qed (use Pc_Poll Call_Queued assms(1) in \<open>auto simp: disp_step.simps step_queued_def\<close>)
  next
    case (Call_Running ic cs)
    with Pc_Poll assms(1) show ?thesis
      by (intro that(1)) (auto simp: disp_step.simps step_running_def dropped_cells_def split: prod.splits running.splits)
  qed (use Pc_Poll assms(1) in \<open>auto simp: disp_step.simps\<close>)
next
  case Pc_Drop
  then show ?thesis using assms(1) by (auto simp: disp_step.simps abandon_call_def split: call_state.splits)
qed (use assms(1) that(1) in \<open>auto simp: disp_step.simps enqueue_start_def dropped_cells_def split: if_splits sum.splits\<close>)

text \<open>What a call makes of the client's answer, and which outcomes can only come from an answer.\<close>

definition answer_outcome :: "(JsonRpcError, json) res \<Rightarrow> (DispatcherError, ToolCallResult) res" where
  "answer_outcome a = finish_call (case a of
     Inr v \<Rightarrow> Ok v
   | Inl e \<Rightarrow> Err (if err_code e = TOOL_CANCELLED then Cancelled else ClientError e))"

definition from_client :: "(DispatcherError, ToolCallResult) res \<Rightarrow> bool" where
  "from_client out \<longleftrightarrow> (case out of
     Inr _ \<Rightarrow> True
   | Inl e \<Rightarrow> (case e of Cancelled \<Rightarrow> True | ClientError _ \<Rightarrow> True | InvalidResult _ \<Rightarrow> True | _ \<Rightarrow> False))"

lemma admitted_error: "fst (enqueue_admitted ps d h) = Inl e \<Longrightarrow> \<not> from_client (Err e)"
  by (auto simp: enqueue_admitted_def dispatch_request_def send_request_def Let_def split_beta from_client_def
      split: if_splits sum.splits)

lemma admission_error: "poll_admission c dl k d = (Adm_Fail e, d') \<Longrightarrow> \<not> from_client (Err e)"
  by (auto simp: poll_admission_def from_client_def split: if_splits list.splits)

lemma poll_running_answer:
  assumes "poll_running cc dl cs ic h = (Run_Done out, h')" "from_client (finish_call out)"
  shows "\<exists>a. cells h (snd ic) = Full a \<and> finish_call out = answer_outcome a"
  using assms
  by (auto simp: poll_running_def answer_outcome_def from_client_def finish_call_def
      split: oneshot.splits sum.splits if_splits)

lemma piece_done:
  assumes "calls (disp_step v (piece_event k p)) k = Call_Done out" "calls v k \<noteq> Call_Done out" "from_client out"
  shows "\<exists>i x b a. calls v k = Call_Running (i, x) b \<and> cells (conn v) x = Full a \<and> out = answer_outcome a"
proof (cases p)
  case Pc_Poll
  show ?thesis
  proof (cases "calls v k")
    case Call_Queued
    obtain a d where poll: "poll_admission (call_cancelled v k) (deadline_hit v k) k (disp v) = (a, d)" by (metis surj_pair)
    obtain r d' h' where adm: "enqueue_admitted (call_params v k) d (conn v) = (r, d', h')" by (metis prod_cases3)
    have "\<not> from_client out"
      using Pc_Poll Call_Queued assms(1,2) poll adm admission_error [of _ _ _ _ _ d] admitted_error [of "call_params v k" d "conn v"]
      by (cases a; cases r) (auto simp: disp_step.simps step_queued_def)
    with assms(3) show ?thesis by simp
  next
    case (Call_Running ic cs)
    obtain o' h where poll: "poll_running (call_cancelled v k) (deadline_hit v k) cs ic (conn v) = (o', h)" by (metis surj_pair)
    with Pc_Poll Call_Running assms(1) obtain r where "o' = Run_Done r" "out = finish_call r"
      by (cases o') (auto simp: disp_step.simps step_running_def)
    with poll_running_answer [of _ _ cs ic "conn v" r h] poll assms(3) Call_Running show ?thesis
      by (metis prod.collapse)
  qed (use Pc_Poll assms(1,2) in \<open>auto simp: disp_step.simps\<close>)
next
  case Pc_Start
  then show ?thesis using assms
    by (auto simp: disp_step.simps enqueue_start_def from_client_def split: if_splits sum.splits)
qed (use assms in \<open>auto simp: disp_step.simps abandon_call_def split: call_state.splits\<close>)

section \<open>Which connection a call uses\<close>

text \<open>
  A dispatcher belongs to one connection for good: the one over which its session was registered. Everyone who
  holds a record of it, or runs a call on it, has that connection.
\<close>

definition links_ok :: "(nat \<Rightarrow> nat) \<Rightarrow> whole \<Rightarrow> bool" where
  "links_ok link s \<longleftrightarrow>
     (\<forall>rec c. held s rec \<longrightarrow> sr_connection rec = Some c \<longrightarrow> c < wm_next_conn s \<and> link (sr_dispatcher rec) = c) \<and>
     (\<forall>k f. wm_futures s k = Some f \<longrightarrow> cf_conn f < wm_next_conn s \<and> link (cf_disp f) = cf_conn f)"

lemma links_ok_grows:
  assumes ok: "queues_ok s" and l: "links_ok link s" and g: "grows P c s s'"
  shows "links_ok (if next_disp (wm_reg s') = Suc (next_disp (wm_reg s)) then link(next_disp (wm_reg s) := c) else link) s'"
    (is "links_ok ?link s'")
proof -
  let ?n = "next_disp (wm_reg s)"
  have old: "?link d = link d" if "d < ?n" for d using that by simp
  have more: "wm_next_conn s \<le> wm_next_conn s'" using g by (simp add: grows_def)
  have hold: "y < wm_next_conn s' \<and> ?link (sr_dispatcher rec) = y" if "held s rec" "sr_connection rec = Some y" for rec y
  proof -
    have "y < wm_next_conn s" "link (sr_dispatcher rec) = y" using l that unfolding links_ok_def by blast+
    moreover have "sr_dispatcher rec < ?n" using ok that(1) by (simp add: queues_ok_def)
    ultimately show ?thesis using more by simp
  qed
  have new: "y < wm_next_conn s' \<and> ?link (sr_dispatcher rec) = y" if "in_registry s' rec" "sr_connection rec = Some y" for rec y
  proof -
    note y = that(2)
    from that(1) g have "rec_from (wm_next_conn s) c (wm_reg s) (wm_reg s') rec"
      by (auto simp: in_registry_def grows_def reg_event_def)
    then consider e where "e \<in> set (reg_inner (wm_reg s))" "sr_dispatcher (snd e) = sr_dispatcher rec" "sr_connection (snd e) = Some y"
      | "sr_dispatcher rec = ?n" "next_disp (wm_reg s') = Suc ?n" "y = c" "c < wm_next_conn s"
      using y unfolding rec_from_def by auto
    then show ?thesis
    proof cases
      case (1 e)
      then have "held s (snd e)" by (auto simp: held_def in_registry_def)
      with hold [OF this 1(3)] 1(2) show ?thesis by simp
    next
      case 2
      then show ?thesis using more by simp
    qed
  qed
  have fut: "cf_conn f < wm_next_conn s' \<and> ?link (cf_disp f) = cf_conn f" if f: "wm_futures s' k = Some f" for k f
  proof (cases "wm_futures s k = Some f")
    case True
    then have "cf_conn f < wm_next_conn s" "link (cf_disp f) = cf_conn f" using l unfolding links_ok_def by blast+
    moreover have "\<not> ?n \<le> cf_disp f" using ok True unfolding queues_ok_def by blast
    ultimately show ?thesis using more by simp
  next
    case False
    with f g have "new_future s f" unfolding grows_def by (metis option.sel)
    with hold show ?thesis unfolding new_future_def enqueue_call_def by fastforce
  qed
  show ?thesis
    unfolding links_ok_def using hold new fut g unfolding grows_def by blast
qed

lemma links_ok_piece: "links_ok link s \<Longrightarrow> links_ok link (run_piece k p s)"
  by (auto simp: links_ok_def held_def in_registry_def run_piece_def Let_def split: option.splits if_splits)

section \<open>What running calls wait for\<close>

abbreviation wm_conn :: "whole \<Rightarrow> nat \<Rightarrow> ConnectionHandle" where
  "wm_conn s c \<equiv> reg_conns (wm_reg s) c"

abbreviation runs :: "whole \<Rightarrow> nat \<Rightarrow> call_future \<Rightarrow> Id \<Rightarrow> nat \<Rightarrow> bool" where
  "runs s k f i x \<equiv> wm_futures s k = Some f \<and> (\<exists>b. cf_state f = Call_Running (i, x) b)"

definition calls_ok :: "whole \<Rightarrow> bool" where
  "calls_ok s \<longleftrightarrow> (\<forall>c < wm_next_conn s. covered (wm_conn s c) \<and> table_ok (wm_conn s c)) \<and>
     (\<forall>k f i x. runs s k f i x \<longrightarrow> waits_for (wm_conn s (cf_conn f)) i x (encode_call_params (cf_params f))) \<and>
     (\<forall>k f i x j g i'. runs s k f i x \<longrightarrow> runs s j g i' x \<longrightarrow> cf_conn f = cf_conn g \<longrightarrow> k = j)"

lemma grows_runs:
  assumes "grows P c s s'" "runs s' k f i x"
  shows "runs s k f i x"
proof -
  have "\<not> new_future s f" using assms(2) by (auto simp: new_future_def enqueue_call_def)
  with assms show ?thesis unfolding grows_def by (metis option.sel)
qed

lemma grows_conn:
  assumes "grows P c s s'" "x < wm_next_conn s"
  shows "conn_env {} (P x) (wm_conn s x) (wm_conn s' x)"
  using assms by (simp add: grows_def reg_event_def)

lemma calls_ok_grows:
  assumes c: "calls_ok s" and l: "links_ok link s" and g: "grows P y s s'"
  shows "calls_ok s'"
  unfolding calls_ok_def
proof (intro conjI allI impI)
  fix x assume x: "x < wm_next_conn s'"
  have "covered (wm_conn s' x) \<and> table_ok (wm_conn s' x)"
  proof (cases "x < wm_next_conn s")
    case True
    with c grows_conn [OF g True] show ?thesis by (simp add: calls_ok_def conn_env_def)
  next
    case False
    with x g have "wm_conn s' x = conn_new" by (simp add: grows_def)
    then show ?thesis by (simp add: covered_new) (simp add: table_ok_def conn_new_def)
  qed
  then show "covered (wm_conn s' x)" "table_ok (wm_conn s' x)" by simp_all
next
  fix k f i x assume "runs s' k f i x"
  then have r: "runs s k f i x" by (rule grows_runs [OF g])
  with l have "cf_conn f < wm_next_conn s" unfolding links_ok_def by blast
  moreover have "waits_for (wm_conn s (cf_conn f)) i x (encode_call_params (cf_params f))" using c r unfolding calls_ok_def by blast
  ultimately show "waits_for (wm_conn s' (cf_conn f)) i x (encode_call_params (cf_params f))"
    using waits_for_env grows_conn [OF g] by blast
next
  fix k f i x j h i' assume "runs s' k f i x" "runs s' j h i' x" "cf_conn f = cf_conn h"
  with c grows_runs [OF g] show "k = j" unfolding calls_ok_def by blast
qed

text \<open>What a piece of call \<open>k\<close> leaves of the others, and what becomes of itself.\<close>

lemma piece_others: "j \<noteq> k \<Longrightarrow> wm_futures (run_piece k p s) j = wm_futures s j"
  by (simp add: run_piece_def Let_def split: option.split)

lemma piece_self:
  assumes "wm_futures s k = Some f"
  defines "v \<equiv> session_view s (cf_disp f) (cf_conn f)"
  shows "wm_futures (run_piece k p s) k = Some (f\<lparr>cf_state := calls (disp_step v (piece_event k p)) k,
      cf_cancelled := call_cancelled (disp_step v (piece_event k p)) k\<rparr>)"
    and "wm_conn (run_piece k p s) c = (if c = cf_conn f then conn (disp_step v (piece_event k p)) else wm_conn s c)"
    and "calls v k = cf_state f" "call_params v k = cf_params f" "conn v = wm_conn s (cf_conn f)"
  by (simp_all add: run_piece_def assms Let_def session_view_def future_on_def)

lemma piece_conn:
  assumes "wm_futures s k = Some f"
  shows "conn_env (if c = cf_conn f then dropped_cells p (cf_state f) else {}) P (wm_conn s c) (wm_conn (run_piece k p s) c)"
  using piece_env [of p "session_view s (cf_disp f) (cf_conn f)" k P] piece_self [OF assms] by (simp split: if_split)

lemma calls_ok_waits:
  "calls_ok s \<Longrightarrow> runs s k f i x \<Longrightarrow> waits_for (wm_conn s (cf_conn f)) i x (encode_call_params (cf_params f))"
  "calls_ok s \<Longrightarrow> runs s k f i x \<Longrightarrow> runs s j g i' x \<Longrightarrow> cf_conn f = cf_conn g \<Longrightarrow> k = j"
  unfolding calls_ok_def by blast+

text \<open>A running call other than \<open>k\<close> ran before, in another cell than \<open>k\<close> may drop.\<close>

lemma piece_other_runs:
  assumes "calls_ok s" "wm_futures s k = Some f" "runs (run_piece k p s) j g i x" "j \<noteq> k"
  shows "runs s j g i x" "cf_conn g = cf_conn f \<Longrightarrow> x \<notin> dropped_cells p (cf_state f)"
proof -
  show r: "runs s j g i x" using assms(3) piece_others [OF assms(4), of p s] by simp
  show "x \<notin> dropped_cells p (cf_state f)" if "cf_conn g = cf_conn f"
  proof
    assume "x \<in> dropped_cells p (cf_state f)"
    then obtain i' b where "cf_state f = Call_Running (i', x) b"
      by (auto simp: dropped_cells_def split: call_piece.splits call_state.splits)
    then have "runs s k f i' x" using assms(2) by blast
    with r assms(4) that show False using calls_ok_waits(2) [OF assms(1)] by metis
  qed
qed

text \<open>The call \<open>k\<close> itself runs on, or waits in a new cell.\<close>

lemma piece_own_runs:
  assumes "table_ok (wm_conn s (cf_conn f))" "wm_futures s k = Some f" "runs (run_piece k p s) k g i x"
  shows "cf_conn g = cf_conn f \<and> cf_params g = cf_params f \<and>
    (runs s k f i x \<and> x \<notin> dropped_cells p (cf_state f) \<or>
     next_cell (wm_conn s (cf_conn f)) \<le> x \<and> waits_for (wm_conn (run_piece k p s) (cf_conn f)) i x (encode_call_params (cf_params f)))"
proof -
  let ?v = "session_view s (cf_disp f) (cf_conn f)"
  note self = piece_self(1,2) [OF assms(2), where p = p] piece_self(3-5) [OF assms(2)]
  from assms(3) self(1) obtain b where "calls (disp_step ?v (piece_event k p)) k = Call_Running (i, x) b" by auto
  then have "runs s k f i x \<and> x \<notin> dropped_cells p (cf_state f) \<or>
     next_cell (wm_conn s (cf_conn f)) \<le> x \<and> waits_for (wm_conn (run_piece k p s) (cf_conn f)) i x (encode_call_params (cf_params f))"
    by (rule piece_running) (use assms(1,2) self in \<open>auto simp: self\<close>)
  with assms(3) self(1) show ?thesis by auto
qed

lemma calls_ok_piece:
  assumes c: "calls_ok s" and l: "links_ok link s"
  shows "calls_ok (run_piece k p s)"
proof (cases "wm_futures s k")
  case None
  with c show ?thesis by (simp add: run_piece_def)
next
  case (Some f)
  let ?s = "run_piece k p s"
  note env = piece_conn [OF Some, of _ p "\<lambda>_ _. False"] and other = piece_other_runs [OF c Some]
  have "cf_conn f < wm_next_conn s" using l Some unfolding links_ok_def by blast
  then have "table_ok (wm_conn s (cf_conn f))" using c by (simp add: calls_ok_def)
  note mine = piece_own_runs [OF this Some]
  have "covered (wm_conn ?s y) \<and> table_ok (wm_conn ?s y)" if "y < wm_next_conn s" for y
    using c that env [of y] by (simp add: calls_ok_def conn_env_def)
  moreover have "waits_for (wm_conn ?s (cf_conn g)) i x (encode_call_params (cf_params g))" if r: "runs ?s j g i x" for j g i x
  proof (cases "j = k")
    case True
    with r mine [of p g i x] show ?thesis
      using calls_ok_waits(1) [OF c, of k f i x] waits_for_env [OF _ env [of "cf_conn f"]] by auto
  next
    case False
    from other [OF r False] show ?thesis
      using calls_ok_waits(1) [OF c, of j g i x] waits_for_env [OF _ env [of "cf_conn g"]] by auto
  qed
  moreover have new: False if q: "runs ?s k h i x" "runs ?s m h' i' x" "m \<noteq> k" "cf_conn h = cf_conn h'" for h h' i i' m x
  proof -
    from other(1) [OF q(2,3)] have r': "runs s m h' i' x" .
    then have "x < next_cell (wm_conn s (cf_conn h'))" using calls_ok_waits(1) [OF c r'] by (simp add: waits_for_def)
    with mine [OF q(1)] q(4) have "runs s k f i x" by auto
    with r' q(3,4) mine [OF q(1)] show False using calls_ok_waits(2) [OF c] by metis
  qed
  moreover have "j = j'" if "runs ?s j g i x" "runs ?s j' g' i' x" "cf_conn g = cf_conn g'" "j \<noteq> k" "j' \<noteq> k" for j g i x j' g' i'
    using that other(1) calls_ok_waits(2) [OF c] by metis
  ultimately show ?thesis unfolding calls_ok_def run_piece_fields by metis
qed

section \<open>The invariant of the whole\<close>

definition whole_ok :: "whole \<Rightarrow> bool" where
  "whole_ok s \<longleftrightarrow> queues_ok s \<and> (\<exists>link. links_ok link s) \<and> calls_ok s"

lemma whole_ok_step [inv_intros]:
  assumes "whole_ok s"
  shows "whole_ok (whole_step srv s e)"
proof -
  from assms obtain link where ok: "queues_ok s" "links_ok link s" "calls_ok s" by (auto simp: whole_ok_def)
  show ?thesis
  proof (cases "\<exists>k p. e = Wm_Piece k p")
    case True
    then obtain k p where e: "whole_step srv s e = run_piece k p s" by auto
    show ?thesis
      unfolding e whole_ok_def
      using queues_ok_piece [OF ok(1)] links_ok_piece [OF ok(2)] calls_ok_piece [OF ok(3,2)] by blast
  next
    case False
    have "futures_late s" using ok(1) by (simp add: queues_ok_def)
    from whole_grows [OF this False] obtain c where g: "grows (event_answers e) c s (whole_step srv s e)" by blast
    show ?thesis
      using links_ok_grows [OF ok(1,2) g] calls_ok_grows [OF ok(3,2) g] queues_ok_step [OF ok(1)] unfolding whole_ok_def by blast
  qed
qed

lemma whole_ok_start: "whole_ok (whole_start cache gate)"
  using queues_ok_start
  by (auto simp: whole_ok_def links_ok_def calls_ok_def whole_start_def manager_start_def registry_new_def held_def in_registry_def)

interpretation wc: event_machine "whole_step srv" whole_ok for srv
  by unfold_locales (rule whole_ok_step)

lemma whole_ok_run: "whole_ok s \<Longrightarrow> whole_ok (whole_run srv s es)"
  unfolding whole_run_def by (rule wc.run_keeps)

lemma whole_run_simps [simp]:
  "whole_run srv s [] = s" "whole_run srv s (e # es) = whole_run srv (whole_step srv s e) es"
  "whole_run srv s (es @ fs) = whole_run srv (whole_run srv s es) fs"
  by (simp_all add: whole_run_def)

end
