(* ===== verification/Call_Outcomes.thy ===== *)
theory Call_Outcomes
  imports Whole_Calls
begin

text \<open>
  The promises of the whole manager to those who call: a call ends when its client is lost, and what it
  returns is what its own client answered to its own request.
\<close>

section \<open>A lost client\<close>

lemma whole_conn_env:
  assumes "whole_ok s" "c < wm_next_conn s"
  shows "\<exists>X. conn_env X (event_answers e c) (wm_conn s c) (wm_conn (whole_step srv s e) c) \<and>
    c < wm_next_conn (whole_step srv s e)"
proof (cases "\<exists>k p. e = Wm_Piece k p")
  case True
  then obtain k p where e: "e = Wm_Piece k p" by blast
  show ?thesis
  proof (cases "wm_futures s k")
    case None
    with e assms(2) show ?thesis by (auto simp: run_piece_def)
  next
    case (Some f)
    from piece_conn [OF Some, of c p] e assms(2) show ?thesis by auto
  qed
next
  case False
  have "futures_late s" using assms(1) by (simp add: whole_ok_def queues_ok_def)
  from whole_grows [OF this False] obtain y where g: "grows (event_answers e) y s (whole_step srv s e)" by blast
  with grows_conn [OF g assms(2)] assms(2) show ?thesis by (auto simp: grows_def intro: less_le_trans)
qed

lemma inactive_stays:
  assumes "whole_ok s" "c < wm_next_conn s" "\<not> conn_is_active (wm_conn s c)"
  shows "\<not> conn_is_active (wm_conn (whole_run srv s es) c)"
  using assms
proof (induction es arbitrary: s)
  case (Cons e es)
  from whole_conn_env [OF Cons.prems(1,2), of e srv]
  have "\<not> conn_is_active (wm_conn (whole_step srv s e) c)" "c < wm_next_conn (whole_step srv s e)"
    using Cons.prems(3) by (auto simp: conn_env_def)
  with Cons.IH Cons.prems(1) show ?case by (simp add: whole_ok_step)
qed simp

lemma close_inactive:
  assumes "c < wm_next_conn s"
  shows "\<not> conn_is_active (wm_conn (whole_step srv s (Wm_Close now c)) c)"
proof -
  have "\<not> conn_is_active (reg_conns (snd (mark_disconnected_if_generation sid g now r)) c)" if "\<not> conn_is_active (reg_conns r c)" for sid g r
    using that by (auto simp: mark_disconnected_if_generation_def disconnect_when_def drain_record_def conn_is_active_def split: option.split)
  then show ?thesis
    using assms by (auto simp: close_connection_def Let_def conn_is_active_def split: option.split)
qed

text \<open>Polls of the calls of one session, in the manager and on the session alone.\<close>

lemma view_polls:
  assumes "\<forall>k \<in> set ks. \<exists>f. wm_futures s k = Some f \<and> cf_disp f = d \<and> cf_conn f = c"
  shows "session_view (whole_run srv s (map (\<lambda>k. Wm_Piece k Pc_Poll) ks)) d c = disp_run (session_view s d c) (map Ev_Poll ks)"
  using assms
proof (induction ks arbitrary: s)
  case (Cons k ks)
  from Cons.prems obtain f where f: "wm_futures s k = Some f" "cf_disp f = d" "cf_conn f = c" by auto
  let ?s = "run_piece k Pc_Poll s"
  have "\<exists>g. wm_futures ?s j = Some g \<and> cf_disp g = d \<and> cf_conn g = c" if "j \<in> set ks" for j
    using that Cons.prems piece_self(1) [OF f(1), of Pc_Poll] f piece_others [of j k Pc_Poll s] by (cases "j = k") auto
  with Cons.IH [of ?s] view_piece [OF f(1), of Pc_Poll] f show ?case by simp
qed simp

lemma view_future:
  assumes "links_ok link s" "wm_futures s k = Some f" "calls (session_view s (cf_disp f) c) j \<noteq> Call_New"
  shows "\<exists>g. wm_futures s j = Some g \<and> cf_disp g = cf_disp f \<and> cf_conn g = cf_conn f"
proof -
  from assms(3) obtain g where g: "wm_futures s j = Some g" "cf_disp g = cf_disp f"
    by (auto simp: session_view_def future_on_def split: option.splits if_splits)
  with assms(1,2) show ?thesis unfolding links_ok_def by metis
qed

lemma view_dead:
  assumes ok: "whole_ok s" and f: "wm_futures s k = Some f" and dead: "\<not> conn_is_active (wm_conn s (cf_conn f))"
  shows "dead_session (session_view s (cf_disp f) (cf_conn f))"
proof -
  let ?v = "session_view s (cf_disp f) (cf_conn f)"
  from ok obtain link where l: "links_ok link s" and c: "calls_ok s" by (auto simp: whole_ok_def)
  then have "cf_conn f < wm_next_conn s" using f unfolding links_ok_def by blast
  then have h: "covered (wm_conn s (cf_conn f))" "pending (wm_conn s (cf_conn f)) = []"
    using c dead by (auto simp: calls_ok_def table_ok_def)
  have "(\<exists>r. cells (conn ?v) x = Full r) \<or> cells (conn ?v) x = SenderDropped" if "calls ?v j = Call_Running (i, x) b" for j i x b
  proof -
    from view_future [OF l f, of "cf_conn f" j] that obtain g where g: "wm_futures s j = Some g" "cf_disp g = cf_disp f" "cf_conn g = cf_conn f"
      by auto
    with that have "runs s j g i x" by (auto simp: session_view_def future_on_def)
    then have "cells (conn ?v) x \<noteq> ReceiverDropped"
      using calls_ok_waits(1) [OF c] g(3) by (force simp: waits_for_def session_view_def)
    moreover have "cells (conn ?v) x \<noteq> Empty" using h by (auto simp: covered_def session_view_def)
    ultimately show ?thesis by (cases "cells (conn ?v) x") auto
  qed
  with dead show ?thesis by (auto simp: dead_session_def) (simp add: session_view_def)
qed

lemma dead_view_finishes:
  assumes "dead_session v" "disp_inv v" "set js = {k. is_running (calls v k)}"
  shows "\<forall>k. finished (calls (disp_run v (map Ev_Poll (js @ waiters (disp v)))) k)"
proof -
  let ?u = "disp_run v (map Ev_Poll js)"
  have "\<forall>k \<in> set js. calls v k \<noteq> Call_Queued" using assms(3) by auto
  from dead_poll_others [OF assms(1) this] assms(3) have
    u: "dead_session ?u" "waiters (disp ?u) = waiters (disp v)" "\<forall>k. \<not> is_running (calls ?u k)"
    by (auto simp: finished_def) (metis mem_Collect_eq)+
  moreover have "slot_inv (disp ?u) (calls ?u)" "queue_inv (waiters (disp ?u)) (calls ?u)"
    using disp_inv_run [OF assms(2)] by (auto simp: disp_inv_def)
  ultimately show ?thesis using dead_poll_queue [OF u(1)] by (auto simp: slot_inv_def)
qed


section \<open>Where an answer comes from\<close>

text \<open>
  Somewhere in the run a client's frame on connection \<open>c\<close> answered the request \<open>i\<close> with \<open>a\<close>, after the manager had put
  \<open>tool.call\<close> with these parameters on that connection under this id.
\<close>

definition answered_in :: "gate_env \<Rightarrow> whole \<Rightarrow> whole_event list \<Rightarrow> nat \<Rightarrow> json \<Rightarrow> (JsonRpcError, json) res \<Rightarrow> Id \<Rightarrow> bool" where
  "answered_in srv s0 es c ps a i \<longleftrightarrow> (\<exists>es1 env t es2. es = es1 @ Wm_Frame env c (Fr_Message (Ws_Text t)) # es2 \<and>
     wire_parse (te_parse env) t = Ok (Response i a) \<and>
     Request i TOOL_CALL ps \<in> set (sent (wm_conn (whole_run srv s0 es1) c)))"

lemma answered_more: "answered_in srv s0 es c ps a i \<Longrightarrow> answered_in srv s0 (es @ es') c ps a i"
  unfolding answered_in_def by (metis append.assoc append_Cons)

lemma answered_now:
  assumes "event_answers e c i a" "Request i TOOL_CALL ps \<in> set (sent (wm_conn (whole_run srv s0 es) c))"
  shows "answered_in srv s0 (es @ [e]) c ps a i"
  using assms by (cases e) (auto simp: frame_answers_def answered_in_def)

definition future_answered :: "gate_env \<Rightarrow> whole \<Rightarrow> whole_event list \<Rightarrow> whole \<Rightarrow> call_future \<Rightarrow> bool" where
  "future_answered srv s0 es s f \<longleftrightarrow> (case cf_state f of
     Call_Running ic _ \<Rightarrow> (\<forall>a. cells (wm_conn s (cf_conn f)) (snd ic) = Full a \<longrightarrow>
        answered_in srv s0 es (cf_conn f) (encode_call_params (cf_params f)) a (fst ic))
   | Call_Done out \<Rightarrow> from_client out \<longrightarrow>
        (\<exists>i a. answered_in srv s0 es (cf_conn f) (encode_call_params (cf_params f)) a i \<and> out = answer_outcome a)
   | _ \<Rightarrow> True)"

definition all_answered :: "gate_env \<Rightarrow> whole \<Rightarrow> whole_event list \<Rightarrow> whole \<Rightarrow> bool" where
  "all_answered srv s0 es s \<longleftrightarrow> (\<forall>k f. wm_futures s k = Some f \<longrightarrow> future_answered srv s0 es s f)"

text \<open>A future that an event leaves as it is keeps its history.\<close>

lemma answered_keep:
  assumes "future_answered srv s0 es s f" "s = whole_run srv s0 es"
    and run: "\<And>i x b. cf_state f = Call_Running (i, x) b \<Longrightarrow>
      waits_for (wm_conn s (cf_conn f)) i x (encode_call_params (cf_params f)) \<and>
      (\<exists>X. conn_env X (event_answers e (cf_conn f)) (wm_conn s (cf_conn f)) (wm_conn s' (cf_conn f)))"
  shows "future_answered srv s0 (es @ [e]) s' f"
proof (cases "cf_state f")
  case (Call_Running ic b)
  obtain i x where ic: "ic = (i, x)" by (cases ic)
  from run [of i x b] Call_Running ic obtain X where
    w: "waits_for (wm_conn s (cf_conn f)) i x (encode_call_params (cf_params f))" and
    env: "conn_env X (event_answers e (cf_conn f)) (wm_conn s (cf_conn f)) (wm_conn s' (cf_conn f))" by blast
  have "answered_in srv s0 (es @ [e]) (cf_conn f) (encode_call_params (cf_params f)) a i" if "cells (wm_conn s' (cf_conn f)) x = Full a" for a
  proof -
    from env w that consider "cells (wm_conn s (cf_conn f)) x = Full a"
      | j where "event_answers e (cf_conn f) j a" "(j, x) \<in> set (pending (wm_conn s (cf_conn f)))"
      unfolding conn_env_def waits_for_def by blast
    then show ?thesis
    proof cases
      case 1
      then show ?thesis using assms(1) Call_Running ic by (auto simp: future_answered_def intro: answered_more)
    next
      case (2 j)
      then have "j = i" using w by (auto simp: waits_for_def)
      moreover have "Request i TOOL_CALL (encode_call_params (cf_params f)) \<in> set (sent (wm_conn (whole_run srv s0 es) (cf_conn f)))"
        using w unfolding assms(2) waits_for_def by blast
      ultimately show ?thesis using answered_now 2(1) by metis
    qed
  qed
  with Call_Running ic show ?thesis by (simp add: future_answered_def)
next
  case (Call_Done out)
  with assms(1) show ?thesis by (auto simp: future_answered_def intro: answered_more)
qed (simp_all add: future_answered_def)

lemma answered_piece:
  assumes ok: "whole_ok s" and all: "all_answered srv s0 es s" and s: "s = whole_run srv s0 es" and f: "wm_futures s k = Some f"
    and g: "wm_futures (run_piece k p s) k = Some g"
  shows "future_answered srv s0 (es @ [Wm_Piece k p]) (run_piece k p s) g"
proof -
  let ?v = "session_view s (cf_disp f) (cf_conn f)" and ?s = "run_piece k p s"
  note self = piece_self(1,2) [OF f, where p = p] piece_self(3-5) [OF f]
  have g': "cf_conn g = cf_conn f" "cf_params g = cf_params f" "cf_state g = calls (disp_step ?v (piece_event k p)) k"
    using g self(1) by auto
  from ok obtain link where c: "calls_ok s" and l: "links_ok link s" by (auto simp: whole_ok_def)
  then have "cf_conn f < wm_next_conn s" using f unfolding links_ok_def by blast
  with c have table: "table_ok (conn ?v)" by (simp add: self calls_ok_def)
  have old: "future_answered srv s0 es s f" using all f by (simp add: all_answered_def)
  show ?thesis
  proof (cases "cf_state g = cf_state f \<or> (\<exists>ic b b'. cf_state g = Call_Running ic b \<and> cf_state f = Call_Running ic b')")
    case True
    then have "future_answered srv s0 es s g" using old g'(1,2) by (cases "cf_state f") (auto simp: future_answered_def)
    moreover have "waits_for (wm_conn s (cf_conn g)) i x (encode_call_params (cf_params g))" if "cf_state g = Call_Running (i, x) b" for i x b
    proof -
      from True that have "\<exists>b. cf_state f = Call_Running (i, x) b" by (metis call_state.inject(1))
      with calls_ok_waits(1) [OF c, of k f i x] f show ?thesis by (simp add: g'(1,2))
    qed
    ultimately show ?thesis
      using piece_conn [OF f, of "cf_conn g" p] by (intro answered_keep [OF _ s]) auto
  next
    case False
    show ?thesis
    proof (cases "cf_state g")
      case (Call_Running ic b)
      obtain i x where ic: "ic = (i, x)" by (cases ic)
      have "calls (disp_step ?v (piece_event k p)) k = Call_Running (i, x) b" using Call_Running g'(3) ic by simp
      then have "cells (wm_conn ?s (cf_conn f)) x = Empty"
        by (rule piece_running [OF _ table]) (use False Call_Running ic self in auto)
      with Call_Running ic g' show ?thesis by (simp add: future_answered_def)
    next
      case (Call_Done out)
      have "\<exists>i a. answered_in srv s0 (es @ [Wm_Piece k p]) (cf_conn g) (encode_call_params (cf_params g)) a i \<and> out = answer_outcome a"
        if fc: "from_client out"
      proof -
        have "calls (disp_step ?v (piece_event k p)) k = Call_Done out" "calls ?v k \<noteq> Call_Done out"
          using Call_Done False g'(3) self(3) by auto
        from piece_done [OF this fc] obtain i x b a where
          "cf_state f = Call_Running (i, x) b" "cells (wm_conn s (cf_conn f)) x = Full a" "out = answer_outcome a"
          by (auto simp: self)
        with old g' show ?thesis by (auto simp: future_answered_def intro: answered_more)
      qed
      with Call_Done show ?thesis by (simp add: future_answered_def)
    qed (simp_all add: future_answered_def)
  qed
qed

lemma all_answered_step:
  assumes ok: "whole_ok s" and all: "all_answered srv s0 es s" and s: "s = whole_run srv s0 es"
  shows "all_answered srv s0 (es @ [e]) (whole_step srv s e)"
  unfolding all_answered_def
proof (intro allI impI)
  fix j f assume f: "wm_futures (whole_step srv s e) j = Some f"
  from ok obtain link where c: "calls_ok s" and l: "links_ok link s" by (auto simp: whole_ok_def)
  have keep: "future_answered srv s0 (es @ [e]) (whole_step srv s e) f" if "wm_futures s j = Some f"
  proof (rule answered_keep [OF _ s])
    show "future_answered srv s0 es s f" using all that by (simp add: all_answered_def)
    have "cf_conn f < wm_next_conn s" using l that unfolding links_ok_def by blast
    with whole_conn_env [OF ok, of "cf_conn f" e srv] calls_ok_waits(1) [OF c] that
    show "waits_for (wm_conn s (cf_conn f)) i x (encode_call_params (cf_params f)) \<and>
      (\<exists>X. conn_env X (event_answers e (cf_conn f)) (wm_conn s (cf_conn f)) (wm_conn (whole_step srv s e) (cf_conn f)))"
      if "cf_state f = Call_Running (i, x) b" for i x b using that by blast
  qed
  show "future_answered srv s0 (es @ [e]) (whole_step srv s e) f"
  proof (cases "\<exists>k p. e = Wm_Piece k p")
    case True
    then obtain k p where e: "e = Wm_Piece k p" by blast
    show ?thesis
    proof (cases "j = k")
      case True
      then obtain f0 where "wm_futures s k = Some f0" using f e run_piece_futures [of k p s k] by (cases "wm_futures s k") auto
      with answered_piece [OF ok all s this, of p f] f e True show ?thesis by simp
    next
      case False
      with f e keep piece_others show ?thesis by simp
    qed
  next
    case False
    have "futures_late s" using ok by (simp add: whole_ok_def queues_ok_def)
    from whole_grows [OF this False] obtain y where "grows (event_answers e) y s (whole_step srv s e)" by blast
    with f have "wm_futures s j = Some f \<or> new_future s f" unfolding grows_def by (metis option.sel)
    then show ?thesis using keep by (auto simp: new_future_def enqueue_call_def future_answered_def)
  qed
qed

lemma all_answered_run: "all_answered srv (whole_start cache gate) es (whole_run srv (whole_start cache gate) es)"
proof (induction es rule: rev_induct)
  case Nil
  show ?case by (simp add: all_answered_def whole_start_def)
next
  case (snoc e es)
  from all_answered_step [OF whole_ok_run [OF whole_ok_start] snoc refl, of e] show ?case by simp
qed

section \<open>What an agent gets\<close>

text \<open>Every agent's call makes the steps of the single call of \<open>call_reaches\<close>; all else are its interleavings.\<close>

definition calls_reach :: "gate_env \<Rightarrow> AppState \<Rightarrow> whole \<Rightarrow> bool" where
  "calls_reach srv s0 s \<longleftrightarrow> (\<forall>q. call_reaches srv q s0 Cp_Start (wm_app s)) \<and>
     (\<forall>k q ph. wm_callers s k = Some (Agent q ph) \<longrightarrow> call_reaches srv q s0 ph (wm_app s))"

text \<open>How an event changes the state that all calls share.\<close>

definition shared_change :: "gate_env \<Rightarrow> AppState \<Rightarrow> AppState \<Rightarrow> bool" where
  "shared_change srv a b \<longleftrightarrow> (\<forall>q s0 ph. call_reaches srv q s0 ph a \<longrightarrow> call_reaches srv q s0 ph b)"

lemma shared_change_intros:
  "shared_change srv a a" "shared_change srv a (manager_step a e)"
  "shared_change srv a (a\<lparr>as_gate := map_option (replay_gate srv) (as_gate a)\<rparr>)"
  "shared_change srv a (a\<lparr>as_registry := with_cache f (as_registry a)\<rparr>)"
  "shared_change srv a (a\<lparr>as_registry := (as_registry a)\<lparr>reg_conns := cs, reg_disps := ds\<rparr>\<rparr>)"
  "shared_change srv a (a\<lparr>as_registry := (as_registry a)\<lparr>reg_conns := cs\<rparr>\<rparr>)"
  "call_step srv env q ph a = (ph', a') \<Longrightarrow> shared_change srv a a'"
proof -
  have "shared_change srv a (a\<lparr>as_registry := (as_registry a)\<lparr>reg_conns := cs, reg_disps := reg_disps (as_registry a)\<rparr>\<rparr>)"
    unfolding shared_change_def by (blast intro: call_reaches.cr_objects)
  then show "shared_change srv a (a\<lparr>as_registry := (as_registry a)\<lparr>reg_conns := cs\<rparr>\<rparr>)" by simp
qed (auto simp: shared_change_def intro: call_reaches.intros)

lemma calls_reach_change:
  assumes "calls_reach srv s0 s" "shared_change srv (wm_app s) (wm_app s')"
    and "\<And>k q ph. wm_callers s' k = Some (Agent q ph) \<Longrightarrow>
      wm_callers s k = Some (Agent q ph) \<or> ph = Cp_Start \<or> call_reaches srv q s0 ph (wm_app s')"
  shows "calls_reach srv s0 s'"
  using assms unfolding calls_reach_def shared_change_def by blast

lemma calls_reach_turn:
  assumes "calls_reach srv s0 s"
  shows "calls_reach srv s0 (caller_turn srv env k s)"
proof (cases "\<exists>q ph. wm_callers s k = Some (Agent q ph)")
  case True
  then obtain q ph where k: "wm_callers s k = Some (Agent q ph)" by blast
  have own: "call_reaches srv q s0 ph (wm_app s)" using assms k by (simp add: calls_reach_def)
  have "calls_reach srv s0 (agent_step srv env' k q ph s)" for env'
  proof -
    obtain ph' app where st: "call_step srv env' q ph (wm_app s) = (ph', app)" by (metis surj_pair)
    have "call_reaches srv q s0 ph' app" by (rule call_reaches.cr_own [OF own st])
    with shared_change_intros(7) [OF st] st show ?thesis
      by (intro calls_reach_change [OF assms]) (auto simp: agent_step_def split: if_splits)
  qed
  then show ?thesis using assms
    by (cases rule: agent_turn_step [of srv env k q ph s]) (simp_all add: caller_turn_def k)
next
  case False
  then have "wm_app (caller_turn srv env k s) = wm_app s \<and>
      (\<forall>j q ph. wm_callers (caller_turn srv env k s) j = Some (Agent q ph) \<longrightarrow> wm_callers s j = Some (Agent q ph))"
    by (auto simp: caller_turn_def split: option.split caller.splits internal_phase.split call_state.split)
  then show ?thesis by (intro calls_reach_change [OF assms]) (auto simp: shared_change_intros)
qed

lemma shutdown_turn_change:
  "shared_change srv a (a\<lparr>as_registry := snd (shutdown_turn elapsed sid st (as_registry a))\<rparr>)"
proof (cases st)
  case (Sd_Wait rec c ic)
  then show ?thesis
    by (auto simp: shutdown_turn_def shutdown_poll_def Let_def split_beta shared_change_intros(6) split: option.split sum.split)
next
  case (Sd_Finish rec out)
  then show ?thesis using shared_change_intros(2) [of srv a "Me_Shutdown sid rec out"] by (simp add: shutdown_turn_def)
qed (simp add: shutdown_turn_def shared_change_intros)

lemma shutdown_begin_change:
  "shared_change srv a (a\<lparr>as_registry := snd (shutdown_begin grace sid (as_registry a))\<rparr>)"
  by (auto simp: shutdown_begin_def Let_def split_beta shared_change_intros(1,6) split: option.split SessionState.split sum.split)

lemma calls_reach_step [inv_intros]:
  assumes "calls_reach srv s0 s"
  shows "calls_reach srv s0 (whole_step srv s e)"
proof -
  note change = calls_reach_change [OF assms]
  note ev = shared_change_intros(2) [of srv "wm_app s"]
  show ?thesis
  proof (cases e)
    case (Wm_Turn env k)
    then show ?thesis by (simp add: calls_reach_turn [OF assms])
  next
    case Wm_Open
    then show ?thesis using ev [of "Me_Open (wm_next_conn s)"] by (intro change) auto
  next
    case (Wm_Frame env c fr)
    then show ?thesis using ev [of "Me_Frame env c fr"] shared_change_intros(1) by (intro change) auto
  next
    case (Wm_Close now c)
    then show ?thesis using ev [of "Me_Close now c"] shared_change_intros(1) by (intro change) auto
  next
    case (Wm_Sweep cfg now)
    then show ?thesis using ev [of "Me_Sweep cfg now"] by (intro change) auto
  next
    case (Wm_Piece k p)
    then show ?thesis
      by (intro change) (auto simp: run_piece_def set_reg_def Let_def shared_change_intros(1,5) split: option.split)
  next
    case (Wm_Internal env k q)
    then show ?thesis
      by (intro change) (auto simp: service_begin_def Let_def shared_change_intros(1) split: internal_phase.splits if_splits)
  next
    case (Wm_Shutdown grace j sid)
    then show ?thesis
      by (intro change) (auto simp: set_reg_def split_beta shutdown_begin_change shared_change_intros(1))
  next
    case (Wm_Shutdown_Turn elapsed j)
    then show ?thesis
      by (intro change) (auto simp: set_reg_def split_beta shutdown_turn_change shared_change_intros(1) split: option.splits)
  qed (intro change; auto simp: shared_change_intros set_reg_def split: if_splits)+
qed

lemma calls_reach_run: "calls_reach srv (wm_app (whole_start cache gate)) (whole_run srv (whole_start cache gate) es)"
proof (induction es rule: rev_induct)
  case Nil
  show ?case by (auto simp: calls_reach_def whole_start_def intro: call_reaches.cr_start)
qed (simp add: calls_reach_step)

text \<open>What the last step of an agent's call makes of the outcome of its future.\<close>

definition answer_made :: "gate_env \<Rightarrow> bool \<Rightarrow> CallToolRequest \<Rightarrow> ToolCallParams \<Rightarrow> (DispatcherError, ToolCallResult) res \<Rightarrow> call_answer \<Rightarrow> bool" where
  "answer_made srv en q ps out answer \<longleftrightarrow> (\<exists>env args req nd. ca_outcome env = out \<and>
     extract_manager_arguments (rq_arguments q) = Ok (args, req, nd) \<and> cp_name ps = rq_name q \<and>
     (if en then (\<exists>k. allowed srv k args (cp_arguments ps) \<and> released srv env k answer)
      else cp_arguments ps = args \<and> answer = dispatcher_outcome_to_call_result (sd_print (ca_serde env)) out))"

lemma call_finished:
  assumes "call_reaches srv q s0 (Cp_Calling ctx c cn ps d) s" "call_step srv env q (Cp_Calling ctx c cn ps d) s = (Cp_Done answer, s')"
  shows "answer_made srv (gate_enabled s0) q ps (ca_outcome env) answer"
proof -
  from reaches_phase_ok [OF assms(1)] obtain args nd rec req where
    t: "extract_manager_arguments (rq_arguments q) = Ok (args, req, nd)" "cp_name ps = rq_name q"
    and m: "masked_ok srv q (gate_enabled s0) ctx rec args (cp_arguments ps)"
    by (auto simp: target_ok_def)
  show ?thesis
  proof (cases "gate_enabled s0")
    case True
    with m obtain k where k: "ctx = Some k" "allowed srv k args (cp_arguments ps)" by (auto simp: masked_ok_def)
    obtain g where "as_gate s = Some g"
      using gate_core_reaches [OF assms(1)] True by (cases "as_gate s") (auto simp: gate_core_enabled gate_core_def)
    then have "released srv env k answer" using assms(2) call_finish_released [of srv env k g] by (auto simp: k(1) split: prod.splits)
    with True t k(2) show ?thesis unfolding answer_made_def by auto
  next
    case False
    with m have c: "ctx = None" "cp_arguments ps = args" by (auto simp: masked_ok_def)
    then have "answer = dispatcher_outcome_to_call_result (sd_print (ca_serde env)) (ca_outcome env)"
      using assms(2) by (simp add: call_finish_def)
    with False t c(2) show ?thesis unfolding answer_made_def by auto
  qed
qed

definition agents_ok :: "gate_env \<Rightarrow> AppState \<Rightarrow> whole \<Rightarrow> bool" where
  "agents_ok srv s0 s \<longleftrightarrow> (\<forall>k q ph f. wm_callers s k = Some (Agent q ph) \<longrightarrow> wm_futures s k = Some f \<longrightarrow> (case ph of
     Cp_Calling ctx c cn ps dl \<Rightarrow> cf_params f = ps
   | Cp_Done answer \<Rightarrow> \<exists>out. cf_state f = Call_Done out \<and> answer_made srv (gate_enabled s0) q (cf_params f) out answer
   | _ \<Rightarrow> False))"

lemma agents_ok_cases:
  assumes "agents_ok srv s0 s" "wm_callers s k = Some (Agent q ph)" "wm_futures s k = Some f"
  obtains (calling) ctx c cn ps dl where "ph = Cp_Calling ctx c cn ps dl" "cf_params f = ps"
  | (answered) answer out where "ph = Cp_Done answer" "cf_state f = Call_Done out"
      "answer_made srv (gate_enabled s0) q (cf_params f) out answer"
proof -
  from assms have "case ph of Cp_Calling ctx c cn ps dl \<Rightarrow> cf_params f = ps
      | Cp_Done answer \<Rightarrow> \<exists>out. cf_state f = Call_Done out \<and> answer_made srv (gate_enabled s0) q (cf_params f) out answer
      | _ \<Rightarrow> False" unfolding agents_ok_def by blast
  with that show ?thesis by (cases ph) auto
qed

lemma piece_done_stays: "calls v k = Call_Done out \<Longrightarrow> calls (disp_step v (piece_event k p)) k = Call_Done out"
  by (cases p) (simp_all add: disp_step.simps abandon_call_def)

lemma agents_ok_turn:
  assumes "agents_ok srv s0 s" "calls_reach srv s0 s"
  shows "agents_ok srv s0 (caller_turn srv env k s)"
proof (cases "\<exists>q ph. wm_callers s k = Some (Agent q ph)")
  case True
  then obtain q ph where k: "wm_callers s k = Some (Agent q ph)" by blast
  have own: "call_reaches srv q s0 ph (wm_app s)" using assms(2) k by (simp add: calls_reach_def)
  have "agents_ok srv s0 (agent_step srv env' k q ph s)"
    if wait: "\<And>ctx c cn ps dl. ph = Cp_Calling ctx c cn ps dl \<Longrightarrow> \<exists>f. wm_futures s k = Some f \<and> cf_state f = Call_Done (ca_outcome env')" for env'
    using k
  proof (cases rule: agent_step_cases [where srv = srv and env = env'])
    case (step ph' app)
    have "case ph' of Cp_Calling ctx c cn ps dl \<Rightarrow> cf_params f = ps
        | Cp_Done answer \<Rightarrow> \<exists>out. cf_state f = Call_Done out \<and> answer_made srv (gate_enabled s0) q (cf_params f) out answer
        | _ \<Rightarrow> False" if f: "wm_futures s k = Some f" for f
    proof (cases "\<exists>answer. ph = Cp_Done answer")
      case True
      then show ?thesis using step(1) assms(1) k f by (auto simp: agents_ok_def)
    next
      case False
      then obtain ctx c cn ps dl where ph: "ph = Cp_Calling ctx c cn ps dl" "cf_params f = ps"
        by (metis agents_ok_cases [OF assms(1) k f])
      moreover obtain answer where "ph' = Cp_Done answer" using step(1) ph by (auto split: prod.splits)
      ultimately show ?thesis using call_finished own step(1) wait [OF ph(1)] f by fastforce
    qed
    then show ?thesis using assms(1) unfolding step(2) by (auto simp: agents_ok_def)
  next
    case (call app rec cn ps dl ctx a nd c)
    then show ?thesis using assms(1) by (auto simp: agents_ok_def enqueue_call_def)
  qed
  then show ?thesis using assms(1)
    by (cases rule: agent_turn_step [of srv env k q ph s]) (simp_all add: caller_turn_def k)
next
  case False
  then show ?thesis using assms(1)
    by (auto simp: caller_turn_def agents_ok_def split: option.split caller.splits internal_phase.split call_state.split)
qed

lemma agents_ok_piece:
  assumes "agents_ok srv s0 s"
  shows "agents_ok srv s0 (run_piece k p s)"
proof (cases "wm_futures s k")
  case (Some f)
  note self = piece_self(1) [OF Some, of p] piece_self(3) [OF Some]
  have "wm_futures (run_piece k p s) j = Some g \<Longrightarrow> \<exists>h. wm_futures s j = Some h \<and> cf_params g = cf_params h \<and>
      (\<forall>out. cf_state h = Call_Done out \<longrightarrow> cf_state g = Call_Done out)" for j g
    using self piece_others [of j k p s] Some piece_done_stays [of "session_view s (cf_disp f) (cf_conn f)" k _ p]
    by (cases "j = k") auto
  with assms show ?thesis unfolding agents_ok_def run_piece_fields by (fastforce split: call_phase.splits)
qed (use assms in \<open>simp add: run_piece_def\<close>)

lemma agents_ok_step:
  assumes ok: "agents_ok srv s0 s" and reach: "calls_reach srv s0 s" and late: "futures_late s"
  shows "agents_ok srv s0 (whole_step srv s e)"
proof (cases e)
  case (Wm_Turn env k)
  then show ?thesis by (simp add: agents_ok_turn [OF ok reach])
next
  case (Wm_Piece k p)
  then show ?thesis by (simp add: agents_ok_piece [OF ok])
next
  case (Wm_Call k q)
  have "wm_callers s k = None \<Longrightarrow> wm_futures s k = None" using late by (auto simp: futures_late_def dest!: spec [of _ k])
  with Wm_Call ok show ?thesis by (auto simp: agents_ok_def)
next
  case (Wm_Internal env k q)
  with ok show ?thesis by (auto simp: agents_ok_def service_begin_def Let_def split: internal_phase.split)
qed (use ok in \<open>auto simp: agents_ok_def split_beta split: option.split\<close>)

lemma agents_ok_run: "agents_ok srv (wm_app (whole_start cache gate)) (whole_run srv (whole_start cache gate) es)"
proof (induction es rule: rev_induct)
  case Nil
  show ?case by (simp add: agents_ok_def whole_start_def)
next
  case (snoc e es)
  have "futures_late (whole_run srv (whole_start cache gate) es)"
    using queues_ok_run unfolding queues_ok_def by blast
  with snoc calls_reach_run show ?case by (simp add: agents_ok_step)
qed

text \<open>
  C5: an agent gets the answer of its own call, and of nobody else's. In the whole manager, with any
  number of agents, sessions, connections and shutdowns interleaved, the request that was sent for an agent's
  call carries the agent's tool and, without masking, the agent's arguments; with masking the service
  allowed them. If the call ended with a result or with an error of the client, then the client that holds
  the connection of the session answered exactly this request, after it was sent, and the outcome is
  what this answer says. The agent's answer is made of that outcome, or, with masking, is what the service released for it.
\<close>

theorem agent_gets_its_clients_answer:
  assumes "s = whole_run srv (whole_start cache gate) es"
    and "wm_callers s k = Some (Agent q (Cp_Done answer))" "wm_futures s k = Some f"
  shows "\<exists>out. cf_state f = Call_Done out \<and>
    answer_made srv (gate_enabled (manager_start cache gate)) q (cf_params f) out answer \<and>
    (from_client out \<longrightarrow> (\<exists>es1 env t es2 i a. es = es1 @ Wm_Frame env (cf_conn f) (Fr_Message (Ws_Text t)) # es2 \<and>
       wire_parse (te_parse env) t = Ok (Response i a) \<and> out = answer_outcome a \<and>
       Request i TOOL_CALL (encode_call_params (cf_params f)) \<in>
         set (sent (reg_conns (wm_reg (whole_run srv (whole_start cache gate) es1)) (cf_conn f)))))"
proof -
  have "wm_app (whole_start cache gate) = manager_start cache gate" by (simp add: whole_start_def)
  with agents_ok_run [of srv cache gate es] assms obtain out where
    out: "cf_state f = Call_Done out" "answer_made srv (gate_enabled (manager_start cache gate)) q (cf_params f) out answer"
    unfolding agents_ok_def by fastforce
  moreover have "future_answered srv (whole_start cache gate) es s f"
    using all_answered_run [of srv cache gate es] assms(1,3) by (simp add: all_answered_def)
  ultimately show ?thesis unfolding future_answered_def answered_in_def by fastforce
qed

section \<open>An example run\<close>

text \<open>One client registers, one agent calls its tool, and the client answers.\<close>

definition demo_result :: ToolCallResult where
  "demo_result = \<lparr>cr_content = [], cr_is_error = False, cr_structured_content = None\<rparr>"

definition demo_tenv :: transport_env where
  "demo_tenv = sample_tenv\<lparr>te_parse := (\<lambda>t. Some (to_value (if t = ''reg'' then Request (Id_Number 1) SESSION_REGISTER demo_register
     else Response (mgr_id 0) (Ok (encode_call_result demo_result)))))\<rparr>"

definition demo_frame :: "string \<Rightarrow> whole_event" where
  "demo_frame t = Wm_Frame demo_tenv 0 (Fr_Message (Ws_Text t))"

lemma demo_parse:
  "wire_parse (te_parse demo_tenv) ''reg'' = Ok (Request (Id_Number 1) SESSION_REGISTER demo_register)"
  "wire_parse (te_parse demo_tenv) ''ans'' = Ok (Response (mgr_id 0) (Ok (encode_call_result demo_result)))"
  by (simp_all add: wire_parse_def demo_tenv_def from_to_value del: to_value.simps)

lemma demo_open: "open_connection 0 (manager_start None None) = manager_start None None"
  by (simp add: open_connection_def manager_start_def registry_new_def fun_upd_idem)

lemma demo_registered:
  "\<exists>m peers. snd (reader_step demo_tenv 0 (Fr_Message (Ws_Text ''reg'')) (manager_start None None)) =
     \<lparr>as_registry = sample_reg\<lparr>reg_conns := (reg_conns sample_reg)(0 := conn_new\<lparr>sent := [m]\<rparr>)\<rparr>, as_gate = None, as_peers = peers\<rparr>"
proof -
  have reg: "registry_new\<lparr>reg_cache := None\<rparr> = registry_new" by (simp add: registry_new_def)
  have conns: "reg_conns sample_reg = (\<lambda>_. conn_new)" by (simp add: sample_reg_def register_conns registry_new_def)
  have key: "sample_params\<lparr>rp_tools := [sample_tool ''find'']\<rparr> = sample_params" "sample_params\<lparr>rp_database_key := None\<rparr> = sample_params" "rp_tools sample_params = [sample_tool ''find'']"
    "rp_cluster_server sample_params = None" "rp_database_key sample_params = None" "te_now demo_tenv = 0" "te_cache demo_tenv = sample_env"
    by (simp_all add: sample_params_def demo_tenv_def sample_tenv_def)
  show ?thesis
    by (simp add: reader_step_def demo_parse handle_request_def manager_start_def reg handle_register_def demo_decode
        gate_tools_def resolve_identity_def key sample_register tx_send_def Let_def conns)
       (simp add: conn_new_def, blast)
qed

text \<open>The state after the registration, as far as the call looks at it.\<close>

definition demo_app :: "WireMessage \<Rightarrow> (nat \<Rightarrow> ConnectionIdentity option) \<Rightarrow> AppState" where
  "demo_app m peers = \<lparr>as_registry = sample_reg\<lparr>reg_conns := (reg_conns sample_reg)(0 := conn_new\<lparr>sent := [m]\<rparr>)\<rparr>, as_gate = None, as_peers = peers\<rparr>"

lemma demo_app_fields:
  "reg_inner (as_registry (demo_app m peers)) = [(''s1'', new_record sample_params 0 (Some 0) 1 0)]"
  "candidates (as_registry (demo_app m peers)) ''find'' = [''s1'']" "as_gate (demo_app m peers) = None"
  "reg_disps (as_registry (demo_app m peers)) 0 = dispatcher_new" "reg_conns (as_registry (demo_app m peers)) 0 = conn_new\<lparr>sent := [m]\<rparr>"
  by (simp_all add: demo_app_def sample_reg_def reg_eval sample_params_def candidates_def offers_def offer_ids_def
      reg_snapshot_def public_tools_def sample_tool_def)

definition demo_ready :: "whole_event list" where
  "demo_ready = [Wm_Open, demo_frame ''reg'', Wm_Call 7 call_request] @
     [Wm_Turn call_env_sample 7, Wm_Turn call_env_sample 7, Wm_Turn call_env_sample 7, Wm_Turn call_env_sample 7, Wm_Turn call_env_sample 7]"

definition demo_future :: call_future where
  "demo_future = \<lparr>cf_disp = 0, cf_conn = 0, cf_params = \<lparr>cp_name = ''find'', cp_arguments = JObject []\<rparr>, cf_deadline = Some 60000,
     cf_cancelled = False, cf_state = Call_New\<rparr>"

lemma demo_reaches:
  defines "s \<equiv> whole_run allow_env (whole_start None None) demo_ready"
  shows "wm_futures s = [7 \<mapsto> demo_future] \<and> wm_next_conn s = 1 \<and> wm_clock s = 0 \<and>
     wm_callers s = [7 \<mapsto> Agent call_request (Cp_Calling None \<lparr>rc_session_id = ''s1'', rc_tool_name = ''find''\<rparr> 0 (cf_params demo_future) (Some 60000))] \<and>
     as_gate (wm_app s) = None \<and> reg_disps (wm_reg s) 0 = dispatcher_new \<and> (\<exists>m. wm_conn s 0 = conn_new\<lparr>sent := [m]\<rparr>)"
proof -
  from demo_registered obtain m peers where
    reg: "snd (reader_step demo_tenv 0 (Fr_Message (Ws_Text ''reg'')) (manager_start None None)) = demo_app m peers"
    by (auto simp: demo_app_def)
  let ?rec = "new_record sample_params 0 (Some 0) 1 0" and ?c = "\<lparr>rc_session_id = ''s1'', rc_tool_name = ''find''\<rparr>"
  let ?s = "\<lambda>ph. (whole_start None None)\<lparr>wm_app := demo_app m peers, wm_next_conn := 1, wm_callers := [7 \<mapsto> Agent call_request ph]\<rparr>"
  have start: "whole_run allow_env (whole_start None None) [Wm_Open, demo_frame ''reg'', Wm_Call 7 call_request] = ?s Cp_Start"
    by (simp add: demo_frame_def whole_start_def demo_open reg)
  have t1: "whole_step allow_env (?s Cp_Start) (Wm_Turn call_env_sample 7) = ?s (Cp_Validated (JObject []) None False)"
    by (simp add: caller_turn_def agent_turn_def agent_step_def whole_start_def call_request_def extract_manager_arguments_def bm_del_def)
  have t2: "whole_step allow_env (?s (Cp_Validated (JObject []) None False)) (Wm_Turn call_env_sample 7) = ?s (Cp_Resolved (JObject []) False ?c)"
    by (simp add: caller_turn_def agent_turn_def agent_step_def whole_start_def call_request_def resolve_by_candidates demo_app_fields)
  have t3: "whole_step allow_env (?s (Cp_Resolved (JObject []) False ?c)) (Wm_Turn call_env_sample 7) = ?s (Cp_Found (JObject []) False ?c ?rec)"
    by (simp add: caller_turn_def agent_turn_def agent_step_def whole_start_def reg_get_def demo_app_fields new_record_def)
  have t4: "whole_step allow_env (?s (Cp_Found (JObject []) False ?c ?rec)) (Wm_Turn call_env_sample 7) = ?s (Cp_Gated None (JObject []) False ?c ?rec)"
    by (simp add: caller_turn_def agent_turn_def agent_step_def whole_start_def demo_app_fields)
  have t5: "whole_step allow_env (?s (Cp_Gated None (JObject []) False ?c ?rec)) (Wm_Turn call_env_sample 7) =
     (whole_start None None)\<lparr>wm_app := (demo_app m peers)\<lparr>as_registry := snd (bump_last_call ''s1'' 0 (as_registry (demo_app m peers)))\<rparr>,
       wm_next_conn := 1, wm_futures := [7 \<mapsto> demo_future],
       wm_callers := [7 \<mapsto> Agent call_request (Cp_Calling None ?c 0 (cf_params demo_future) (Some 60000))]\<rparr>"
    by (simp add: caller_turn_def agent_turn_def agent_step_def whole_start_def new_record_def sample_params_def proxy_call_deadline_def
        CLIENT_PROXY_CALL_TIMEOUT_SECS_def enqueue_call_def demo_future_def)
  have "s = whole_step allow_env (?s (Cp_Gated None (JObject []) False ?c ?rec)) (Wm_Turn call_env_sample 7)"
    unfolding s_def demo_ready_def whole_run_simps(3) start by (simp only: whole_run_simps(1,2) t1 t2 t3 t4)
  then show ?thesis unfolding t5 by (auto simp: whole_start_def demo_app_fields bump_last_call_def)
qed

lemma demo_runs:
  defines "s \<equiv> whole_run allow_env (whole_start None None) (demo_ready @ [Wm_Piece 7 Pc_Start, Wm_Piece 7 Pc_Poll])"
  shows "\<exists>f. wm_futures s = [7 \<mapsto> f] \<and> cf_disp f = 0 \<and> cf_conn f = 0 \<and> cf_params f = cf_params demo_future \<and>
      cf_state f = Call_Running (mgr_id 0, 0) False" "wm_next_conn s = 1"
    "wm_callers s = [7 \<mapsto> Agent call_request (Cp_Calling None \<lparr>rc_session_id = ''s1'', rc_tool_name = ''find''\<rparr> 0 (cf_params demo_future) (Some 60000))]"
    "as_gate (wm_app s) = None" "pending (wm_conn s 0) = [(mgr_id 0, 0)]" "cells (wm_conn s 0) 0 = Empty" "waiters (reg_disps (wm_reg s) 0) = []"
proof -
  obtain s0 where s0: "whole_run allow_env (whole_start None None) demo_ready = s0" by blast
  from demo_reaches have
    f0: "wm_futures s0 = [7 \<mapsto> demo_future]" "wm_next_conn s0 = 1" "as_gate (wm_app s0) = None" "wm_clock s0 = 0"
      "wm_callers s0 = [7 \<mapsto> Agent call_request (Cp_Calling None \<lparr>rc_session_id = ''s1'', rc_tool_name = ''find''\<rparr> 0 (cf_params demo_future) (Some 60000))]"
    and disp0: "reg_disps (wm_reg s0) 0 = dispatcher_new" and "\<exists>m. wm_conn s0 0 = conn_new\<lparr>sent := [m]\<rparr>"
    unfolding s0 by blast+
  then obtain m where "wm_conn s0 0 = conn_new\<lparr>sent := [m]\<rparr>" by blast
  note obj = disp0 this
  let ?v = "session_view s0 0 0"
  have v: "disp ?v = dispatcher_new" "conn ?v = conn_new\<lparr>sent := [m]\<rparr>" "calls ?v 7 = Call_New" "call_deadline ?v 7 = Some 60000"
    "call_cancelled ?v 7 = False" "clock ?v = 0"
    using f0 obj by (simp_all add: session_view_def future_on_def demo_future_def)
  let ?t1 = "disp_step ?v (Ev_Enqueue 7)"
  let ?t2 = "disp_step ?t1 (Ev_Poll 7)"
  have t1: "disp ?t1 = dispatcher_new\<lparr>waiters := [7]\<rparr>" "conn ?t1 = conn_new\<lparr>sent := [m]\<rparr>" "calls ?t1 7 = Call_Queued"
    "call_deadline ?t1 7 = Some 60000" "call_cancelled ?t1 7 = False" "clock ?t1 = 0"
    using v by (simp_all add: disp_step.simps enqueue_start_def is_drained_def dispatcher_new_def)
  have t2: "calls ?t2 7 = Call_Running (mgr_id 0, 0) False" "pending (conn ?t2) = [(mgr_id 0, 0)]" "cells (conn ?t2) 0 = Empty" "waiters (disp ?t2) = []"
    using t1 by (simp_all add: disp_step.simps disp_eval)
  define s1 where "s1 = run_piece 7 Pc_Start s0"
  have s: "s = run_piece 7 Pc_Poll s1" by (simp add: s_def s0 s1_def)
  have k0: "wm_futures s0 7 = Some demo_future" by (simp add: f0)
  have d: "cf_disp demo_future = 0" "cf_conn demo_future = 0" by (simp_all add: demo_future_def)
  from piece_self(1) [OF k0, of Pc_Start] obtain f1 where
    k1: "wm_futures s1 7 = Some f1" "cf_disp f1 = 0" "cf_conn f1 = 0" "cf_params f1 = cf_params demo_future" by (auto simp: s1_def d)
  have v1: "session_view s1 0 0 = ?t1" using view_piece [OF k0, of Pc_Start] by (simp add: d s1_def)
  have v2: "session_view s 0 0 = ?t2" using view_piece [OF k1(1), of Pc_Poll] by (simp add: k1 v1 s)
  have other: "wm_futures s j = None" if "j \<noteq> 7" for j using that by (simp add: s s1_def piece_others f0)
  from piece_self(1) [OF k1(1), of Pc_Poll] obtain f where
    f: "wm_futures s 7 = Some f" "cf_disp f = 0" "cf_conn f = 0" "cf_params f = cf_params demo_future" "cf_state f = Call_Running (mgr_id 0, 0) False"
    by (auto simp: s k1 v1 t2)
  then have "wm_futures s = [7 \<mapsto> f]" using other by (auto simp: fun_eq_iff)
  with f show "\<exists>f. wm_futures s = [7 \<mapsto> f] \<and> cf_disp f = 0 \<and> cf_conn f = 0 \<and> cf_params f = cf_params demo_future \<and>
      cf_state f = Call_Running (mgr_id 0, 0) False" by blast
  show "wm_next_conn s = 1" "wm_callers s = [7 \<mapsto> Agent call_request (Cp_Calling None \<lparr>rc_session_id = ''s1'', rc_tool_name = ''find''\<rparr> 0 (cf_params demo_future) (Some 60000))]"
    using f0 by (simp_all add: s s1_def)
  show "as_gate (wm_app s) = None" by (simp add: s s1_def run_piece_def set_reg_def Let_def f0 split: option.split)
  have "conn (session_view s 0 0) = wm_conn s 0" "disp (session_view s 0 0) = reg_disps (wm_reg s) 0" by (simp_all add: session_view_def)
  then show "pending (wm_conn s 0) = [(mgr_id 0, 0)]" "cells (wm_conn s 0) 0 = Empty" "waiters (reg_disps (wm_reg s) 0) = []"
    using v2 t2 by simp_all
qed


lemma demo_answers:
  defines "s \<equiv> whole_run allow_env (whole_start None None) (demo_ready @ [Wm_Piece 7 Pc_Start, Wm_Piece 7 Pc_Poll, demo_frame ''ans'', Wm_Piece 7 Pc_Poll, Wm_Turn call_env_sample 7])"
  shows "\<exists>answer f. wm_callers s 7 = Some (Agent call_request (Cp_Done answer)) \<and> wm_futures s 7 = Some f \<and>
      cf_state f = Call_Done (Ok demo_result)"
proof -
  let ?s1 = "whole_run allow_env (whole_start None None) (demo_ready @ [Wm_Piece 7 Pc_Start, Wm_Piece 7 Pc_Poll])"
  obtain s1 where s1: "?s1 = s1" by blast
  note r = demo_runs [unfolded s1]
  from r(1) obtain f where f: "wm_futures s1 = [7 \<mapsto> f]" "cf_disp f = 0" "cf_conn f = 0" "cf_state f = Call_Running (mgr_id 0, 0) False"
    by blast
  define s2 where "s2 = whole_step allow_env s1 (demo_frame ''ans'')"
  have s2: "wm_futures s2 = [7 \<mapsto> f]" "wm_callers s2 = wm_callers s1" "as_gate (wm_app s2) = None"
    "cells (wm_conn s2 0) 0 = Full (Ok (encode_call_result demo_result))"
    using r f by (simp_all add: s2_def demo_frame_def reader_step_def demo_parse handle_response_def complete_response_def Let_def)
  have k2: "wm_futures s2 7 = Some f" by (simp add: s2)
  define s3 where "s3 = run_piece 7 Pc_Poll s2"
  have "calls (disp_step (session_view s2 0 0) (Ev_Poll 7)) 7 = Call_Done (Ok demo_result)"
    using s2 f by (simp add: disp_step.simps session_view_def future_on_def step_running_def poll_running_def finish_call_def
        call_result_roundtrip demo_result_def)
  then obtain f3 where f3: "wm_futures s3 7 = Some f3" "cf_state f3 = Call_Done (Ok demo_result)"
    using piece_self(1) [OF k2, of Pc_Poll] f by (auto simp: s3_def)
  have "s = caller_turn allow_env call_env_sample 7 s3"
    unfolding s_def s3_def s2_def s1 [symmetric] by simp
  moreover have "wm_callers s3 7 = Some (Agent call_request (Cp_Calling None \<lparr>rc_session_id = ''s1'', rc_tool_name = ''find''\<rparr> 0 (cf_params demo_future) (Some 60000)))"
    by (simp add: s3_def s2 r(3))
  ultimately show ?thesis
    using f3 by (simp add: caller_turn_def agent_turn_def agent_step_def split_beta)
qed

theorem agent_gets_its_clients_answer_witness:
  "\<exists>c es1 env t es2 i a. demo_ready @ [Wm_Piece 7 Pc_Start, Wm_Piece 7 Pc_Poll, demo_frame ''ans'', Wm_Piece 7 Pc_Poll, Wm_Turn call_env_sample 7] =
      es1 @ Wm_Frame env c (Fr_Message (Ws_Text t)) # es2 \<and> wire_parse (te_parse env) t = Ok (Response i a) \<and> Ok demo_result = answer_outcome a"
proof -
  from demo_answers obtain answer f where
    c: "wm_callers (whole_run allow_env (whole_start None None) (demo_ready @ [Wm_Piece 7 Pc_Start, Wm_Piece 7 Pc_Poll, demo_frame ''ans'',
       Wm_Piece 7 Pc_Poll, Wm_Turn call_env_sample 7])) 7 = Some (Agent call_request (Cp_Done answer))"
    "wm_futures (whole_run allow_env (whole_start None None) (demo_ready @ [Wm_Piece 7 Pc_Start, Wm_Piece 7 Pc_Poll, demo_frame ''ans'',
       Wm_Piece 7 Pc_Poll, Wm_Turn call_env_sample 7])) 7 = Some f" and f: "cf_state f = Call_Done (Ok demo_result)" by blast
  have "from_client (Ok demo_result)" by (simp add: from_client_def)
  with agent_gets_its_clients_answer [OF refl c] f show ?thesis by (metis call_state.inject(2))
qed

section \<open>Deadlines in the whole manager\<close>

text \<open>What no event takes back of a future: its deadline, that it was started, and its outcome.\<close>

definition goes_on :: "bool \<Rightarrow> call_future \<Rightarrow> call_future \<Rightarrow> bool" where
  "goes_on dropped f g \<longleftrightarrow> cf_deadline g = cf_deadline f \<and> (cf_state f \<noteq> Call_New \<longrightarrow> cf_state g \<noteq> Call_New) \<and>
     (\<forall>out. cf_state f = Call_Done out \<longrightarrow> cf_state g = Call_Done out) \<and>
     (cf_state g = Call_Dropped \<longrightarrow> cf_state f = Call_Dropped \<or> dropped)"

lemma goes_on_trans: "goes_on b f g \<Longrightarrow> goes_on c g h \<Longrightarrow> goes_on (b \<or> c) f h"
  by (auto simp: goes_on_def)

lemma goes_on_piece:
  assumes "wm_futures s k = Some f"
  shows "\<exists>g. wm_futures (run_piece k p s) k = Some g \<and> goes_on (p = Pc_Drop) f g"
proof -
  let ?v = "session_view s (cf_disp f) (cf_conn f)"
  have v: "calls ?v k = cf_state f" by (rule piece_self(3) [OF assms])
  have "calls (disp_step ?v (piece_event k p)) k \<noteq> Call_New" if "cf_state f \<noteq> Call_New"
    using v that
    by (cases p) (auto simp: disp_step.simps step_queued_def step_running_def abandon_call_def
        split: call_state.splits prod.splits admission.splits sum.splits running.splits)
  moreover have "p = Pc_Drop" if "calls (disp_step ?v (piece_event k p)) k = Call_Dropped" "cf_state f \<noteq> Call_Dropped"
    using v that
    by (cases p) (auto simp: disp_step.simps enqueue_start_def step_queued_def step_running_def
        split: call_state.splits prod.splits admission.splits sum.splits running.splits if_splits)
  ultimately show ?thesis
    using piece_self(1) [OF assms, of p] piece_done_stays [of ?v k _ p] v by (auto simp: goes_on_def)
qed

lemma goes_on_step:
  assumes "whole_ok s" "wm_futures s k = Some f"
  shows "\<exists>g. wm_futures (whole_step srv s e) k = Some g \<and> goes_on (e = Wm_Piece k Pc_Drop) f g"
proof (cases "\<exists>j p. e = Wm_Piece j p")
  case True
  then obtain j p where e: "e = Wm_Piece j p" by blast
  show ?thesis
  proof (cases "j = k")
    case True
    then show ?thesis using goes_on_piece [OF assms(2), of p] e by simp
  next
    case False
    then show ?thesis using assms(2) e piece_others [of k j p s] by (simp add: goes_on_def)
  qed
next
  case False
  have "futures_late s" using assms(1) by (simp add: whole_ok_def queues_ok_def)
  from whole_grows [OF this False] obtain y where "grows (event_answers e) y s (whole_step srv s e)" by blast
  then have "wm_futures (whole_step srv s e) k = Some f"
    using assms(2) unfolding grows_def by (metis option.distinct(1))
  then show ?thesis by (simp add: goes_on_def)
qed

lemma goes_on_run:
  assumes "whole_ok s" "wm_futures s k = Some f"
  shows "\<exists>g. wm_futures (whole_run srv s es) k = Some g \<and> goes_on (Wm_Piece k Pc_Drop \<in> set es) f g"
  using assms
proof (induction es arbitrary: s f)
  case Nil
  then show ?case by (simp add: goes_on_def)
next
  case (Cons e es)
  from goes_on_step [OF Cons.prems, of srv e] obtain g where
    g: "wm_futures (whole_step srv s e) k = Some g" "goes_on (e = Wm_Piece k Pc_Drop) f g" by blast
  from Cons.IH [OF whole_ok_step [OF Cons.prems(1)] g(1)] obtain h where
    h: "wm_futures (whole_run srv (whole_step srv s e) es) k = Some h" "goes_on (Wm_Piece k Pc_Drop \<in> set es) g h" by blast
  have "(e = Wm_Piece k Pc_Drop \<or> Wm_Piece k Pc_Drop \<in> set es) = (Wm_Piece k Pc_Drop \<in> set (e # es))" by auto
  with goes_on_trans [OF g(2) h(2)] h(1) show ?case by simp
qed

text \<open>An agent's call that has reached its future waits for it or has been answered.\<close>

definition waiting_or_answered :: "whole \<Rightarrow> nat \<Rightarrow> CallToolRequest \<Rightarrow> bool" where
  "waiting_or_answered s k q \<longleftrightarrow> (\<exists>ph. wm_callers s k = Some (Agent q ph) \<and> call_rank ph \<le> 1 \<and> ph \<noteq> Cp_Unrouted)"

lemma waiting_phases:
  "call_rank ph \<le> 1 \<and> ph \<noteq> Cp_Unrouted \<longleftrightarrow> (\<exists>ctx c cn ps dl. ph = Cp_Calling ctx c cn ps dl) \<or> (\<exists>answer. ph = Cp_Done answer)"
  by (cases ph) auto

lemma agent_step_waiting:
  assumes "call_rank ph \<le> 1" "ph \<noteq> Cp_Unrouted"
  shows "\<exists>answer. wm_callers (agent_step srv env k q ph s) = (wm_callers s)(k \<mapsto> Agent q (Cp_Done answer))"
  using assms by (cases ph) (auto simp: agent_step_def split_beta)

lemma waiting_turn:
  assumes "waiting_or_answered s k q"
  shows "waiting_or_answered (caller_turn srv env j s) k q"
proof (cases "j = k")
  case True
  from assms obtain ph where ph: "wm_callers s k = Some (Agent q ph)" "call_rank ph \<le> 1" "ph \<noteq> Cp_Unrouted"
    by (auto simp: waiting_or_answered_def)
  have "waiting_or_answered (agent_step srv env' k q ph s) k q" for env'
    using agent_step_waiting [OF ph(2,3), of srv env' k q s] by (auto simp: waiting_or_answered_def)
  with assms ph(1) True show ?thesis
    by (cases rule: agent_turn_step [of srv env k q ph s]) (simp_all add: caller_turn_def)
next
  case False
  then have "wm_callers (caller_turn srv env j s) k = wm_callers s k"
    by (auto simp: caller_turn_def agent_turn_def agent_step_def split_beta
        split: option.split caller.split internal_phase.split call_state.split call_phase.split)
  with assms show ?thesis by (simp add: waiting_or_answered_def)
qed

lemma waiting_step: "waiting_or_answered s k q \<Longrightarrow> waiting_or_answered (whole_step srv s e) k q"
  by (cases e) (auto simp: waiting_turn, auto simp: waiting_or_answered_def service_begin_def Let_def split_beta
      split: option.split internal_phase.split)

lemma waiting_run: "waiting_or_answered s k q \<Longrightarrow> waiting_or_answered (whole_run srv s es) k q"
  by (induction es arbitrary: s) (auto simp: waiting_step)

text \<open>
  C11: no agent waits longer than its deadline allows. When a call with a deadline has been handed to its
  session, then, after the deadline has passed, its next poll and its next step give the agent an answer, whatever the client does or
  does not do and whatever else happens in the manager in between, unless the agent itself has given up its request.
\<close>

theorem deadline_answers_the_agent:
  assumes "s = whole_run srv (whole_start cache gate) es0"
    and "wm_callers s k = Some (Agent q (Cp_Calling ctx c cn ps dl))"
    and "wm_futures s k = Some f" "cf_deadline f = Some t" "cf_state f \<noteq> Call_New" "cf_state f \<noteq> Call_Dropped"
    and "t \<le> wm_clock (whole_run srv s es1)" "Wm_Piece k Pc_Drop \<notin> set (es1 @ es2)"
  shows "\<exists>answer. wm_callers (whole_run srv s (es1 @ Wm_Piece k Pc_Poll # es2 @ [Wm_Turn env k])) k = Some (Agent q (Cp_Done answer))"
proof -
  let ?s1 = "whole_run srv s es1"
  let ?s2 = "run_piece k Pc_Poll ?s1"
  let ?s3 = "whole_run srv ?s2 es2"
  have ok: "whole_ok s" unfolding assms(1) by (rule whole_ok_run [OF whole_ok_start])
  from goes_on_run [OF ok assms(3), of srv es1] obtain g where
    g: "wm_futures ?s1 k = Some g" and "goes_on (Wm_Piece k Pc_Drop \<in> set es1) f g" by blast
  then have g': "cf_deadline g = Some t" "cf_state g \<noteq> Call_New" "cf_state g \<noteq> Call_Dropped"
    using assms(4-6,8) by (auto simp: goes_on_def)
  let ?v = "session_view ?s1 (cf_disp g) (cf_conn g)"
  have v: "calls ?v k = cf_state g" by (rule piece_self(3) [OF g])
  have hit: "deadline_hit ?v k" using g g'(1) assms(7) by (simp add: deadline_hit_def session_view_def)
  have "\<exists>out. calls (disp_step ?v (Ev_Poll k)) k = Call_Done out"
    using v hit g'(2,3)
    by (cases "cf_state g") (auto simp: disp_step.simps step_queued_def poll_admission_def step_running_def poll_running_def
        split: oneshot.split sum.split)
  then obtain h out where h: "wm_futures ?s2 k = Some h" "cf_state h = Call_Done out"
    using piece_self(1) [OF g, of Pc_Poll] by auto
  have "whole_ok ?s2" using whole_ok_step [OF whole_ok_run [OF ok], of srv srv es1 "Wm_Piece k Pc_Poll"] by simp
  from goes_on_run [OF this h(1), of srv es2] h(2) obtain h' where h': "wm_futures ?s3 k = Some h'" "cf_state h' = Call_Done out"
    by (auto simp: goes_on_def)
  have "waiting_or_answered s k q" using assms(2) by (simp add: waiting_or_answered_def)
  from waiting_run [OF this, of srv "es1 @ Wm_Piece k Pc_Poll # es2"] have "waiting_or_answered ?s3 k q" by simp
  then obtain ph where ph: "wm_callers ?s3 k = Some (Agent q ph)" "call_rank ph \<le> 1" "ph \<noteq> Cp_Unrouted"
    by (auto simp: waiting_or_answered_def)
  obtain env' where turn: "caller_turn srv env k ?s3 = agent_step srv env' k q ph ?s3"
    using ph(2,3) h' unfolding waiting_phases
    by (cases ph) (auto simp: caller_turn_def ph(1) agent_turn_def)
  obtain answer where "wm_callers (agent_step srv env' k q ph ?s3) = (wm_callers ?s3)(k \<mapsto> Agent q (Cp_Done answer))"
    using agent_step_waiting [OF ph(2,3)] by blast
  then show ?thesis by (simp add: turn)
qed

theorem deadline_answers_the_agent_witness:
  "\<exists>answer. wm_callers (whole_run allow_env (whole_run allow_env (whole_start None None) (demo_ready @ [Wm_Piece 7 Pc_Start, Wm_Piece 7 Pc_Poll]))
     ([Wm_Tick 60000] @ Wm_Piece 7 Pc_Poll # [] @ [Wm_Turn call_env_sample 7])) 7 = Some (Agent call_request (Cp_Done answer))"
proof -
  let ?s = "whole_run allow_env (whole_start None None) (demo_ready @ [Wm_Piece 7 Pc_Start, Wm_Piece 7 Pc_Poll])"
  from demo_runs(1) obtain f where f: "wm_futures ?s 7 = Some f" "cf_state f = Call_Running (mgr_id 0, 0) False" by auto
  have "cf_deadline f = Some 60000"
  proof -
    let ?r = "whole_run allow_env (whole_start None None) demo_ready"
    have "wm_futures ?r 7 = Some demo_future" using demo_reaches by simp
    from goes_on_run [OF whole_ok_run [OF whole_ok_start] this, of allow_env "[Wm_Piece 7 Pc_Start, Wm_Piece 7 Pc_Poll]"] f(1)
    show ?thesis by (auto simp: goes_on_def demo_future_def)
  qed
  moreover have "wm_callers ?s 7 = Some (Agent call_request (Cp_Calling None \<lparr>rc_session_id = ''s1'', rc_tool_name = ''find''\<rparr> 0 (cf_params demo_future) (Some 60000)))"
    by (simp only: demo_runs(3)) simp
  ultimately show ?thesis
    using f by (intro deadline_answers_the_agent [OF refl]) auto
qed

end
