(* ===== verification/Config.thy ===== *)
theory Config
  imports Prelude
begin

text \<open>
  Configuration and start of the process (\<open>src/config/\<close>, \<open>src/app.rs\<close>,
  \<open>src/cli/args.rs\<close>): the sections with their defaults, the search for the file, the
  overrides of the command line and the validation. Reading files, the YAML
  parser, the parser of socket addresses, and what runs after the validation are inputs.
\<close>

section \<open>Paths\<close>

text \<open>
  Paths of the platform the manager runs on: bytes, with the slash as separator.
  \<open>Path_join\<close> is \<open>PathBuf::push\<close> on a copy. \<open>Path_parent\<close> drops the last
  component; empty and dot segments are no components, except a dot at the very start.
\<close>

abbreviation slash :: char where "slash \<equiv> CHR ''/''"

definition Path_is_absolute :: "string \<Rightarrow> bool" where
  "Path_is_absolute p \<longleftrightarrow> starts_with [slash] p"

definition Path_join :: "string \<Rightarrow> string \<Rightarrow> string" where
  "Path_join base p =
     (if Path_is_absolute p then p
      else if base = [] \<or> last base = slash then base @ p
      else base @ [slash] @ p)"

fun segments :: "string \<Rightarrow> string list" where
  "segments [] = [[]]"
| "segments (c # cs) = (if c = slash then [] # segments cs
     else (case segments cs of s # ss \<Rightarrow> (c # s) # ss | [] \<Rightarrow> [[c]]))"

definition no_component :: "string \<Rightarrow> bool" where
  "no_component s \<longleftrightarrow> s = [] \<or> s = ''.''"

definition path_start :: "string \<Rightarrow> string" where
  "path_start p = (if starts_with ''/'' p then ''/'' else if p = ''.'' \<or> starts_with ''./'' p then ''.'' else [])"

definition Path_parent :: "string \<Rightarrow> string option" where
  "Path_parent p = (case dropWhile no_component (rev (segments (drop (length (path_start p)) p))) of
     [] \<Rightarrow> if path_start p = ''.'' then Some [] else None
   | name # before \<Rightarrow> Some (path_start p @ str_join ''/'' (rev (dropWhile no_component before))))"

section \<open>Sections and defaults\<close>

record MaskingConfig =
  mk_enabled :: bool
  mk_socket_path :: string
  mk_internal_listen_path :: string
  mk_preflight_timeout_ms :: u64
  mk_finalize_timeout_ms :: u64
  mk_internal_call_timeout_ms :: u64
  mk_managed_tools :: "string list"
  mk_internal_tools :: "string list"
  mk_service_expected_uid :: "u32 option"

record McpHttpConfig =
  ht_bind_address :: string
  ht_path :: string
  ht_stateful_sessions :: bool
  ht_max_sessions :: u64
  ht_idle_ttl_secs :: u64
  ht_auth_token :: "string option"

record McpSessionManagerConfig =
  sm_bind_address :: string
  sm_path :: string
  sm_heartbeat_interval_ms :: u64
  sm_idle_timeout_secs :: u64
  sm_reconnection_grace_secs :: u64
  sm_graceful_kill_grace_ms :: u64
  sm_ws_ping_interval_ms :: u64
  sm_ws_ping_timeout_ms :: u64

record McpExecutionConfig =
  ex_shutdown_grace_period_secs :: u64

record MetricsConfig =
  mx_bind_address :: "string option"

record McpConfig =
  mc_http :: McpHttpConfig
  mc_execution :: McpExecutionConfig
  mc_metrics :: MetricsConfig
  mc_session_manager :: "McpSessionManagerConfig option"

record ToolsCacheSection =
  ts_enabled :: bool
  ts_cache_life_period :: duration
  ts_storage_path :: "string option"

record AppConfig =
  ac_work_path :: string
  ac_mcp :: McpConfig
  ac_tools_cache :: ToolsCacheSection
  ac_masking :: MaskingConfig

definition MaskingConfig_default :: MaskingConfig where
  "MaskingConfig_default =
     \<lparr>mk_enabled = False, mk_socket_path = ''/run/1c-masking/internal.sock'',
      mk_internal_listen_path = ''/run/1c-masking/manager.sock'',
      mk_preflight_timeout_ms = 3000, mk_finalize_timeout_ms = 15000, mk_internal_call_timeout_ms = 10000,
      mk_managed_tools = [],
      mk_internal_tools = [''mcp_internal_masking_metadata_feed'', ''mcp_internal_masking_dictionary_feed''],
      mk_service_expected_uid = None\<rparr>"

definition default_mcp_http_bind_address :: string where "default_mcp_http_bind_address = ''127.0.0.1:4001''"
definition default_mcp_http_path :: string where "default_mcp_http_path = ''/mcp''"
definition default_mcp_http_stateful_sessions :: bool where "default_mcp_http_stateful_sessions = True"
definition default_mcp_http_max_sessions :: u64 where "default_mcp_http_max_sessions = 64"
definition default_mcp_http_idle_ttl_secs :: u64 where "default_mcp_http_idle_ttl_secs = 900"
definition default_mcp_execution_shutdown_grace_period_secs :: u64 where
  "default_mcp_execution_shutdown_grace_period_secs = 30"
definition default_mcp_session_manager_bind_address :: string where
  "default_mcp_session_manager_bind_address = ''127.0.0.1:4000''"
definition default_mcp_session_manager_path :: string where "default_mcp_session_manager_path = ''/sessions''"
definition default_mcp_session_manager_heartbeat_interval_ms :: u64 where
  "default_mcp_session_manager_heartbeat_interval_ms = 15000"
definition default_mcp_session_manager_idle_timeout_secs :: u64 where
  "default_mcp_session_manager_idle_timeout_secs = 1800"
definition default_mcp_session_manager_reconnection_grace_secs :: u64 where
  "default_mcp_session_manager_reconnection_grace_secs = 30"
definition default_mcp_session_manager_graceful_kill_grace_ms :: u64 where
  "default_mcp_session_manager_graceful_kill_grace_ms = 5000"
definition default_mcp_session_manager_ws_ping_interval_ms :: u64 where
  "default_mcp_session_manager_ws_ping_interval_ms = 20000"
definition default_mcp_session_manager_ws_ping_timeout_ms :: u64 where
  "default_mcp_session_manager_ws_ping_timeout_ms = 30000"

lemmas default_settings = default_mcp_http_bind_address_def default_mcp_http_path_def default_mcp_http_stateful_sessions_def
  default_mcp_http_max_sessions_def default_mcp_http_idle_ttl_secs_def default_mcp_execution_shutdown_grace_period_secs_def
  default_mcp_session_manager_bind_address_def default_mcp_session_manager_path_def
  default_mcp_session_manager_heartbeat_interval_ms_def default_mcp_session_manager_idle_timeout_secs_def
  default_mcp_session_manager_reconnection_grace_secs_def default_mcp_session_manager_graceful_kill_grace_ms_def
  default_mcp_session_manager_ws_ping_interval_ms_def default_mcp_session_manager_ws_ping_timeout_ms_def

definition McpHttpConfig_default :: McpHttpConfig where
  "McpHttpConfig_default =
     \<lparr>ht_bind_address = default_mcp_http_bind_address, ht_path = default_mcp_http_path,
      ht_stateful_sessions = default_mcp_http_stateful_sessions, ht_max_sessions = default_mcp_http_max_sessions,
      ht_idle_ttl_secs = default_mcp_http_idle_ttl_secs, ht_auth_token = None\<rparr>"

definition McpExecutionConfig_default :: McpExecutionConfig where
  "McpExecutionConfig_default = \<lparr>ex_shutdown_grace_period_secs = default_mcp_execution_shutdown_grace_period_secs\<rparr>"

definition MetricsConfig_default :: MetricsConfig where
  "MetricsConfig_default = \<lparr>mx_bind_address = Some ''127.0.0.1:9100''\<rparr>"

definition McpSessionManagerConfig_default :: McpSessionManagerConfig where
  "McpSessionManagerConfig_default =
     \<lparr>sm_bind_address = default_mcp_session_manager_bind_address, sm_path = default_mcp_session_manager_path,
      sm_heartbeat_interval_ms = default_mcp_session_manager_heartbeat_interval_ms,
      sm_idle_timeout_secs = default_mcp_session_manager_idle_timeout_secs,
      sm_reconnection_grace_secs = default_mcp_session_manager_reconnection_grace_secs,
      sm_graceful_kill_grace_ms = default_mcp_session_manager_graceful_kill_grace_ms,
      sm_ws_ping_interval_ms = default_mcp_session_manager_ws_ping_interval_ms,
      sm_ws_ping_timeout_ms = default_mcp_session_manager_ws_ping_timeout_ms\<rparr>"

definition McpConfig_default :: McpConfig where
  "McpConfig_default =
     \<lparr>mc_http = McpHttpConfig_default, mc_execution = McpExecutionConfig_default,
      mc_metrics = MetricsConfig_default, mc_session_manager = None\<rparr>"

definition ToolsCacheSection_default :: ToolsCacheSection where
  "ToolsCacheSection_default =
     \<lparr>ts_enabled = True, ts_cache_life_period = 5 * 24 * 60 * 60 * 1000, ts_storage_path = None\<rparr>"

section \<open>Validation\<close>

datatype ConfigValidationError =
    EmptyWorkPath
  | InvalidHttpBindAddress string
  | InvalidHttpPath string
  | InvalidSessionManagerBindAddress string
  | InvalidSessionManagerPath string
  | InvalidMetricsBindAddress string
  | ToolsCacheLifePeriodTooSmall duration
  | InvalidMaskingSocketPath
  | InvalidMaskingInternalListenPath
  | InvalidMaskingTimeout string
  | InvalidInternalTools
  | MissingServiceExpectedUid

text \<open>The loop over the names with its set of the names seen so far.\<close>

fun bad_tool_name :: "string list \<Rightarrow> string list \<Rightarrow> bool" where
  "bad_tool_name seen [] \<longleftrightarrow> False"
| "bad_tool_name seen (name # names) \<longleftrightarrow>
     name = [] \<or> name \<in> set seen \<or> bad_tool_name (name # seen) names"

definition validate_masking :: "MaskingConfig \<Rightarrow> (ConfigValidationError, unit) res" where
  "validate_masking m =
     (if mk_socket_path m = [] \<or> \<not> Path_is_absolute (mk_socket_path m) then Err InvalidMaskingSocketPath
      else if mk_internal_listen_path m = [] \<or> \<not> Path_is_absolute (mk_internal_listen_path m)
      then Err InvalidMaskingInternalListenPath
      else if mk_preflight_timeout_ms m = 0 then Err (InvalidMaskingTimeout ''preflight_timeout_ms'')
      else if mk_finalize_timeout_ms m = 0 then Err (InvalidMaskingTimeout ''finalize_timeout_ms'')
      else if mk_internal_call_timeout_ms m = 0 then Err (InvalidMaskingTimeout ''internal_call_timeout_ms'')
      else if mk_internal_tools m = [] \<or> bad_tool_name [] (mk_internal_tools m) then Err InvalidInternalTools
      else if mk_service_expected_uid m = None then Err MissingServiceExpectedUid
      else Ok ())"

text \<open>The socket of the sessions: \<open>addr\<close> tells which texts are socket addresses.\<close>

definition session_manager_error :: "(string \<Rightarrow> bool) \<Rightarrow> McpSessionManagerConfig \<Rightarrow> ConfigValidationError option" where
  "session_manager_error addr sm =
     (if \<not> addr (sm_bind_address sm) then Some (InvalidSessionManagerBindAddress (sm_bind_address sm))
      else if \<not> starts_with ''/'' (sm_path sm) then Some (InvalidSessionManagerPath (sm_path sm))
      else None)"

definition metrics_error :: "(string \<Rightarrow> bool) \<Rightarrow> string \<Rightarrow> ConfigValidationError option" where
  "metrics_error addr a = (if a \<noteq> [] \<and> \<not> addr a then Some (InvalidMetricsBindAddress a) else None)"

definition validate :: "(string \<Rightarrow> bool) \<Rightarrow> AppConfig \<Rightarrow> (ConfigValidationError, unit) res" where
  "validate addr cfg =
     (let http = mc_http (ac_mcp cfg); cache = ac_tools_cache cfg in
      if ac_work_path cfg = [] then Err EmptyWorkPath
      else if \<not> addr (ht_bind_address http) then Err (InvalidHttpBindAddress (ht_bind_address http))
      else if \<not> starts_with ''/'' (ht_path http) then Err (InvalidHttpPath (ht_path http))
      else (case Option.bind (mc_session_manager (ac_mcp cfg)) (session_manager_error addr) of
        Some e \<Rightarrow> Err e
      | None \<Rightarrow>
         (case Option.bind (mx_bind_address (mc_metrics (ac_mcp cfg))) (metrics_error addr) of
           Some e \<Rightarrow> Err e
         | None \<Rightarrow>
            if ts_enabled cache \<and> ts_cache_life_period cache < 1000
            then Err (ToolsCacheLifePeriodTooSmall (ts_cache_life_period cache))
            else if mk_enabled (ac_masking cfg) then validate_masking (ac_masking cfg)
            else Ok ())))"

section \<open>Loading\<close>

definition DEFAULT_CONFIG_FILE_NAME :: string where "DEFAULT_CONFIG_FILE_NAME = ''v8project.yaml''"

datatype ConfigLoadError =
    NotFound string
  | ReadError string string
  | Yaml_ParseError string string
  | ValidationError ConfigValidationError

record LoadedConfig =
  lc_config :: AppConfig
  lc_config_dir :: string

text \<open>
  What the process finds outside: the files, the parsers, and the results of
  opening the log and of running the servers.
\<close>

record startup_env =
  st_addr :: "string \<Rightarrow> bool"
  st_exists :: "string \<Rightarrow> bool"
  st_read :: "string \<Rightarrow> (string, string) res"
  st_yaml :: "string \<Rightarrow> (string, AppConfig) res"
  st_logging :: "string \<Rightarrow> string \<Rightarrow> (string, unit) res"
  st_serve :: "AppConfig \<Rightarrow> (string, unit) res"

definition resolve_config_path :: "string option \<Rightarrow> string option \<Rightarrow> string" where
  "resolve_config_path path workdir = (case path of
     Some p \<Rightarrow> if Path_is_absolute p then p
              else (case workdir of Some wd \<Rightarrow> Path_join wd p | None \<Rightarrow> p)
   | None \<Rightarrow> Path_join (unwrap_or ''.'' workdir) DEFAULT_CONFIG_FILE_NAME)"

definition read_config :: "startup_env \<Rightarrow> string option \<Rightarrow> string option \<Rightarrow> (ConfigLoadError, LoadedConfig) res" where
  "read_config env config_path workdir_override =
     (let resolved = resolve_config_path config_path workdir_override in
      if \<not> st_exists env resolved then Err (NotFound resolved)
      else (case st_read env resolved of
        Inl e \<Rightarrow> Err (ReadError resolved e)
      | Inr raw \<Rightarrow>
         (case st_yaml env raw of
           Inl e \<Rightarrow> Err (Yaml_ParseError resolved e)
         | Inr config \<Rightarrow>
             Ok \<lparr>lc_config = config, lc_config_dir = unwrap_or ''.'' (Path_parent resolved)\<rparr>)))"

definition resolve_workpath :: "string \<Rightarrow> AppConfig \<Rightarrow> AppConfig" where
  "resolve_workpath config_dir cfg =
     (if ac_work_path cfg = [] then cfg
      else if \<not> Path_is_absolute (ac_work_path cfg)
      then cfg\<lparr>ac_work_path := Path_join config_dir (ac_work_path cfg)\<rparr>
      else cfg)"

definition finalize_config :: "(string \<Rightarrow> bool) \<Rightarrow> AppConfig \<Rightarrow> (ConfigLoadError, unit) res" where
  "finalize_config addr cfg = (case validate addr cfg of Inl e \<Rightarrow> Err (ValidationError e) | Inr u \<Rightarrow> Ok u)"

section \<open>The process\<close>

record Cli =
  cli_config :: "string option"
  cli_workdir :: "string option"
  cli_log_level :: "string option"
  cli_bind :: "string option"
  cli_path :: "string option"
  cli_mcp_http :: "string option"

definition VALIDATION_ERROR :: int where "VALIDATION_ERROR = 2"
definition RUNTIME_ERROR :: int where "RUNTIME_ERROR = 3"

definition apply_cli_overrides :: "Cli \<Rightarrow> AppConfig \<Rightarrow> AppConfig" where
  "apply_cli_overrides cli cfg =
     (let mcp = ac_mcp cfg;
          mcp1 = (case cli_mcp_http cli of
                    Some http \<Rightarrow> mcp\<lparr>mc_http := (mc_http mcp)\<lparr>ht_bind_address := http\<rparr>\<rparr>
                  | None \<Rightarrow> mcp);
          mcp2 = (if cli_bind cli \<noteq> None \<or> cli_path cli \<noteq> None
                  then (let sm = unwrap_or McpSessionManagerConfig_default (mc_session_manager mcp1);
                            sm1 = sm\<lparr>sm_bind_address := unwrap_or (sm_bind_address sm) (cli_bind cli)\<rparr>;
                            sm2 = sm1\<lparr>sm_path := unwrap_or (sm_path sm1) (cli_path cli)\<rparr>
                        in mcp1\<lparr>mc_session_manager := Some sm2\<rparr>)
                  else mcp1)
      in cfg\<lparr>ac_mcp := mcp2\<rparr>)"

definition override_workdir :: "Cli \<Rightarrow> AppConfig \<Rightarrow> AppConfig" where
  "override_workdir cli cfg = (case cli_workdir cli of Some wd \<Rightarrow> cfg\<lparr>ac_work_path := wd\<rparr> | None \<Rightarrow> cfg)"

text \<open>The three steps between reading and validating, in their order.\<close>

definition effective_config :: "Cli \<Rightarrow> LoadedConfig \<Rightarrow> AppConfig" where
  "effective_config cli loaded =
     apply_cli_overrides cli (override_workdir cli (resolve_workpath (lc_config_dir loaded) (lc_config loaded)))"

text \<open>The exit code, and the configuration with which the servers were run, if they were.\<close>

definition app_run :: "startup_env \<Rightarrow> Cli \<Rightarrow> int \<times> AppConfig option" where
  "app_run env cli = (case read_config env (cli_config cli) (cli_workdir cli) of
     Inl _ \<Rightarrow> (VALIDATION_ERROR, None)
   | Inr loaded \<Rightarrow>
       (let cfg = effective_config cli loaded in
        case finalize_config (st_addr env) cfg of
          Inl _ \<Rightarrow> (VALIDATION_ERROR, None)
        | Inr _ \<Rightarrow>
           (case st_logging env (unwrap_or ''info'' (cli_log_level cli)) (ac_work_path cfg) of
             Inl _ \<Rightarrow> (RUNTIME_ERROR, None)
           | Inr _ \<Rightarrow>
              (case st_serve env cfg of Inr _ \<Rightarrow> (0, Some cfg) | Inl _ \<Rightarrow> (RUNTIME_ERROR, Some cfg)))))"

section \<open>Paths behave as the code expects\<close>

lemma Path_join_absolute: "Path_is_absolute base \<Longrightarrow> Path_is_absolute (Path_join base p)"
  by (cases base) (auto simp: Path_join_def Path_is_absolute_def starts_with_def)

lemma Path_join_Nil [simp]: "Path_join base p = [] \<longleftrightarrow> base = [] \<and> p = []"
  by (auto simp: Path_join_def Path_is_absolute_def starts_with_def)

lemma segments_nonempty [simp]: "segments p \<noteq> []"
  by (cases p) (auto split: list.split)

lemma segments_slash: "segments (p @ slash # q) = segments p @ segments q"
proof (induction p)
  case (Cons c p)
  obtain t ts where p: "segments p = t # ts" by (meson neq_Nil_conv segments_nonempty)
  with Cons.IH show ?case by simp
qed simp

lemma segments_plain: "slash \<notin> set p \<Longrightarrow> segments p = [p]"
  by (induction p) auto

lemma str_join_Cons: "ss \<noteq> [] \<Longrightarrow> str_join sep (s # ss) = s @ sep @ str_join sep ss"
  by (cases ss) auto

lemma join_segments [simp]: "str_join ''/'' (segments p) = p"
proof (induction p)
  case (Cons c p)
  obtain t ts where p: "segments p = t # ts" by (meson neq_Nil_conv segments_nonempty)
  with Cons.IH show ?case by (cases ts) (auto simp: str_join_Cons)
qed simp

lemma rev_dropWhile_last: "xs \<noteq> [] \<Longrightarrow> \<not> P (last xs) \<Longrightarrow> rev (dropWhile P (rev xs)) = xs"
  by (cases xs rule: rev_cases) auto

text \<open>The parent of a file in a directory is that directory.\<close>

lemma Path_parent_join:
  assumes d: "\<not> no_component (last (segments d))" and f: "\<not> no_component f" "slash \<notin> set f"
  shows "Path_parent (Path_join d f) = Some d"
proof -
  have ne: "d \<noteq> []" "d \<noteq> ''.''" using d by (auto simp: no_component_def)
  have "last (segments (e @ [slash])) = []" for e by (simp add: segments_slash)
  then have lastd: "last d \<noteq> slash" using d ne by (metis append_butlast_last_id no_component_def)
  have "\<not> Path_is_absolute f" using f by (cases f) (auto simp: Path_is_absolute_def starts_with_def no_component_def)
  with ne lastd have join: "Path_join d f = d @ slash # f" by (simp add: Path_join_def)
  have st: "path_start (d @ slash # f) = path_start d"
    using ne by (auto simp: path_start_def starts_with_def take_Cons' Cons_eq_append_conv neq_Nil_conv split: if_splits)
  have "\<exists>r. d = path_start d @ r \<and> last (segments r) = last (segments d)"
  proof (cases "starts_with ''/'' d")
    case True
    then obtain r where "d = slash # r" by (cases d) (auto simp: starts_with_def)
    with True show ?thesis by (simp add: path_start_def)
  next
    case False
    show ?thesis
    proof (cases "starts_with ''./'' d")
      case True
      then obtain r where "d = CHR ''.'' # slash # r" by (cases d; cases "tl d") (auto simp: starts_with_def)
      with True False show ?thesis by (simp add: path_start_def)
    next
      case dot: False
      with False ne show ?thesis by (simp add: path_start_def)
    qed
  qed
  then obtain r where r: "d = path_start d @ r" and "last (segments r) = last (segments d)" by blast
  then have rl: "\<not> no_component (last (segments r))" using d by simp
  have "rev (segments (r @ slash # f)) = f # rev (segments r)" using f by (simp add: segments_slash segments_plain)
  moreover have "drop (length (path_start d)) (d @ slash # f) = r @ slash # f"
    using r by (metis append.assoc append_eq_conv_conj)
  ultimately show ?thesis
    using f(1) rl r by (simp add: join Path_parent_def st rev_dropWhile_last)
qed

section \<open>Validation is exact\<close>

text \<open>What each error says of the configuration.\<close>

fun violation :: "(string \<Rightarrow> bool) \<Rightarrow> AppConfig \<Rightarrow> ConfigValidationError \<Rightarrow> bool" where
  "violation addr cfg EmptyWorkPath \<longleftrightarrow> ac_work_path cfg = []"
| "violation addr cfg (InvalidHttpBindAddress a) \<longleftrightarrow> ht_bind_address (mc_http (ac_mcp cfg)) = a \<and> \<not> addr a"
| "violation addr cfg (InvalidHttpPath p) \<longleftrightarrow> ht_path (mc_http (ac_mcp cfg)) = p \<and> \<not> starts_with ''/'' p"
| "violation addr cfg (InvalidSessionManagerBindAddress a) \<longleftrightarrow>
     map_option sm_bind_address (mc_session_manager (ac_mcp cfg)) = Some a \<and> \<not> addr a"
| "violation addr cfg (InvalidSessionManagerPath p) \<longleftrightarrow>
     map_option sm_path (mc_session_manager (ac_mcp cfg)) = Some p \<and> \<not> starts_with ''/'' p"
| "violation addr cfg (InvalidMetricsBindAddress a) \<longleftrightarrow>
     mx_bind_address (mc_metrics (ac_mcp cfg)) = Some a \<and> a \<noteq> [] \<and> \<not> addr a"
| "violation addr cfg (ToolsCacheLifePeriodTooSmall d) \<longleftrightarrow>
     ts_enabled (ac_tools_cache cfg) \<and> ts_cache_life_period (ac_tools_cache cfg) = d \<and> d < 1000"
| "violation addr cfg InvalidMaskingSocketPath \<longleftrightarrow>
     mk_enabled (ac_masking cfg) \<and> \<not> Path_is_absolute (mk_socket_path (ac_masking cfg))"
| "violation addr cfg InvalidMaskingInternalListenPath \<longleftrightarrow>
     mk_enabled (ac_masking cfg) \<and> \<not> Path_is_absolute (mk_internal_listen_path (ac_masking cfg))"
| "violation addr cfg (InvalidMaskingTimeout f) \<longleftrightarrow> mk_enabled (ac_masking cfg) \<and>
     map_of [(''preflight_timeout_ms'', mk_preflight_timeout_ms (ac_masking cfg)),
             (''finalize_timeout_ms'', mk_finalize_timeout_ms (ac_masking cfg)),
             (''internal_call_timeout_ms'', mk_internal_call_timeout_ms (ac_masking cfg))] f = Some 0"
| "violation addr cfg InvalidInternalTools \<longleftrightarrow> mk_enabled (ac_masking cfg) \<and>
     (mk_internal_tools (ac_masking cfg) = [] \<or> [] \<in> set (mk_internal_tools (ac_masking cfg)) \<or>
      \<not> distinct (mk_internal_tools (ac_masking cfg)))"
| "violation addr cfg MissingServiceExpectedUid \<longleftrightarrow>
     mk_enabled (ac_masking cfg) \<and> mk_service_expected_uid (ac_masking cfg) = None"

lemma bad_tool_name_iff:
  "bad_tool_name seen ns \<longleftrightarrow> [] \<in> set ns \<or> \<not> distinct ns \<or> set seen \<inter> set ns \<noteq> {}"
  by (induction ns arbitrary: seen) auto

lemma relative_empty: "\<not> Path_is_absolute []"
  by (simp add: Path_is_absolute_def starts_with_def)

lemmas validate_defs = validate_def validate_masking_def session_manager_error_def metrics_error_def Let_def

lemma validate_error_sound: "validate addr cfg = Err e \<Longrightarrow> violation addr cfg e"
  by (auto simp: validate_defs bad_tool_name_iff relative_empty split: if_splits option.splits bind_splits)

lemma validate_ok_complete: "validate addr cfg = Ok () \<Longrightarrow> \<not> violation addr cfg e"
  by (cases e) (auto simp: validate_defs bad_tool_name_iff split: if_splits option.splits bind_splits)

text \<open>
  C35: Validation is exact. An error it reports is a violation that the
  configuration has, with the value at fault; a configuration it accepts has no violation of
  any of the twelve kinds.
\<close>

theorem validation_is_exact:
  "case validate addr cfg of Inl e \<Rightarrow> violation addr cfg e | Inr u \<Rightarrow> \<not> (\<exists>e. violation addr cfg e)"
  using validate_error_sound [of addr cfg] validate_ok_complete [of addr cfg]
  by (auto split: sum.split)

section \<open>Start of the process\<close>

lemma effective_config_fields:
  "ac_work_path (effective_config cli l) = (case cli_workdir cli of Some wd \<Rightarrow> wd
     | None \<Rightarrow> ac_work_path (resolve_workpath (lc_config_dir l) (lc_config l)))"
  "ac_masking (effective_config cli l) = ac_masking (lc_config l)"
  "ac_tools_cache (effective_config cli l) = ac_tools_cache (lc_config l)"
  "mc_http (ac_mcp (effective_config cli l)) =
     (mc_http (ac_mcp (lc_config l)))\<lparr>ht_bind_address := unwrap_or (ht_bind_address (mc_http (ac_mcp (lc_config l)))) (cli_mcp_http cli)\<rparr>"
  by (simp_all add: effective_config_def apply_cli_overrides_def override_workdir_def resolve_workpath_def Let_def
      split: option.split)

text \<open>The settings of the sessions' socket that the server will use.\<close>

abbreviation session_settings :: "AppConfig \<Rightarrow> McpSessionManagerConfig" where
  "session_settings cfg \<equiv> unwrap_or McpSessionManagerConfig_default (mc_session_manager (ac_mcp cfg))"

lemma effective_session_settings:
  "session_settings (effective_config cli l) =
     (session_settings (lc_config l))
       \<lparr>sm_bind_address := unwrap_or (sm_bind_address (session_settings (lc_config l))) (cli_bind cli),
        sm_path := unwrap_or (sm_path (session_settings (lc_config l))) (cli_path cli)\<rparr>"
  by (auto simp: effective_config_def apply_cli_overrides_def override_workdir_def resolve_workpath_def Let_def
      split: option.split)

lemma resolve_workpath_path:
  "ac_work_path cfg \<noteq> [] \<Longrightarrow> ac_work_path (resolve_workpath dir cfg) = Path_join dir (ac_work_path cfg)"
  by (simp add: resolve_workpath_def Path_join_def)

text \<open>
  C36: What runs is what was asked for, validated. Whenever the servers are run,
  their configuration passed the validation in its final form; it is the one of the file at
  the resolved path, with the addresses and the path of the command line where given, with
  the work directory of the command line or else the file's, taken relative to the file's
  directory; all other settings are the file's.
\<close>

theorem served_configuration_is_validated:
  assumes "app_run env cli = (code, Some cfg)"
  shows "validate (st_addr env) cfg = Ok () \<and> (code = 0 \<or> code = RUNTIME_ERROR) \<and>
    (let path = resolve_config_path (cli_config cli) (cli_workdir cli) in
     \<exists>raw base. st_read env path = Ok raw \<and> st_yaml env raw = Ok base \<and>
       ac_masking cfg = ac_masking base \<and> ac_tools_cache cfg = ac_tools_cache base \<and>
       mc_http (ac_mcp cfg) = (mc_http (ac_mcp base))
         \<lparr>ht_bind_address := unwrap_or (ht_bind_address (mc_http (ac_mcp base))) (cli_mcp_http cli)\<rparr> \<and>
       session_settings cfg = (session_settings base)
         \<lparr>sm_bind_address := unwrap_or (sm_bind_address (session_settings base)) (cli_bind cli),
          sm_path := unwrap_or (sm_path (session_settings base)) (cli_path cli)\<rparr> \<and>
       ac_work_path cfg = (case cli_workdir cli of Some wd \<Rightarrow> wd
         | None \<Rightarrow> Path_join (unwrap_or ''.'' (Path_parent path)) (ac_work_path base)))"
proof -
  obtain l where l: "read_config env (cli_config cli) (cli_workdir cli) = Ok l" and cfg: "cfg = effective_config cli l"
    and valid: "validate (st_addr env) cfg = Ok ()" and code: "code = 0 \<or> code = RUNTIME_ERROR"
    using assms by (auto simp: app_run_def finalize_config_def Let_def split: sum.splits)
  define path where "path = resolve_config_path (cli_config cli) (cli_workdir cli)"
  from l obtain raw where raw: "st_read env path = Ok raw" "st_yaml env raw = Ok (lc_config l)"
    and dir: "lc_config_dir l = unwrap_or ''.'' (Path_parent path)"
    by (auto simp: read_config_def path_def Let_def split: if_splits sum.splits)
  have "ac_work_path cfg \<noteq> []" using validate_ok_complete [OF valid, of EmptyWorkPath] by simp
  then have "ac_work_path (lc_config l) \<noteq> []" if "cli_workdir cli = None"
    using that by (auto simp: cfg effective_config_fields resolve_workpath_def split: if_splits)
  then have work: "ac_work_path cfg = (case cli_workdir cli of Some wd \<Rightarrow> wd
      | None \<Rightarrow> Path_join (unwrap_or ''.'' (Path_parent path)) (ac_work_path (lc_config l)))"
    by (auto simp: cfg effective_config_fields resolve_workpath_path dir split: option.split)
  show ?thesis
    unfolding path_def [symmetric] Let_def
    using valid code raw work effective_session_settings [of cli l]
    by (intro conjI exI [of _ raw] exI [of _ "lc_config l"]) (simp_all add: cfg effective_config_fields)
qed

definition sample_app_config :: AppConfig where
  "sample_app_config = \<lparr>ac_work_path = ''build'', ac_mcp = McpConfig_default,
     ac_tools_cache = ToolsCacheSection_default, ac_masking = MaskingConfig_default\<rparr>"

definition sample_startup :: startup_env where
  "sample_startup = \<lparr>st_addr = (\<lambda>a. starts_with ''127.0.0.1:'' a), st_exists = (\<lambda>p. p = ''/etc/v8.yaml''),
     st_read = (\<lambda>p. if p = ''/etc/v8.yaml'' then Ok ''workPath: build'' else Err ''missing''),
     st_yaml = (\<lambda>t. if t = ''workPath: build'' then Ok sample_app_config else Err ''syntax''),
     st_logging = (\<lambda>_ _. Ok ()), st_serve = (\<lambda>_. Ok ())\<rparr>"

definition sample_cli :: Cli where
  "sample_cli = \<lparr>cli_config = Some ''/etc/v8.yaml'', cli_workdir = None, cli_log_level = None,
     cli_bind = Some ''127.0.0.1:5000'', cli_path = None, cli_mcp_http = None\<rparr>"

lemmas sample_startup_defs = sample_startup_def sample_cli_def sample_app_config_def McpConfig_default_def
  McpHttpConfig_default_def McpSessionManagerConfig_default_def ToolsCacheSection_default_def MaskingConfig_default_def
  McpExecutionConfig_default_def MetricsConfig_default_def default_settings

lemma sample_loaded:
  "read_config sample_startup (Some ''/etc/v8.yaml'') None = Ok \<lparr>lc_config = sample_app_config, lc_config_dir = ''/etc''\<rparr>"
  by (simp add: read_config_def resolve_config_path_def Path_is_absolute_def starts_with_def sample_startup_def
      Path_parent_def path_start_def no_component_def)

lemma sample_run:
  "app_run sample_startup sample_cli = (0, Some (effective_config sample_cli \<lparr>lc_config = sample_app_config, lc_config_dir = ''/etc''\<rparr>))"
proof -
  have "read_config sample_startup (cli_config sample_cli) (cli_workdir sample_cli) = Ok \<lparr>lc_config = sample_app_config, lc_config_dir = ''/etc''\<rparr>"
    using sample_loaded by (simp add: sample_cli_def)
  then show ?thesis
    by (simp add: app_run_def finalize_config_def validate_defs effective_config_def apply_cli_overrides_def
        override_workdir_def resolve_workpath_def Path_join_def Path_is_absolute_def starts_with_def sample_startup_defs)
qed

theorem served_configuration_is_validated_witness:
  "ac_work_path (effective_config sample_cli \<lparr>lc_config = sample_app_config, lc_config_dir = ''/etc''\<rparr>) = ''/etc/build''"
  using served_configuration_is_validated [OF sample_run]
  by (simp add: sample_startup_defs resolve_config_path_def Path_is_absolute_def starts_with_def Let_def
      Path_parent_def path_start_def no_component_def Path_join_def)

text \<open>
  A wrong setting never starts the servers. If the final configuration, with
  the overrides of the command line in it, has any violation, the process ends with the exit
  code of a validation error and neither opens the log nor runs a server.
\<close>

theorem invalid_settings_never_start:
  assumes "read_config env (cli_config cli) (cli_workdir cli) = Ok loaded"
    and "violation (st_addr env) (effective_config cli loaded) e"
  shows "app_run env cli = (VALIDATION_ERROR, None)"
proof -
  obtain e' where "validate (st_addr env) (effective_config cli loaded) = Err e'"
    using assms(2) validate_ok_complete [of "st_addr env" "effective_config cli loaded" e]
    by (cases "validate (st_addr env) (effective_config cli loaded)") auto
  with assms(1) show ?thesis by (simp add: app_run_def finalize_config_def)
qed

theorem invalid_settings_never_start_witness:
  "app_run sample_startup (sample_cli\<lparr>cli_path := Some ''sessions''\<rparr>) = (VALIDATION_ERROR, None)"
proof (rule invalid_settings_never_start)
  let ?l = "\<lparr>lc_config = sample_app_config, lc_config_dir = ''/etc''\<rparr>"
  show "read_config sample_startup (cli_config (sample_cli\<lparr>cli_path := Some ''sessions''\<rparr>))
      (cli_workdir (sample_cli\<lparr>cli_path := Some ''sessions''\<rparr>)) = Ok ?l"
    using sample_loaded by (simp add: sample_cli_def)
  show "violation (st_addr sample_startup) (effective_config (sample_cli\<lparr>cli_path := Some ''sessions''\<rparr>) ?l)
      (InvalidSessionManagerPath ''sessions'')"
    by (simp add: effective_config_def apply_cli_overrides_def override_workdir_def resolve_workpath_def sample_startup_defs
        starts_with_def)
qed

end
