(* ===== verification/Http_Server.thy ===== *)
theory Http_Server
  imports Json
begin

text \<open>
  The HTTP front of the agents' side (\<open>HttpMcpService\<close> and
  \<open>HttpSessionAdmission\<close> of \<open>src/mcp/server.rs\<close>): authorization, removal of
  reserved metadata from requests, and the limit on sessions. The MCP library behind it is
  outside: what it answers, and which sessions it holds, are inputs of the steps. So is
  the reading of a header value as text.
\<close>

section \<open>Admission of sessions\<close>

record HttpSessionAdmission =
  ad_max_sessions :: nat
  ad_reserved :: nat
  ad_active_sessions :: "string list"

definition admission_new :: "nat \<Rightarrow> HttpSessionAdmission" where
  "admission_new max_sessions = \<lparr>ad_max_sessions = max max_sessions 1, ad_reserved = 0, ad_active_sessions = []\<rparr>"

text \<open>\<open>live\<close> are the sessions the library holds; the others are forgotten first.\<close>

definition reserve_initialize :: "(string \<Rightarrow> bool) \<Rightarrow> HttpSessionAdmission \<Rightarrow> bool \<times> HttpSessionAdmission" where
  "reserve_initialize live a =
     (let a1 = a\<lparr>ad_active_sessions := filter live (ad_active_sessions a)\<rparr> in
      if ad_max_sessions a1 \<le> length (ad_active_sessions a1) + ad_reserved a1 then (False, a1)
      else (True, a1\<lparr>ad_reserved := ad_reserved a1 + 1\<rparr>))"

text \<open>\<open>saturating_sub\<close> is subtraction on \<open>nat\<close>.\<close>

definition ad_confirm :: "string \<Rightarrow> HttpSessionAdmission \<Rightarrow> HttpSessionAdmission" where
  "ad_confirm sid a = a\<lparr>ad_reserved := ad_reserved a - 1, ad_active_sessions := List.insert sid (ad_active_sessions a)\<rparr>"

definition ad_release :: "HttpSessionAdmission \<Rightarrow> HttpSessionAdmission" where
  "ad_release a = a\<lparr>ad_reserved := ad_reserved a - 1\<rparr>"

definition ad_remove :: "string \<Rightarrow> HttpSessionAdmission \<Rightarrow> HttpSessionAdmission" where
  "ad_remove sid a = a\<lparr>ad_active_sessions := removeAll sid (ad_active_sessions a)\<rparr>"

section \<open>Requests\<close>

datatype http_method = GET | POST | DELETE | Other_Method string

record http_request =
  hq_method :: http_method
  hq_headers :: "(string \<times> string) list"
  hq_body :: "string option"

record http_response =
  hs_status :: nat
  hs_headers :: "(string \<times> string) list"
  hs_body :: string

record HttpMcpService =
  hm_stateful_sessions :: bool
  hm_auth_token :: "string option"

text \<open>\<open>he_to_str\<close> reads a header value as text, \<open>he_parse\<close> and \<open>he_print\<close> read and write JSON.\<close>

record http_env =
  he_to_str :: "string \<Rightarrow> string option"
  he_parse :: "string \<Rightarrow> json option"
  he_print :: "json \<Rightarrow> string"

definition header :: "http_env \<Rightarrow> string \<Rightarrow> (string \<times> string) list \<Rightarrow> string option" where
  "header env name hs = Option.bind (map_of hs name) (he_to_str env)"

definition session_id_from_headers :: "http_env \<Rightarrow> (string \<times> string) list \<Rightarrow> string option" where
  "session_id_from_headers env hs = header env ''mcp-session-id'' hs"

definition check_bearer_auth :: "http_env \<Rightarrow> http_request \<Rightarrow> string \<Rightarrow> http_response option" where
  "check_bearer_auth env q token = (case header env ''authorization'' (hq_headers q) of
     Some h \<Rightarrow>
       if starts_with ''Bearer '' h
       then (if drop 7 h = token then None else Some \<lparr>hs_status = 401, hs_headers = [], hs_body = []\<rparr>)
       else Some \<lparr>hs_status = 401, hs_headers = [(''www-authenticate'', ''Bearer realm='' @ [CHR 0x22] @ ''mcp'' @ [CHR 0x22])], hs_body = []\<rparr>
   | None \<Rightarrow> Some \<lparr>hs_status = 401, hs_headers = [(''www-authenticate'', ''Bearer realm='' @ [CHR 0x22] @ ''mcp'' @ [CHR 0x22])], hs_body = []\<rparr>)"

definition valid_streamable_post_headers :: "http_env \<Rightarrow> (string \<times> string) list \<Rightarrow> bool" where
  "valid_streamable_post_headers env hs \<longleftrightarrow>
     (\<exists>v \<in> set_option (header env ''accept'' hs). str_contains ''application/json'' v \<and> str_contains ''text/event-stream'' v) \<and>
     (\<exists>v \<in> set_option (header env ''content-type'' hs). starts_with ''application/json'' v)"

definition text_response :: "nat \<Rightarrow> string \<Rightarrow> http_response" where
  "text_response status body = \<lparr>hs_status = status, hs_headers = [(''content-type'', ''text/plain; charset=utf-8'')], hs_body = body\<rparr>"

definition overload_response :: http_response where
  "overload_response = text_response 503 ''Service Unavailable: MCP session capacity exhausted''"

definition missing_initialize_response :: http_response where
  "missing_initialize_response = text_response 400 ''Bad Request: initialize request is required before session creation''"

section \<open>Reserved metadata\<close>

definition HTTP_BODY_LIMIT_BYTES :: nat where "HTTP_BODY_LIMIT_BYTES = 1024 * 1024"

definition strip_meta :: "jobject \<Rightarrow> bool \<times> jobject" where
  "strip_meta meta = (let kept = filter (\<lambda>e. \<not> starts_with ''v8.'' (fst e)) meta in (length kept \<noteq> length meta, kept))"

definition strip_request :: "jobject \<Rightarrow> bool \<times> jobject" where
  "strip_request q = (case Option.bind (map_of q ''params'') as_object of
     None \<Rightarrow> (False, q)
   | Some params \<Rightarrow>
       (case Option.bind (map_of params ''_meta'') as_object of
          None \<Rightarrow> (False, q)
        | Some meta \<Rightarrow>
            (let (changed, kept) = strip_meta meta
             in (changed, bm_put ''params'' (JObject (bm_put ''_meta'' (JObject kept) params)) q))))"

fun strip_reserved_v8_meta :: "json \<Rightarrow> bool \<times> json" where
  "strip_reserved_v8_meta (JArray qs) =
     (let rs = map strip_reserved_v8_meta qs in (list_ex fst rs, JArray (map snd rs)))"
| "strip_reserved_v8_meta (JObject q) = (let (changed, q') = strip_request q in (changed, JObject q'))"
| "strip_reserved_v8_meta v = (False, v)"

text \<open>A body that cannot be read, or is too long, is refused; one that is not JSON is passed on as it is.\<close>

definition sanitize_http_rpc_request ::
  "http_env \<Rightarrow> http_request \<Rightarrow> (http_response, http_request \<times> string option) res" where
  "sanitize_http_rpc_request env q = (case hq_body q of
     None \<Rightarrow> Err (text_response 413 ''Payload Too Large'')
   | Some body \<Rightarrow>
       if HTTP_BODY_LIMIT_BYTES < length body then Err (text_response 413 ''Payload Too Large'')
       else (case he_parse env body of
          None \<Rightarrow> Ok (q, None)
        | Some v \<Rightarrow>
            (let rpc = Option.bind (jget ''method'' v) as_str; (changed, v') = strip_reserved_v8_meta v
             in Ok (q\<lparr>hq_body := Some (if changed then he_print env v' else body)\<rparr>, rpc))))"

section \<open>One request\<close>

text \<open>What the front does with a request before the library answers it.\<close>

datatype http_phase =
    Hp_Reply http_response
  | Hp_Forward http_request http_method "string option"
  | Hp_Initialize http_request

definition http_begin ::
  "http_env \<Rightarrow> HttpMcpService \<Rightarrow> (string \<Rightarrow> bool) \<Rightarrow> http_request \<Rightarrow> HttpSessionAdmission \<Rightarrow> http_phase \<times> HttpSessionAdmission" where
  "http_begin env svc live q a =
     (let sid = session_id_from_headers env (hq_headers q);
          candidate = hm_stateful_sessions svc \<and> hq_method q = POST \<and> sid = None;
          continue = (\<lambda>q' rpc.
            if \<not> candidate then (Hp_Forward q' (hq_method q) sid, a)
            else if \<not> valid_streamable_post_headers env (hq_headers q') then (Hp_Forward q' POST None, a)
            else if rpc \<noteq> Some ''initialize'' then (Hp_Reply missing_initialize_response, a)
            else (case reserve_initialize live a of
                    (True, a1) \<Rightarrow> (Hp_Initialize q', a1)
                  | (False, a1) \<Rightarrow> (Hp_Reply overload_response, a1)))
      in case Option.bind (hm_auth_token svc) (check_bearer_auth env q) of
           Some reject \<Rightarrow> (Hp_Reply reject, a)
         | None \<Rightarrow>
             if hq_method q = POST
             then (case sanitize_http_rpc_request env q of
                     Inl response \<Rightarrow> (Hp_Reply response, a)
                   | Inr (q', rpc) \<Rightarrow> continue q' rpc)
             else continue q None)"

text \<open>What it does with the library's answer.\<close>

fun http_finish :: "http_env \<Rightarrow> http_phase \<Rightarrow> http_response \<Rightarrow> HttpSessionAdmission \<Rightarrow> HttpSessionAdmission" where
  "http_finish env (Hp_Reply r) response a = a"
| "http_finish env (Hp_Forward q meth sid) response a =
     (if meth = DELETE \<and> hs_status response = 202
      then (case sid of Some s \<Rightarrow> ad_remove s a | None \<Rightarrow> a) else a)"
| "http_finish env (Hp_Initialize q) response a =
     (if hs_status response = 200
      then (case session_id_from_headers env (hs_headers response) of Some s \<Rightarrow> ad_confirm s a | None \<Rightarrow> ad_release a)
      else ad_release a)"

text \<open>A caller that goes away drops the request, and with it the reservation.\<close>

fun http_drop :: "http_phase \<Rightarrow> HttpSessionAdmission \<Rightarrow> HttpSessionAdmission" where
  "http_drop (Hp_Initialize q) a = ad_release a"
| "http_drop p a = a"


section \<open>All requests together\<close>

text \<open>The requests the library has not answered yet, each under a number.\<close>

record http_sys =
  sy_admission :: HttpSessionAdmission
  sy_flight :: "(nat, http_phase) hash_map"

datatype http_event =
    He_Begin nat "string \<Rightarrow> bool" http_request
  | He_Finish nat http_response
  | He_Drop nat

fun http_step :: "http_env \<Rightarrow> HttpMcpService \<Rightarrow> http_sys \<Rightarrow> http_event \<Rightarrow> http_sys" where
  "http_step env svc s (He_Begin i live q) =
     (if map_of (sy_flight s) i \<noteq> None then s
      else (case http_begin env svc live q (sy_admission s) of
              (Hp_Reply r, a) \<Rightarrow> s\<lparr>sy_admission := a\<rparr>
            | (p, a) \<Rightarrow> s\<lparr>sy_admission := a, sy_flight := hm_put i p (sy_flight s)\<rparr>))"
| "http_step env svc s (He_Finish i response) = (case map_of (sy_flight s) i of
     None \<Rightarrow> s
   | Some p \<Rightarrow> s\<lparr>sy_admission := http_finish env p response (sy_admission s), sy_flight := hm_del i (sy_flight s)\<rparr>)"
| "http_step env svc s (He_Drop i) = (case map_of (sy_flight s) i of
     None \<Rightarrow> s
   | Some p \<Rightarrow> s\<lparr>sy_admission := http_drop p (sy_admission s), sy_flight := hm_del i (sy_flight s)\<rparr>)"

definition http_start :: "nat \<Rightarrow> http_sys" where
  "http_start max_sessions = \<lparr>sy_admission = admission_new max_sessions, sy_flight = []\<rparr>"

definition is_initialize :: "http_phase \<Rightarrow> bool" where
  "is_initialize p = (case p of Hp_Initialize _ \<Rightarrow> True | _ \<Rightarrow> False)"

text \<open>The reservations are exactly the initializations in flight.\<close>

definition initializing :: "(nat, http_phase) hash_map \<Rightarrow> nat" where
  "initializing fl = length (filter (is_initialize \<circ> snd) fl)"

definition http_inv :: "nat \<Rightarrow> http_sys \<Rightarrow> bool" where
  "http_inv n s \<longleftrightarrow> hm_ok (sy_flight s) \<and> ad_max_sessions (sy_admission s) = n \<and> distinct (ad_active_sessions (sy_admission s)) \<and>
     ad_reserved (sy_admission s) = initializing (sy_flight s) \<and>
     length (ad_active_sessions (sy_admission s)) + ad_reserved (sy_admission s) \<le> n"

lemma initializing_put:
  "map_of fl i = None \<Longrightarrow> initializing (hm_put i p fl) = initializing fl + (if is_initialize p then 1 else 0)"
  unfolding initializing_def by (induction fl) (auto split: if_splits)

lemma initializing_del:
  "hm_ok fl \<Longrightarrow> map_of fl i = Some p \<Longrightarrow> initializing fl = initializing (hm_del i fl) + (if is_initialize p then 1 else 0)"
  unfolding initializing_def hm_del_def hm_ok_def
proof (induction fl)
  case (Cons e fl)
  show ?case
  proof (cases "fst e = i")
    case True
    then have "filter (\<lambda>e. fst e \<noteq> i) fl = fl" using Cons.prems by (auto simp: filter_id_conv image_iff)
    with True Cons.prems show ?thesis by simp
  next
    case False
    with Cons show ?thesis by simp
  qed
qed simp

lemma begin_outcome:
  assumes "http_begin env svc live q a = (p, a')"
  shows "if is_initialize p then reserve_initialize live a = (True, a')
    else a' = a \<or> reserve_initialize live a = (False, a')"
  using assms
  by (auto simp: http_begin_def Let_def is_initialize_def split: option.splits sum.splits if_splits prod.splits bool.splits)

lemma reserve_bounds:
  assumes "reserve_initialize live a = (ok, a')" "distinct (ad_active_sessions a)"
    "length (ad_active_sessions a) + ad_reserved a \<le> ad_max_sessions a"
  shows "distinct (ad_active_sessions a') \<and> ad_max_sessions a' = ad_max_sessions a \<and>
    ad_reserved a' = ad_reserved a + (if ok then 1 else 0) \<and>
    length (ad_active_sessions a') + ad_reserved a' \<le> ad_max_sessions a'"
proof -
  define kept where "kept = filter live (ad_active_sessions a)"
  have "distinct kept" "length kept \<le> length (ad_active_sessions a)" using assms(2) by (simp_all add: kept_def)
  then show ?thesis
    using assms by (auto simp: reserve_initialize_def Let_def kept_def [symmetric] split: if_splits)
qed

lemma http_inv_step: "http_inv n s \<Longrightarrow> http_inv n (http_step env svc s e)"
proof (cases e)
  case (He_Begin i live q)
  assume inv: "http_inv n s"
  show ?thesis
  proof (cases "map_of (sy_flight s) i = None")
    case True
    obtain p a where b: "http_begin env svc live q (sy_admission s) = (p, a)" by (metis surj_pair)
    have "distinct (ad_active_sessions a) \<and> ad_max_sessions a = n \<and>
        ad_reserved a = ad_reserved (sy_admission s) + (if is_initialize p then 1 else 0) \<and>
        length (ad_active_sessions a) + ad_reserved a \<le> n"
      using begin_outcome [OF b] inv reserve_bounds [of live "sy_admission s" "is_initialize p" a]
      by (auto simp: http_inv_def split: if_splits)
    then show ?thesis
      using He_Begin True b inv initializing_put [OF True]
      by (cases p) (auto simp: http_inv_def hm_put_ok is_initialize_def)
  qed (use He_Begin inv in auto)
next
  case (He_Finish i response)
  assume inv: "http_inv n s"
  show ?thesis
  proof (cases "map_of (sy_flight s) i")
    case (Some p)
    note d = initializing_del [of "sy_flight s" i p]
    have put: "length (List.insert x xs) + k \<le> m" if "Suc (length xs + k) \<le> m" for x :: string and xs k m
      using that by (simp add: List.insert_def)
    have del: "length (removeAll x xs) + k \<le> m" if "length xs + k \<le> m" for x :: string and xs k m
      using that by (rule order_trans [rotated]) (simp add: length_removeAll_less_eq)
    show ?thesis
      using He_Finish Some inv d distinct_removeAll put del
      by (cases p) (auto simp: http_inv_def hm_del_ok is_initialize_def ad_confirm_def ad_release_def ad_remove_def
          split: option.split)
  qed (use He_Finish inv in simp)
next
  case (He_Drop i)
  assume inv: "http_inv n s"
  then show ?thesis
    using He_Drop initializing_del [of "sy_flight s" i]
    by (cases "map_of (sy_flight s) i"; cases "the (map_of (sy_flight s) i)")
       (auto simp: http_inv_def hm_del_ok is_initialize_def ad_release_def)
qed

interpretation hs: event_machine "http_step env svc" "http_inv n" for env svc n
  by unfold_locales (rule http_inv_step)

text \<open>
  C26: The number of agent sessions is bounded and no slot is lost. Whatever
  requests begin, are answered or are dropped, in whatever order, the sessions counted as active
  and the reservations together never exceed the configured limit (at least one), and the
  reservations are exactly the initializations the library has not answered yet: a
  failed, refused or abandoned initialization gives its slot back.
\<close>

theorem http_sessions_are_bounded:
  "let s = foldl (http_step env svc) (http_start max_sessions) es in
     length (ad_active_sessions (sy_admission s)) + ad_reserved (sy_admission s) \<le> max max_sessions 1 \<and>
     distinct (ad_active_sessions (sy_admission s)) \<and> ad_reserved (sy_admission s) = initializing (sy_flight s)"
proof -
  have "http_inv (max max_sessions 1) (http_start max_sessions)"
    by (simp add: http_inv_def http_start_def admission_new_def initializing_def)
  then have "http_inv (max max_sessions 1) (foldl (http_step env svc) (http_start max_sessions) es)"
    by (rule hs.run_keeps)
  then show ?thesis by (simp add: http_inv_def Let_def)
qed

section \<open>Authorization\<close>

lemma check_bearer_auth_iff:
  "check_bearer_auth env q token = None \<longleftrightarrow> header env ''authorization'' (hq_headers q) = Some (''Bearer '' @ token)"
proof -
  have "starts_with pre h \<and> drop (length pre) h = token \<longleftrightarrow> h = pre @ token" for h pre
    unfolding starts_with_def by (metis append_eq_conv_conj)
  moreover have "length ''Bearer '' = 7" by simp
  ultimately have "starts_with ''Bearer '' h \<and> drop 7 h = token \<longleftrightarrow> h = ''Bearer '' @ token" for h by metis
  then show ?thesis
    by (auto simp: check_bearer_auth_def split: option.splits)
qed

text \<open>
  With a token configured, a request passes the front if and only if it
  carries exactly this token; any other is answered with 401, changes nothing, and is neither
  inspected further nor forwarded.
\<close>

theorem only_the_token_passes:
  assumes "hm_auth_token svc = Some token" "http_begin env svc live q a = (p, a')"
  shows "if header env ''authorization'' (hq_headers q) = Some (''Bearer '' @ token)
    then http_begin env (svc\<lparr>hm_auth_token := None\<rparr>) live q a = (p, a')
    else a' = a \<and> (\<exists>r. p = Hp_Reply r \<and> hs_status r = 401)"
proof (cases "check_bearer_auth env q token")
  case None
  with assms check_bearer_auth_iff [of env q token] show ?thesis by (simp add: http_begin_def Let_def)
next
  case (Some r)
  then have "hs_status r = 401" by (auto simp: check_bearer_auth_def split: option.splits if_splits)
  with Some assms check_bearer_auth_iff [of env q token] show ?thesis by (auto simp: http_begin_def Let_def)
qed

definition sample_http_env :: http_env where
  "sample_http_env = \<lparr>he_to_str = Some, he_parse = (\<lambda>_. None), he_print = (\<lambda>_. [])\<rparr>"

definition sample_http_request :: http_request where
  "sample_http_request = \<lparr>hq_method = GET, hq_headers = [(''authorization'', ''Bearer guess'')], hq_body = None\<rparr>"

theorem only_the_token_passes_witness:
  "\<exists>r. fst (http_begin sample_http_env \<lparr>hm_stateful_sessions = True, hm_auth_token = Some ''secret''\<rparr> (\<lambda>_. True)
     sample_http_request (admission_new 4)) = Hp_Reply r \<and> hs_status r = 401"
proof -
  have h: "header sample_http_env ''authorization'' (hq_headers sample_http_request) = Some ''Bearer guess''"
    by (simp add: header_def sample_http_env_def sample_http_request_def)
  from only_the_token_passes [of "\<lparr>hm_stateful_sessions = True, hm_auth_token = Some ''secret''\<rparr>" "''secret''"
      sample_http_env "\<lambda>_. True" sample_http_request "admission_new 4", OF _ prod.collapse [symmetric]]
  show ?thesis by (simp add: h)
qed

section \<open>Reserved metadata does not pass\<close>

text \<open>No request in the value carries a key of the manager's own name space.\<close>

definition request_clean :: "jobject \<Rightarrow> bool" where
  "request_clean q \<longleftrightarrow> (case Option.bind (map_of q ''params'') as_object of
     None \<Rightarrow> True
   | Some params \<Rightarrow> (case Option.bind (map_of params ''_meta'') as_object of
       None \<Rightarrow> True
     | Some meta \<Rightarrow> \<forall>e \<in> set meta. \<not> starts_with ''v8.'' (fst e)))"

fun meta_clean :: "json \<Rightarrow> bool" where
  "meta_clean (JArray qs) \<longleftrightarrow> (\<forall>q \<in> set qs. meta_clean q)"
| "meta_clean (JObject q) \<longleftrightarrow> request_clean q"
| "meta_clean v \<longleftrightarrow> True"

lemma strip_meta_changed: "fst (strip_meta meta) \<longleftrightarrow> (\<exists>e \<in> set meta. starts_with ''v8.'' (fst e))"
proof -
  have "length (filter p xs) = length xs \<longleftrightarrow> (\<forall>x \<in> set xs. p x)" for p and xs :: "(string \<times> json) list"
    by (metis filter_True length_filter_less less_irrefl)
  then show ?thesis by (simp add: strip_meta_def Let_def)
qed

lemma strip_request_clean: "request_clean (snd (strip_request q))" "fst (strip_request q) \<longleftrightarrow> \<not> request_clean q"
proof -
  show "fst (strip_request q) \<longleftrightarrow> \<not> request_clean q"
    by (auto simp: strip_request_def request_clean_def strip_meta_changed split_beta split: option.split)
  show "request_clean (snd (strip_request q))"
    by (auto simp: strip_request_def request_clean_def split_beta bm_put_get strip_meta_def Let_def split: option.split)
qed

lemma strip_clean: "meta_clean (snd (strip_reserved_v8_meta v))" "fst (strip_reserved_v8_meta v) \<longleftrightarrow> \<not> meta_clean v"
proof (induction v rule: strip_reserved_v8_meta.induct)
  case (2 q)
  { case 1 show ?case by (simp add: split_beta strip_request_clean) }
  { case 2 show ?case by (simp add: split_beta strip_request_clean) }
qed (auto simp: list_ex_iff Let_def)



end
