(* ===== verification/Bootstrap.thy ===== *)
theory Bootstrap
  imports Config Internal_Endpoint Mcp_Server Http_Server
begin

text \<open>
  From a validated configuration to a running manager: \<open>serve_session_manager\<close>
  and \<open>HttpMcpService::new\<close> of \<open>src/mcp/server.rs\<close>,
  \<open>MaskingGate::from_config\<close> of \<open>src/session_manager/masking/gate.rs\<close> and
  \<open>RasResolver::from_env\<close> of \<open>src/session_manager/masking/ras.rs\<close>. Files,
  environment variables and sockets are inputs.
\<close>

section \<open>Parts\<close>

definition build_tools_cache_config :: "AppConfig \<Rightarrow> ToolsCacheConfig \<times> string" where
  "build_tools_cache_config cfg =
     (\<lparr>tcc_enabled = ts_enabled (ac_tools_cache cfg), tcc_cache_life = ts_cache_life_period (ac_tools_cache cfg)\<rparr>,
      (case ts_storage_path (ac_tools_cache cfg) of
         Some p \<Rightarrow> if Path_is_absolute p then p else Path_join (ac_work_path cfg) p
       | None \<Rightarrow> Path_join (ac_work_path cfg) ''tools_cache.json''))"

definition ENV_RAS_ADDRESS :: string where "ENV_RAS_ADDRESS = ''V8SM_RAS_ADDRESS''"

text \<open>A blank address counts as absent. The cache of resolved databases starts empty.\<close>

definition ras_from_env :: "(string \<Rightarrow> string option) \<Rightarrow> RasResolver" where
  "ras_from_env var =
     \<lparr>ras_address = (case var ENV_RAS_ADDRESS of Some v \<Rightarrow> if str_trim v = [] then None else Some v | None \<Rightarrow> None),
      ras_cache = []\<rparr>"

definition TERMINAL_OUTBOX_FILE :: string where "TERMINAL_OUTBOX_FILE = ''masking_terminal_outbox.json''"

text \<open>
  What the start finds outside: the files and whether they can be read, the position at which a write of the outbox would fail,
  the formats, the environment, and whether the runtime and the two sockets come up.
\<close>

record boot_env =
  be_files :: "string \<Rightarrow> file_state"
  be_readable :: "string \<Rightarrow> bool"
  be_fault :: "nat option"
  be_serde :: serde
  be_uuid :: "string \<Rightarrow> bool"
  be_var :: "string \<Rightarrow> string option"
  be_runtime :: bool
  be_bound :: "string \<Rightarrow> bool"

definition from_config :: "boot_env \<Rightarrow> MaskingConfig \<Rightarrow> string \<Rightarrow> (string, MaskingGate) res" where
  "from_config env m work_path =
     (if \<not> mk_enabled m
      then Ok \<lparr>mg_enabled = False, mg_internal_tools = remdups (mk_internal_tools m), mg_ras = None, mg_outbox = None\<rparr>
      else (let p = Path_join work_path TERMINAL_OUTBOX_FILE in
        case outbox_load (be_serde env) (be_uuid env) (be_readable env p) (be_fault env) (be_files env p) of
          Inl e \<Rightarrow> Err e
        | Inr ob \<Rightarrow> Ok \<lparr>mg_enabled = True, mg_internal_tools = remdups (mk_internal_tools m),
                       mg_ras = Some (ras_from_env (be_var env)), mg_outbox = Some ob\<rparr>))"

definition transport_config :: "McpSessionManagerConfig \<Rightarrow> TransportConfig" where
  "transport_config sm =
     \<lparr>tf_heartbeat_interval_ms = sm_heartbeat_interval_ms sm, tf_idle_timeout_secs = sm_idle_timeout_secs sm,
      tf_ws_ping_interval_ms = sm_ws_ping_interval_ms sm, tf_ws_ping_timeout_ms = sm_ws_ping_timeout_ms sm,
      tf_reconnection_grace_secs = sm_reconnection_grace_secs sm\<rparr>"

text \<open>\<open>HttpMcpService::new\<close>: the front, its admission, and the time after which an idle session of the library ends.\<close>

definition http_new :: "McpHttpConfig \<Rightarrow> HttpMcpService \<times> HttpSessionAdmission \<times> duration option" where
  "http_new h =
     (\<lparr>hm_stateful_sessions = ht_stateful_sessions h, hm_auth_token = ht_auth_token h\<rparr>,
      admission_new (unat (ht_max_sessions h)),
      (if ht_stateful_sessions h then Some (max (unat (ht_idle_ttl_secs h)) 1 * 1000) else None))"

definition shutdown_grace_period :: "AppConfig \<Rightarrow> duration" where
  "shutdown_grace_period cfg = max (unat (ex_shutdown_grace_period_secs (mc_execution (ac_mcp cfg)))) 1 * 1000"

text \<open>The address on which metrics are to be served, if any.\<close>

definition maybe_install_metrics :: "AppConfig \<Rightarrow> string option" where
  "maybe_install_metrics cfg = (case mx_bind_address (mc_metrics (ac_mcp cfg)) of
     Some a \<Rightarrow> if a = [] then None else Some a | None \<Rightarrow> None)"

section \<open>The manager\<close>

datatype McpServerError = BuildRuntime | BindHttp string | Task string | MaskingConfig_invalid string

record RunningManager =
  rn_state :: AppState
  rn_transport :: TransportConfig
  rn_endpoint :: "nat option \<Rightarrow> InternalEndpointContext option"
  rn_http :: HttpMcpService
  rn_admission :: HttpSessionAdmission
  rn_idle_timeout :: duration
  rn_kill_grace :: duration
  rn_shutdown_timeout :: duration

text \<open>
  \<open>serve_session_manager\<close> up to the point where both surfaces listen.
  \<open>rn_endpoint\<close> gives, for the user id of a peer, what the endpoint of the masking
  service knows of it.
\<close>

definition serve_session_manager :: "boot_env \<Rightarrow> AppConfig \<Rightarrow> (McpServerError, RunningManager) res" where
  "serve_session_manager env cfg =
     (let sm = session_settings cfg;
          (cache_config, cache_path) = build_tools_cache_config cfg;
          cache = load_or_empty (be_serde env) (be_readable env cache_path) cache_config (be_files env cache_path);
          m = ac_masking cfg; http = mc_http (ac_mcp cfg)
      in if \<not> be_runtime env then Err BuildRuntime
         else (case from_config env m (ac_work_path cfg) of
           Inl e \<Rightarrow> Err (MaskingConfig_invalid e)
         | Inr gate \<Rightarrow>
             if \<not> be_bound env (ht_bind_address http) then Err (BindHttp (ht_bind_address http))
             else if \<not> be_bound env (sm_bind_address sm) then Err (BindHttp (sm_bind_address sm))
             else (let (front, admission, _) = http_new http in
               Ok \<lparr>rn_state = manager_start (Some cache) (Some gate),
                   rn_transport = transport_config sm,
                   rn_endpoint = endpoint_context gate (map_option unat (mk_service_expected_uid m))
                     (unat (mk_internal_call_timeout_ms m)),
                   rn_http = front, rn_admission = admission,
                   rn_idle_timeout = unat (sm_idle_timeout_secs sm) * 1000,
                   rn_kill_grace = unat (sm_graceful_kill_grace_ms sm),
                   rn_shutdown_timeout = shutdown_grace_period cfg\<rparr>)))"

section \<open>Masking that is switched on is complete\<close>

lemma from_config_enabled:
  assumes "from_config env m wp = Ok g" "mk_enabled m"
  shows "mg_enabled g" "set (mg_internal_tools g) = set (mk_internal_tools m)" "mg_ras g = Some (ras_from_env (be_var env))"
    "\<exists>ob. mg_outbox g = Some ob"
  using assms by (auto simp: from_config_def Let_def split: sum.splits)

lemma serve_ok:
  assumes "serve_session_manager env cfg = Ok rn"
  obtains g cache where "from_config env (ac_masking cfg) (ac_work_path cfg) = Ok g"
    "rn_state rn = manager_start (Some cache) (Some g)"
    "rn_endpoint rn = endpoint_context g (map_option unat (mk_service_expected_uid (ac_masking cfg)))
       (unat (mk_internal_call_timeout_ms (ac_masking cfg)))"
    "be_bound env (ht_bind_address (mc_http (ac_mcp cfg)))" "be_bound env (sm_bind_address (session_settings cfg))"
  using assms unfolding serve_session_manager_def Let_def split_beta
  by (auto split: if_splits sum.splits)

lemma reserved_after_start:
  assumes "length es < 2 ^ 64" "name \<in> set (mg_internal_tools g)"
  shows "\<not> publishes (as_registry (manager_run (manager_start cache (Some g)) es)) sid name"
proof -
  let ?s = "manager_run (manager_start cache (Some g)) es"
  have "reg_inv (as_registry ?s)"
    using manager_run_inv [of "manager_start cache (Some g)" es] manager_start_inv assms(1) by simp
  moreover have "name \<in> set (gate_names ?s)"
    using assms(2) by (simp add: gate_names_run) (simp add: gate_names_def manager_start_def)
  ultimately show ?thesis by (rule gated_not_published [OF _ gated_run [OF manager_start_inv(2)]])
qed


definition sample_boot :: boot_env where
  "sample_boot = \<lparr>be_files = (\<lambda>_. \<lparr>target = None, temp = None\<rparr>), be_readable = (\<lambda>_. True), be_fault = None,
     be_serde = time_serde, be_uuid = (\<lambda>_. True), be_var = (\<lambda>_. None), be_runtime = True, be_bound = (\<lambda>_. True)\<rparr>"

definition sample_masked_config :: AppConfig where
  "sample_masked_config = sample_app_config\<lparr>ac_masking := MaskingConfig_default
     \<lparr>mk_enabled := True, mk_service_expected_uid := Some 994\<rparr>\<rparr>"

lemma sample_masked_valid: "validate (\<lambda>_. True) sample_masked_config = Ok ()"
  by (simp add: sample_masked_config_def validate_defs sample_startup_defs Path_is_absolute_def starts_with_def)

definition sample_running :: RunningManager where
  "sample_running = (case serve_session_manager sample_boot sample_masked_config of Inr rn \<Rightarrow> rn)"

lemma sample_running: "serve_session_manager sample_boot sample_masked_config = Ok sample_running"
  by (simp add: sample_running_def serve_session_manager_def from_config_def sample_masked_config_def sample_boot_def
      sample_startup_defs outbox_load_def http_new_def Let_def split_beta)


text \<open>
  With masking enabled, a damaged outbox stops the start. If the outbox
  file exists but cannot be read, or is not a valid outbox, the manager refuses to
  run; it never starts with the unsent events of an earlier run forgotten.
\<close>

theorem damaged_outbox_stops_start:
  assumes "mk_enabled (ac_masking cfg)"
    and "p = Path_join (ac_work_path cfg) TERMINAL_OUTBOX_FILE"
    and "target (be_files env p) = Some t"
    and "\<not> be_readable env p \<or> sd_parse (be_serde env) t = None"
  shows "\<exists>e. serve_session_manager env cfg = Err e"
proof -
  have "\<exists>e. outbox_load (be_serde env) (be_uuid env) (be_readable env p) (be_fault env) (be_files env p) = Err e"
    using assms(3,4) by (auto simp: outbox_load_def)
  then obtain e where "from_config env (ac_masking cfg) (ac_work_path cfg) = Err e"
    using assms(1,2) by (auto simp: from_config_def)
  then show ?thesis by (auto simp: serve_session_manager_def split_beta Let_def)
qed

theorem damaged_outbox_stops_start_witness:
  "\<exists>e. serve_session_manager (sample_boot\<lparr>be_files := (\<lambda>_. \<lparr>target = Some ''x'', temp = None\<rparr>), be_readable := (\<lambda>_. False)\<rparr>)
     sample_masked_config = Err e"
  by (rule damaged_outbox_stops_start [OF _ refl, where t = "''x''"])
    (simp_all add: sample_masked_config_def)

section \<open>Keep-alive settings\<close>

text \<open>
  The two keep-alive settings are not validated against each other. A valid
  configuration stays valid with any timeout; with one that is shorter than the interval
  between pings, a connection whose client answered the last ping at once is closed at the
  next tick, while a timeout of at least the interval keeps it.
\<close>

theorem short_ping_timeout_closes_healthy_connections:
  assumes "validate addr cfg = Ok ()" "mc_session_manager (ac_mcp cfg) = Some sm"
    and "t \<noteq> 0" "t < sm_ws_ping_interval_ms sm"
  shows "let sm' = sm\<lparr>sm_ws_ping_timeout_ms := t\<rparr>; tick = seen + unat (sm_ws_ping_interval_ms sm) in
    validate addr (cfg\<lparr>ac_mcp := (ac_mcp cfg)\<lparr>mc_session_manager := Some sm'\<rparr>\<rparr>) = Ok () \<and>
    writer_tick (transport_config sm') seen tick = Wr_Close \<and>
    writer_tick (transport_config (sm\<lparr>sm_ws_ping_timeout_ms := sm_ws_ping_interval_ms sm\<rparr>)) seen tick = Wr_Ping"
proof -
  have "unat t < unat (sm_ws_ping_interval_ms sm)" using assms(4) by (simp add: word_less_nat_alt)
  moreover have "validate addr (cfg\<lparr>ac_mcp := (ac_mcp cfg)\<lparr>mc_session_manager := Some (sm\<lparr>sm_ws_ping_timeout_ms := t\<rparr>)\<rparr>\<rparr>) = validate addr cfg"
    unfolding validate_def session_manager_error_def Let_def by (simp add: assms(2) cong: option.case_cong if_cong)
  ultimately show ?thesis using assms(1,3) by (simp add: Let_def writer_tick_def transport_config_def)
qed

theorem short_ping_timeout_closes_healthy_connections_witness:
  "writer_tick (transport_config (McpSessionManagerConfig_default\<lparr>sm_ws_ping_timeout_ms := 5000\<rparr>)) 100 20100 = Wr_Close"
proof -
  let ?c = "sample_masked_config\<lparr>ac_mcp := McpConfig_default\<lparr>mc_session_manager := Some McpSessionManagerConfig_default\<rparr>\<rparr>"
  have "validate (\<lambda>_. True) ?c = Ok ()"
    by (simp add: sample_masked_config_def validate_defs sample_startup_defs Path_is_absolute_def starts_with_def)
  from short_ping_timeout_closes_healthy_connections [OF this, of McpSessionManagerConfig_default 5000 100] show ?thesis
    by (simp add: Let_def McpSessionManagerConfig_default_def default_settings)
qed

end
