(* ===== verification/Shutdown.thy ===== *)
theory Shutdown
  imports Bootstrap
begin

text \<open>
  The end of the process (\<open>serve_session_manager\<close> of \<open>src/mcp/server.rs\<close> after the servers have
  come up, with \<open>RunningTransport::shutdown\<close> of \<open>src/session_manager/transport.rs\<close>), and the idle sweeper's
  loop (\<open>run_idle_sweeper\<close> and \<open>sweep_once\<close> of \<open>src/session_manager/lifecycle.rs\<close>) for which it waits. The
  signal, the clock and the clients' answers are inputs.
\<close>

section \<open>The idle sweeper's loop\<close>

text \<open>
  The sweeper sleeps for a tick, or shuts down the candidates it has found, one after the
  other, each until its deadline. It looks at its token only between two sweeps.
\<close>

datatype sweeper_phase = Sw_Sleeping | Sw_Sweeping "string list" instant | Sw_Ended

text \<open>
  One step at time \<open>now\<close>: \<open>answered\<close> says that the client of the session that is being
  shut down has answered. \<open>found\<close> are the candidates if the tick is over and the \<open>select\<close> takes that
  branch, which it may do although the token is cancelled by then; after a sweep the token is looked at before a
  new tick can be over.
\<close>

definition sweeper_turn :: "duration \<Rightarrow> bool \<Rightarrow> instant \<Rightarrow> bool \<Rightarrow> string list option \<Rightarrow> sweeper_phase \<Rightarrow> sweeper_phase" where
  "sweeper_turn grace cancelled now answered found ph = (case ph of
     Sw_Ended \<Rightarrow> Sw_Ended
   | Sw_Sleeping \<Rightarrow>
       (case found of
          Some (sid # sids) \<Rightarrow> Sw_Sweeping (sid # sids) (now + grace)
        | _ \<Rightarrow> if cancelled then Sw_Ended else Sw_Sleeping)
   | Sw_Sweeping [] _ \<Rightarrow> if cancelled then Sw_Ended else Sw_Sleeping
   | Sw_Sweeping (sid # sids) deadline \<Rightarrow>
       if answered \<or> deadline \<le> now
       then (if sids \<noteq> [] then Sw_Sweeping sids (now + grace) else if cancelled then Sw_Ended else Sw_Sleeping)
       else Sw_Sweeping (sid # sids) deadline)"

section \<open>The tasks of the manager\<close>

datatype task_state = Tk_Running | Tk_Aborted | Tk_Finished

definition task_abort :: "task_state \<Rightarrow> task_state" where
  "task_abort t = (if t = Tk_Finished then t else Tk_Aborted)"

record RunningTransport =
  rt_server :: task_state
  rt_sweeper :: task_state

definition transport_shutdown :: "RunningTransport \<Rightarrow> RunningTransport" where
  "transport_shutdown t = \<lparr>rt_server = task_abort (rt_server t), rt_sweeper = task_abort (rt_sweeper t)\<rparr>"

text \<open>
  \<open>mt_internal\<close> is absent when masking is off. The two tokens are the one of the servers
  and the one of the lifecycle manager, which the idle sweeper watches.
\<close>

record manager_tasks =
  mt_transport :: RunningTransport
  mt_notifier :: task_state
  mt_internal :: "task_state option"
  mt_replay :: task_state
  mt_idle_sweeper :: sweeper_phase
  mt_shutdown :: bool
  mt_lifecycle_cancel :: bool

text \<open>After the start: an idle timeout of zero ends the idle sweeper at once.\<close>

definition tasks_started :: "RunningManager \<Rightarrow> manager_tasks" where
  "tasks_started m =
     \<lparr>mt_transport = \<lparr>rt_server = Tk_Running, rt_sweeper = Tk_Running\<rparr>, mt_notifier = Tk_Running,
      mt_internal = (if rn_endpoint m None = None then None else Some Tk_Running), mt_replay = Tk_Running,
      mt_idle_sweeper = (if rn_idle_timeout m = 0 then Sw_Ended else Sw_Sleeping),
      mt_shutdown = False, mt_lifecycle_cancel = False\<rparr>"

text \<open>What ended the wait for the servers: the HTTP server, with its result, or the signal.\<close>

datatype serve_event = Http_Ended "(string, unit) res" | Signalled

definition serve_result :: "serve_event \<Rightarrow> (McpServerError, unit) res" where
  "serve_result ev = (case ev of Http_Ended (Inl e) \<Rightarrow> Err (Task e) | _ \<Rightarrow> Ok ())"

text \<open>From there to the wait for the idle sweeper.\<close>

definition serve_stop :: "serve_event \<Rightarrow> manager_tasks \<Rightarrow> manager_tasks" where
  "serve_stop ev t =
     (let t0 = (if ev = Signalled then t\<lparr>mt_shutdown := True\<rparr> else t);
          t1 = t0\<lparr>mt_transport := transport_shutdown (mt_transport t0)\<rparr>;
          t2 = t1\<lparr>mt_notifier := task_abort (mt_notifier t1)\<rparr>;
          t3 = t2\<lparr>mt_internal := map_option task_abort (mt_internal t2)\<rparr>;
          t4 = t3\<lparr>mt_replay := task_abort (mt_replay t3)\<rparr>
      in t4\<lparr>mt_lifecycle_cancel := True\<rparr>)"

text \<open>The wait: turns of the idle sweeper, each with its time and whether the client has answered, until it has ended.\<close>

fun await_sweeper :: "duration \<Rightarrow> (instant \<times> bool \<times> string list option) list \<Rightarrow> manager_tasks \<Rightarrow> manager_tasks option" where
  "await_sweeper grace turns t =
     (if mt_idle_sweeper t = Sw_Ended then Some t
      else (case turns of
         [] \<Rightarrow> None
       | (now, answered, found) # turns' \<Rightarrow>
           await_sweeper grace turns' (t\<lparr>mt_idle_sweeper :=
             sweeper_turn grace (mt_lifecycle_cancel t) now answered found (mt_idle_sweeper t)\<rparr>)))"

text \<open>\<open>None\<close>: the process still waits after these turns.\<close>

definition serve_end ::
  "duration \<Rightarrow> serve_event \<Rightarrow> (instant \<times> bool \<times> string list option) list \<Rightarrow> manager_tasks \<Rightarrow>
     ((McpServerError, unit) res \<times> manager_tasks) option" where
  "serve_end grace ev turns t =
     map_option (\<lambda>t. (serve_result ev, t\<lparr>mt_shutdown := True\<rparr>)) (await_sweeper grace turns (serve_stop ev t))"

section \<open>The process ends\<close>

text \<open>How many turns the sweeper may need, if a sweep never finds more than \<open>n\<close> candidates.\<close>

fun sweeps_left :: "nat \<Rightarrow> sweeper_phase \<Rightarrow> nat" where
  "sweeps_left n (Sw_Sweeping sids _) = length sids"
| "sweeps_left n Sw_Sleeping = Suc n"
| "sweeps_left n Sw_Ended = 0"

definition deadline_within :: "duration \<Rightarrow> instant \<Rightarrow> sweeper_phase \<Rightarrow> bool" where
  "deadline_within grace now ph \<longleftrightarrow> (case ph of Sw_Sweeping sids d \<Rightarrow> sids \<noteq> [] \<and> d \<le> now + grace | _ \<Rightarrow> True)"

text \<open>A turn of the cancelled sweeper a grace time later ends one shutdown, or the sweeper.\<close>

lemma cancelled_turn:
  assumes "deadline_within grace now ph" "ph \<noteq> Sw_Ended" "now + grace \<le> later" "length (unwrap_or [] found) \<le> n"
  shows "deadline_within grace later (sweeper_turn grace True later answered found ph)"
    and "sweeps_left n (sweeper_turn grace True later answered found ph) < sweeps_left n ph"
  using assms by (auto simp: sweeper_turn_def deadline_within_def split: sweeper_phase.splits list.splits option.splits)

text \<open>The turns come at least a grace time apart, the first one not earlier than that after \<open>now\<close>.\<close>

fun apart :: "duration \<Rightarrow> instant \<Rightarrow> (instant \<times> bool \<times> string list option) list \<Rightarrow> bool" where
  "apart grace now [] \<longleftrightarrow> True"
| "apart grace now ((t, _) # turns) \<longleftrightarrow> now + grace \<le> t \<and> apart grace t turns"

lemma await_ends:
  assumes "deadline_within grace now (mt_idle_sweeper t)" "mt_lifecycle_cancel t" "apart grace now turns"
    and "sweeps_left n (mt_idle_sweeper t) \<le> length turns" "\<forall>turn \<in> set turns. length (unwrap_or [] (snd (snd turn))) \<le> n"
  shows "\<exists>t'. await_sweeper grace turns t = Some t' \<and> t' = t\<lparr>mt_idle_sweeper := Sw_Ended\<rparr>"
  using assms
proof (induction turns arbitrary: now t)
  case Nil
  then show ?case by (cases "mt_idle_sweeper t") (auto simp: deadline_within_def)
next
  case (Cons turn turns)
  obtain later answered found where turn: "turn = (later, answered, found)" by (cases turn)
  show ?case
  proof (cases "mt_idle_sweeper t = Sw_Ended")
    case False
    have later: "now + grace \<le> later" "apart grace later turns" using Cons.prems(3) turn by auto
    let ?t = "t\<lparr>mt_idle_sweeper := sweeper_turn grace True later answered found (mt_idle_sweeper t)\<rparr>"
    have "length (unwrap_or [] found) \<le> n" using Cons.prems(5) turn by simp
    note c = cancelled_turn [OF Cons.prems(1) False later(1) this, of answered]
    have "\<exists>t'. await_sweeper grace turns ?t = Some t' \<and> t' = ?t\<lparr>mt_idle_sweeper := Sw_Ended\<rparr>"
      using c Cons.prems(2,4,5) later(2) by (intro Cons.IH [of later]) auto
    with False Cons.prems(2) show ?thesis by (simp add: turn)
  qed simp
qed

text \<open>
  C8: the process ends whatever its clients do. When the HTTP server stops or the signal
  comes, the wait for the idle sweeper is bounded: even if it was just shutting down sessions
  whose clients never answer, it is over after one grace time for each of them; and if it slept, after
  at most one more sweep. Then \<open>serve_session_manager\<close> returns, with an
  error only if the HTTP server failed, and no task of the manager is left running.
\<close>

theorem shutdown_stops_everything:
  assumes "deadline_within grace now (mt_idle_sweeper tasks)" "apart grace now turns"
    and "sweeps_left n (mt_idle_sweeper tasks) \<le> length turns" "\<forall>turn \<in> set turns. length (unwrap_or [] (snd (snd turn))) \<le> n"
  shows "\<exists>res t. serve_end grace ev turns tasks = Some (res, t) \<and>
      (res = Ok () \<or> (\<exists>e. ev = Http_Ended (Inl e) \<and> res = Err (Task e))) \<and>
      rt_server (mt_transport t) \<noteq> Tk_Running \<and> rt_sweeper (mt_transport t) \<noteq> Tk_Running \<and> mt_notifier t \<noteq> Tk_Running \<and>
      mt_internal t \<noteq> Some Tk_Running \<and> mt_replay t \<noteq> Tk_Running \<and> mt_idle_sweeper t = Sw_Ended \<and> mt_shutdown t"
proof -
  let ?t = "serve_stop ev tasks"
  have stop: "mt_idle_sweeper ?t = mt_idle_sweeper tasks" "mt_lifecycle_cancel ?t"
    "rt_server (mt_transport ?t) \<noteq> Tk_Running" "rt_sweeper (mt_transport ?t) \<noteq> Tk_Running" "mt_notifier ?t \<noteq> Tk_Running"
    "mt_internal ?t \<noteq> Some Tk_Running" "mt_replay ?t \<noteq> Tk_Running"
    by (auto simp: serve_stop_def Let_def transport_shutdown_def task_abort_def)
  have "serve_result ev = Ok () \<or> (\<exists>e. ev = Http_Ended (Inl e) \<and> serve_result ev = Err (Task e))"
    by (auto simp: serve_result_def split: serve_event.split sum.split)
  moreover from await_ends [of grace now ?t turns n] assms stop
  have "await_sweeper grace turns ?t = Some (?t\<lparr>mt_idle_sweeper := Sw_Ended\<rparr>)" by simp
  ultimately show ?thesis using stop by (simp add: serve_end_def)
qed

theorem shutdown_stops_everything_witness:
  "\<exists>res t. serve_end 5000 Signalled [(6000, False, None), (11000, True, None)]
     \<lparr>mt_transport = \<lparr>rt_server = Tk_Running, rt_sweeper = Tk_Running\<rparr>, mt_notifier = Tk_Running, mt_internal = None,
      mt_replay = Tk_Running, mt_idle_sweeper = Sw_Sweeping [''s1'', ''s2''] 5500, mt_shutdown = False, mt_lifecycle_cancel = False\<rparr> =
     Some (res, t) \<and> mt_idle_sweeper t = Sw_Ended"
  using shutdown_stops_everything [of 5000 1000 "\<lparr>mt_transport = \<lparr>rt_server = Tk_Running, rt_sweeper = Tk_Running\<rparr>, mt_notifier = Tk_Running, mt_internal = None,
      mt_replay = Tk_Running, mt_idle_sweeper = Sw_Sweeping [''s1'', ''s2''] 5500, mt_shutdown = False, mt_lifecycle_cancel = False\<rparr>"
      "[(6000, False, None), (11000, True, None)]" 0 Signalled]
  by (fastforce simp: deadline_within_def)

text \<open>The manager that has just started is in such a state.\<close>

lemma started_within: "deadline_within grace now (mt_idle_sweeper (tasks_started m))"
  by (simp add: deadline_within_def tasks_started_def)

section \<open>A candidate that has become busy\<close>

text \<open>
  The candidates of a sweep are chosen once, but shut down one after the other, each up to a
  grace time later, and the shutdown of a session does not look at its calls: a session that
  has started a call since it was chosen is shut down nevertheless, with the call.
\<close>

theorem busy_candidate_is_shut_down:
  assumes "map_of (reg_inner r) sid = Some rec" "sr_state rec = Active"
    and "inflight (reg_disps r (sr_dispatcher rec)) \<noteq> 0"
  shows "map_of (reg_inner (shutdown_silent grace sid r)) sid = None \<and>
    drained (reg_disps (shutdown_silent grace sid r) (sr_dispatcher rec))"
proof -
  obtain st r1 where b: "shutdown_begin grace sid r = (st, r1)" by (cases "shutdown_begin grace sid r")
  obtain st' r2 where p: "shutdown_poll True st r1 = (st', r2)" by (cases "shutdown_poll True st r1")
  have 1: "reg_inner r1 = reg_inner r \<and> ((\<exists>c ic. st = Sd_Wait rec c ic) \<or> (\<exists>out. st = Sd_Finish rec out))"
    using b assms(1,2) by (auto simp: shutdown_begin_def reg_get_def Let_def split: prod.splits sum.splits option.splits)
  have 2: "reg_inner r2 = reg_inner r \<and> (\<exists>out. st' = Sd_Finish rec out)"
    using p 1 by (auto simp: shutdown_poll_def call_poll_def Let_def split: prod.splits option.splits sum.splits oneshot.splits)
  then obtain out where "st' = Sd_Finish rec out" by blast
  moreover have "shutdown_silent grace sid r = snd (shutdown_finish sid st' r2)" by (simp add: shutdown_silent_def b p)
  ultimately show ?thesis using 2 assms(1) by (simp add: finish_inner finish_disps disp_drain_def)
qed

end
