(* ===== verification/Notify.thy ===== *)
theory Notify
  imports Prelude
begin

text \<open>
  The notifier of changes of the tool list (\<open>src/session_manager/notify.rs\<close>): the
  registered peers behind weak references, the broadcast, and the background task that
  waits for the registry's signal and sleeps before it broadcasts. Sending to a peer is an
  input; the signal is \<open>tokio::sync::Notify\<close> with its single stored permit.
\<close>

section \<open>Peers\<close>

text \<open>
  An \<open>Arc\<close> is an address with its count of strong references; a \<open>Weak\<close> is the
  bare address, and \<open>upgrade\<close> succeeds while the count is positive. Every call of
  \<open>register_peer\<close> allocates a new \<open>Arc\<close>, pushes a \<open>Weak\<close> of it, and
  drops the \<open>Arc\<close> when it returns; \<open>tn_running\<close> are the allocations of the calls
  that have not returned yet. A call holds the lock up to \<open>register_peer\<close>'s last
  statement and drops the \<open>Arc\<close> after it, so these are two steps.
\<close>

record ToolsListChangedNotifier =
  tn_peers :: "nat list"
  tn_strong :: "nat \<Rightarrow> nat"
  tn_target :: "nat \<Rightarrow> string"
  tn_next :: nat
  tn_running :: "nat list"

definition notifier_new :: ToolsListChangedNotifier where
  "notifier_new = \<lparr>tn_peers = [], tn_strong = (\<lambda>_. 0), tn_target = (\<lambda>_. []), tn_next = 0, tn_running = []\<rparr>"

definition upgrades :: "ToolsListChangedNotifier \<Rightarrow> nat \<Rightarrow> bool" where
  "upgrades n w \<longleftrightarrow> 0 < tn_strong n w"

definition register_peer :: "string \<Rightarrow> ToolsListChangedNotifier \<Rightarrow> ToolsListChangedNotifier" where
  "register_peer peer n =
     (let new = tn_next n;
          n1 = n\<lparr>tn_strong := (tn_strong n)(new := 1), tn_target := (tn_target n)(new := peer),
                 tn_next := Suc new, tn_running := tn_running n @ [new]\<rparr>;
          kept = filter (upgrades n1) (tn_peers n1)
      in if new \<in> set kept then n1\<lparr>tn_peers := kept\<rparr> else n1\<lparr>tn_peers := kept @ [new]\<rparr>)"

definition register_return :: "nat \<Rightarrow> ToolsListChangedNotifier \<Rightarrow> ToolsListChangedNotifier" where
  "register_return a n =
     (if a \<in> set (tn_running n)
      then n\<lparr>tn_strong := (tn_strong n)(a := tn_strong n a - 1), tn_running := remove1 a (tn_running n)\<rparr>
      else n)"

text \<open>\<open>send\<close> says whether the library accepts the notification for a peer.\<close>

definition broadcast :: "(string \<Rightarrow> bool) \<Rightarrow> ToolsListChangedNotifier \<Rightarrow> nat \<times> ToolsListChangedNotifier" where
  "broadcast send n =
     (length (filter (\<lambda>w. upgrades n w \<and> send (tn_target n w)) (tn_peers n)),
      n\<lparr>tn_peers := filter (upgrades n) (tn_peers n)\<rparr>)"

definition peer_count :: "ToolsListChangedNotifier \<Rightarrow> nat" where
  "peer_count n = length (filter (upgrades n) (tn_peers n))"

datatype notifier_event = Register string | Register_Returns nat | Broadcast "string \<Rightarrow> bool"

fun notifier_step :: "ToolsListChangedNotifier \<Rightarrow> notifier_event \<Rightarrow> ToolsListChangedNotifier" where
  "notifier_step n (Register p) = register_peer p n"
| "notifier_step n (Register_Returns a) = register_return a n"
| "notifier_step n (Broadcast send) = snd (broadcast send n)"

text \<open>Only calls that still run hold a strong reference.\<close>

definition held_by_calls :: "ToolsListChangedNotifier \<Rightarrow> bool" where
  "held_by_calls n \<longleftrightarrow> distinct (tn_running n) \<and> (\<forall>a \<in> set (tn_running n). a < tn_next n) \<and>
     (\<forall>w. tn_strong n w = (if w \<in> set (tn_running n) then 1 else 0))"

lemma held_step: "held_by_calls n \<Longrightarrow> held_by_calls (notifier_step n e)"
  by (cases e) (auto simp: held_by_calls_def register_peer_def register_return_def broadcast_def Let_def
      set_remove1_eq less_Suc_eq)

interpretation nm: event_machine notifier_step held_by_calls
  by unfold_locales (rule held_step)

text \<open>
  C38: A peer that has registered is never notified. After any sequence of
  registrations and broadcasts, once no registration is in progress, none of the stored
  references can be upgraded: a broadcast reaches nobody, whatever peers have
  registered, and the count of live peers is zero.
\<close>

theorem registered_peers_are_never_notified:
  assumes "n = foldl notifier_step notifier_new es" "tn_running n = []"
  shows "fst (broadcast send n) = 0 \<and> tn_peers (snd (broadcast send n)) = [] \<and> peer_count n = 0"
proof -
  have "held_by_calls notifier_new" by (simp add: held_by_calls_def notifier_new_def)
  from nm.run_keeps [OF this, of es] have "held_by_calls n" by (simp add: assms(1))
  then have "\<not> upgrades n w" for w using assms(2) by (simp add: held_by_calls_def upgrades_def)
  then show ?thesis by (simp add: broadcast_def peer_count_def)
qed

theorem registered_peers_are_never_notified_witness:
  "fst (broadcast (\<lambda>_. True) (foldl notifier_step notifier_new
     [Register ''a'', Register_Returns 0, Register ''b'', Register_Returns 1])) = 0"
  using registered_peers_are_never_notified [OF refl, of "[Register ''a'', Register_Returns 0, Register ''b'', Register_Returns 1]"]
  by (simp add: register_peer_def register_return_def notifier_new_def Let_def)

section \<open>The background task\<close>

definition DEBOUNCE_WINDOW :: duration where "DEBOUNCE_WINDOW = 200"

text \<open>
  Where the task of \<open>spawn_notifier\<close> stands: before its first poll of
  \<open>notified()\<close>, registered as waiter, woken, in the sleep, or in the broadcast.
  \<open>nt_epoch\<close> counts the changes signalled so far, \<open>nt_announced\<close> is the count when the
  last broadcast began, and \<open>nt_log\<close> holds the times of the broadcasts, last first.
\<close>

datatype task_phase = Nt_Entering | Nt_Waiting | Nt_Woken | Nt_Sleeping instant | Nt_Sending

record notifier_task =
  nt_phase :: task_phase
  nt_permit :: bool
  nt_epoch :: nat
  nt_announced :: nat
  nt_log :: "instant list"

definition task_new :: notifier_task where
  "task_new = \<lparr>nt_phase = Nt_Entering, nt_permit = False, nt_epoch = 0, nt_announced = 0, nt_log = []\<rparr>"

text \<open>\<open>mark_tools_changed\<close>: \<open>notify_one\<close> wakes the waiter, or leaves a permit.\<close>

definition notify_one :: "notifier_task \<Rightarrow> notifier_task" where
  "notify_one t =
     (let t1 = t\<lparr>nt_epoch := Suc (nt_epoch t)\<rparr> in
      if nt_phase t = Nt_Waiting then t1\<lparr>nt_phase := Nt_Woken\<rparr> else t1\<lparr>nt_permit := True\<rparr>)"

definition spawn_notifier :: "duration \<Rightarrow> instant \<Rightarrow> notifier_task \<Rightarrow> notifier_task" where
  "spawn_notifier debounce now t = (case nt_phase t of
     Nt_Entering \<Rightarrow> if nt_permit t then t\<lparr>nt_permit := False, nt_phase := Nt_Sleeping (now + debounce)\<rparr>
                   else t\<lparr>nt_phase := Nt_Waiting\<rparr>
   | Nt_Waiting \<Rightarrow> t
   | Nt_Woken \<Rightarrow> t\<lparr>nt_phase := Nt_Sleeping (now + debounce)\<rparr>
   | Nt_Sleeping until \<Rightarrow>
       if until \<le> now then t\<lparr>nt_phase := Nt_Sending, nt_announced := nt_epoch t, nt_log := now # nt_log t\<rparr> else t
   | Nt_Sending \<Rightarrow> t\<lparr>nt_phase := Nt_Entering\<rparr>)"

text \<open>A run: at each time a change or a poll of the task.\<close>

datatype task_event = Changed | Polled instant

fun task_step :: "duration \<Rightarrow> notifier_task \<Rightarrow> task_event \<Rightarrow> notifier_task" where
  "task_step debounce t Changed = notify_one t"
| "task_step debounce t (Polled now) = spawn_notifier debounce now t"

text \<open>
  What holds at time \<open>now\<close>: a change that is not announced has left a trace; a
  sleep ends within the window; and the broadcasts so far, the one that is coming included, are one window apart and never
  more than the signals.
\<close>

definition notifies :: "task_phase \<Rightarrow> bool" where
  "notifies p \<longleftrightarrow> p = Nt_Woken \<or> (\<exists>u. p = Nt_Sleeping u)"

definition spaced :: "duration \<Rightarrow> instant list \<Rightarrow> bool" where
  "spaced debounce ts \<longleftrightarrow> sorted_wrt (\<lambda>later earlier. earlier + debounce \<le> later) ts"

definition task_ok :: "duration \<Rightarrow> instant \<Rightarrow> notifier_task \<Rightarrow> bool" where
  "task_ok debounce now t \<longleftrightarrow>
     nt_announced t \<le> nt_epoch t \<and>
     (nt_announced t < nt_epoch t \<longrightarrow> nt_permit t \<or> notifies (nt_phase t)) \<and>
     (nt_permit t \<longrightarrow> nt_phase t \<noteq> Nt_Waiting) \<and>
     (\<forall>u. nt_phase t = Nt_Sleeping u \<longrightarrow> u \<le> now + debounce \<and> (\<forall>b \<in> set (nt_log t). b + debounce \<le> u)) \<and>
     (\<forall>b \<in> set (nt_log t). b \<le> now) \<and> spaced debounce (nt_log t) \<and>
     length (nt_log t) + (if nt_permit t then 1 else 0) + (if notifies (nt_phase t) then 1 else 0) \<le> nt_epoch t"

lemma task_ok_later: "task_ok debounce now t \<Longrightarrow> now \<le> now' \<Longrightarrow> task_ok debounce now' t"
  by (fastforce simp: task_ok_def)

lemma task_ok_notify: "task_ok debounce now t \<Longrightarrow> task_ok debounce now (notify_one t)"
  by (auto simp: task_ok_def notify_one_def notifies_def Let_def)

lemma task_ok_poll: "task_ok debounce now t \<Longrightarrow> task_ok debounce now (spawn_notifier debounce now t)"
  by (cases "nt_phase t") (auto simp: task_ok_def spawn_notifier_def notifies_def spaced_def)

lemma task_ok_new: "task_ok debounce now task_new"
  by (simp add: task_ok_def task_new_def notifies_def spaced_def)

definition poll_times :: "task_event list \<Rightarrow> instant list" where
  "poll_times es = concat (map (\<lambda>e. case e of Polled now \<Rightarrow> [now] | Changed \<Rightarrow> []) es)"

lemma task_run:
  assumes "task_ok debounce now t" "sorted (now # poll_times es)"
  shows "task_ok debounce (last (now # poll_times es)) (foldl (task_step debounce) t es)"
    and "nt_epoch (foldl (task_step debounce) t es) = nt_epoch t + count_list es Changed"
proof -
  have "task_ok debounce (last (now # poll_times es)) (foldl (task_step debounce) t es) \<and>
      nt_epoch (foldl (task_step debounce) t es) = nt_epoch t + count_list es Changed"
    using assms
  proof (induction es arbitrary: now t)
    case (Cons e es)
    show ?case
    proof (cases e)
      case Changed
      from Cons.IH [of now "notify_one t"] Cons.prems show ?thesis
        by (simp add: Changed poll_times_def task_ok_notify) (simp add: notify_one_def Let_def)
    next
      case (Polled now')
      have "task_ok debounce now' (spawn_notifier debounce now' t)"
        using Cons.prems by (intro task_ok_poll task_ok_later [OF Cons.prems(1)]) (simp add: Polled poll_times_def)
      with Cons.IH [of now' "spawn_notifier debounce now' t"] Cons.prems(2) show ?thesis
        by (simp add: Polled poll_times_def) (simp add: spawn_notifier_def split: task_phase.split)
    qed
  qed (simp add: poll_times_def)
  then show "task_ok debounce (last (now # poll_times es)) (foldl (task_step debounce) t es)"
    and "nt_epoch (foldl (task_step debounce) t es) = nt_epoch t + count_list es Changed" by auto
qed

lemma announce_in_three_polls:
  assumes "task_ok debounce now t"
  shows "nt_announced (foldl (task_step debounce) t [Polled now, Polled now, Polled (now + debounce)]) = nt_epoch t"
  using assms by (cases "nt_phase t") (auto simp: spawn_notifier_def task_ok_def notifies_def)

text \<open>
  Bursts are coalesced and no change is lost. At every schedule of changes and
  polls, broadcasts are at least one window apart and never more than the changes; and
  from every reachable state three polls, the last one a window later, suffice to
  announce every change made so far.
\<close>

theorem no_change_goes_unannounced:
  assumes "sorted (poll_times es @ [now])" "t = foldl (task_step debounce) task_new es"
  shows "spaced debounce (nt_log t) \<and> length (nt_log t) \<le> count_list es Changed \<and>
    nt_announced (foldl (task_step debounce) t [Polled now, Polled now, Polled (now + debounce)]) = count_list es Changed"
proof -
  have s: "sorted (0 # poll_times es)" "last (0 # poll_times es) \<le> now"
    using assms(1) by (auto simp: sorted_append)
  note run = task_run [OF task_ok_new s(1), of debounce]
  have ok: "task_ok debounce now t" using task_ok_later [OF run(1) s(2)] by (simp add: assms(2))
  have epoch: "nt_epoch t = count_list es Changed" using run(2) by (simp add: assms(2)) (simp add: task_new_def)
  show ?thesis
    using announce_in_three_polls [OF ok] ok by (simp add: epoch task_ok_def)
qed

theorem no_change_goes_unannounced_witness:
  "nt_announced (foldl (task_step DEBOUNCE_WINDOW) task_new
     [Polled 0, Changed, Changed, Polled 5, Changed, Polled 10, Polled 205, Polled 300, Polled 300, Polled 500]) = 3"
  using no_change_goes_unannounced [OF _ refl, of "[Polled 0, Changed, Changed, Polled 5, Changed, Polled 10, Polled 205]" 300 DEBOUNCE_WINDOW]
  by (simp add: poll_times_def DEBOUNCE_WINDOW_def)

end
