(* ===== verification/Masking_Client.thy ===== *)
theory Masking_Client
  imports Masking_Gate
begin

text \<open>
  The client of the masking service (\<open>MaskingServiceClient\<close> of
  \<open>src/session_manager/masking/client.rs\<close>): requests over the Unix socket with the limits on
  both directions, the reading of an answer, deadlines and the one retry. What happens on
  the socket, whether a deadline passes, and the typed deserialization of a body are inputs.
\<close>

section \<open>One exchange\<close>

text \<open>How an exchange can end on the socket. The body of an answer comes in frames, of which some carry no data.\<close>

datatype body_frame = Bf_Data string | Bf_Other | Bf_Broken

datatype wire_result = Wire_NoConnection | Wire_NoHandshake | Wire_NotSent | Wire_Response nat "body_frame list"

fun read_frames :: "string \<Rightarrow> body_frame list \<Rightarrow> (ClientError, string) res" where
  "read_frames bytes [] = Ok bytes"
| "read_frames bytes (Bf_Broken # fs) = Err Cl_Transport"
| "read_frames bytes (Bf_Other # fs) = read_frames bytes fs"
| "read_frames bytes (Bf_Data d # fs) =
     (if MAX_INTERNAL_BODY_BYTES < length bytes + length d then Err Cl_InvalidResponse
      else read_frames (bytes @ d) fs)"

text \<open>
  \<open>sl_exchange\<close> is the socket: what the given attempt with this path and body comes to.
  \<open>sl_late\<close> says that the operation does not end before its deadline. \<open>sl_uri_ok\<close> is
  the check of the request builder; the last fields read and write texts.
\<close>

record service_link =
  sl_exchange :: "string \<Rightarrow> nat \<Rightarrow> string \<Rightarrow> wire_result"
  sl_late :: "string \<Rightarrow> bool"
  sl_uri_ok :: "string \<Rightarrow> bool"
  sl_print :: "json \<Rightarrow> string"
  sl_preflight :: "string \<Rightarrow> PreflightResponse option"
  sl_finalize :: "string \<Rightarrow> FinalizeResponse option"
  sl_terminal :: "string \<Rightarrow> TerminalResponse option"
  sl_value :: "string \<Rightarrow> json option"
  sl_error :: "string \<Rightarrow> ServiceError option"

definition request_json ::
  "service_link \<Rightarrow> (string \<Rightarrow> 'a option) \<Rightarrow> string \<Rightarrow> nat \<Rightarrow> string \<Rightarrow> (ClientError, 'a) res" where
  "request_json link decode path attempt body =
     (if MAX_INTERNAL_BODY_BYTES < length body then Err Cl_InvalidResponse
      else (case sl_exchange link path attempt body of
         Wire_NoConnection \<Rightarrow> Err Cl_Transport
       | Wire_NoHandshake \<Rightarrow> Err Cl_Transport
       | Wire_NotSent \<Rightarrow> if sl_uri_ok link path then Err Cl_Transport else Err Cl_InvalidResponse
       | Wire_Response status frames \<Rightarrow>
           if \<not> sl_uri_ok link path then Err Cl_InvalidResponse
           else (case read_frames [] frames of
              Inl e \<Rightarrow> Err e
            | Inr bytes \<Rightarrow>
                if status = 200
                then (case decode bytes of Some r \<Rightarrow> Ok r | None \<Rightarrow> Err Cl_InvalidResponse)
                else (case sl_error link bytes of Some e \<Rightarrow> Err (Cl_Service status e) | None \<Rightarrow> Err Cl_InvalidResponse))))"

section \<open>Operations\<close>

definition PREFLIGHT_PATH :: string where "PREFLIGHT_PATH = ''/internal/v1/calls/preflight''"
definition FINALIZE_PATH :: string where "FINALIZE_PATH = ''/internal/v1/calls/finalize''"
definition TERMINAL_PATH :: string where "TERMINAL_PATH = ''/internal/v1/calls/terminal''"

definition encode_preflight :: "PreflightRequest \<Rightarrow> json" where
  "encode_preflight q = jobj ([(''schema_version'', enc_nat (unat (pq_schema_version q)))] @ encode_context (pq_context q)
     @ [(''arguments'', pq_arguments q)])"

definition client_post :: "service_link \<Rightarrow> (string \<Rightarrow> 'a option) \<Rightarrow> string \<Rightarrow> json \<Rightarrow> (ClientError, 'a) res" where
  "client_post link decode path payload =
     (let body = sl_print link payload in
      if sl_late link path then Err Cl_Timeout else request_json link decode path 0 body)"

definition client_preflight :: "service_link \<Rightarrow> PreflightRequest \<Rightarrow> (ClientError, PreflightResponse) res" where
  "client_preflight link q = client_post link (sl_preflight link) PREFLIGHT_PATH (encode_preflight q)"

definition client_finalize :: "service_link \<Rightarrow> FinalizeRequest \<Rightarrow> (ClientError, FinalizeResponse) res" where
  "client_finalize link q = (case serialize_finalize_request (sl_print link) q of
     Inl e \<Rightarrow> Err e
   | Inr body \<Rightarrow> retry_transport (sl_late link FINALIZE_PATH)
       (request_json link (sl_finalize link) FINALIZE_PATH 0 body)
       (request_json link (sl_finalize link) FINALIZE_PATH 1 body))"

definition client_terminal :: "service_link \<Rightarrow> TerminalRequest \<Rightarrow> (ClientError, TerminalResponse) res" where
  "client_terminal link q =
     (let body = sl_print link (encode_terminal q) in
      retry_transport (sl_late link TERMINAL_PATH)
        (request_json link (sl_terminal link) TERMINAL_PATH 0 body)
        (request_json link (sl_terminal link) TERMINAL_PATH 1 body))"

definition setup_export :: "service_link \<Rightarrow> string \<Rightarrow> bool \<Rightarrow> (ClientError, json) res" where
  "setup_export link database_id include_tools =
     (let path = ''/internal/v1/setup/export?database_id='' @ database_id @ ''&include_tools='' @ (if include_tools then ''1'' else ''0'')
      in if sl_late link path then Err Cl_Timeout else request_json link (sl_value link) path 0 [])"

text \<open>The gate on top of this client; \<open>links\<close> is the socket at each replay of the outbox.\<close>

definition service_env :: "(string \<Rightarrow> bool) \<Rightarrow> service_link \<Rightarrow> (nat \<Rightarrow> service_link) \<Rightarrow> gate_env" where
  "service_env uuid_ok link links =
     \<lparr>ge_print = sl_print link, ge_uuid = uuid_ok, ge_terminal = (\<lambda>k. client_terminal (links k)),
      ge_preflight = client_preflight link, ge_finalize = client_finalize link\<rparr>"

section \<open>Both directions are bounded\<close>

fun frames_data :: "body_frame list \<Rightarrow> string" where
  "frames_data [] = []"
| "frames_data (Bf_Data d # fs) = d @ frames_data fs"
| "frames_data (_ # fs) = frames_data fs"

lemma read_frames_ok:
  "length bytes \<le> MAX_INTERNAL_BODY_BYTES \<Longrightarrow>
   read_frames bytes fs = Ok out \<longleftrightarrow> out = bytes @ frames_data fs \<and> Bf_Broken \<notin> set fs \<and> length out \<le> MAX_INTERNAL_BODY_BYTES"
  by (induction bytes fs rule: read_frames.induct) auto

text \<open>When the exchange gives a value.\<close>

definition answered :: "service_link \<Rightarrow> (string \<Rightarrow> 'a option) \<Rightarrow> string \<Rightarrow> nat \<Rightarrow> string \<Rightarrow> 'a \<Rightarrow> bool" where
  "answered link decode path attempt body r \<longleftrightarrow> length body \<le> MAX_INTERNAL_BODY_BYTES \<and>
     (\<exists>frames. sl_exchange link path attempt body = Wire_Response 200 frames \<and> Bf_Broken \<notin> set frames \<and>
        length (frames_data frames) \<le> MAX_INTERNAL_BODY_BYTES \<and> decode (frames_data frames) = Some r)"

lemma request_json_ok: "request_json link decode path k body = Ok r \<longleftrightarrow> sl_uri_ok link path \<and> answered link decode path k body r"
proof -
  have rd: "read_frames [] fs = Ok out \<longleftrightarrow> out = frames_data fs \<and> Bf_Broken \<notin> set fs \<and> length out \<le> MAX_INTERNAL_BODY_BYTES" for fs out
    using read_frames_ok [of "[]" fs out] by simp
  show ?thesis
  proof (cases "sl_exchange link path k body")
    case (Wire_Response st fs)
    show ?thesis
    proof (cases "read_frames [] fs")
      case (Inl e)
      then have "Bf_Broken \<in> set fs \<or> MAX_INTERNAL_BODY_BYTES < length (frames_data fs)"
        using rd [of fs "frames_data fs"] by auto
      with Wire_Response Inl show ?thesis by (auto simp: request_json_def answered_def)
    next
      case (Inr out)
      then have "out = frames_data fs" "Bf_Broken \<notin> set fs" "length (frames_data fs) \<le> MAX_INTERNAL_BODY_BYTES"
        using rd [of fs out] by auto
      with Wire_Response Inr show ?thesis
        by (auto simp: request_json_def answered_def not_less split: option.splits if_splits)
    qed
  qed (auto simp: request_json_def answered_def split: if_splits)
qed

lemma retry_transport_ok:
  "retry_transport late a b = Ok r \<longleftrightarrow> \<not> late \<and> (a = Ok r \<or> a = Err Cl_Transport \<and> b = Ok r)"
  by (auto simp: retry_transport_def)

lemma client_finalize_ok:
  assumes "client_finalize link q = Ok p"
  shows "\<exists>k body. answered link (sl_finalize link) FINALIZE_PATH k body p \<and> k < 2 \<and>
    (body = sl_print link (encode_finalize q) \<or> MAX_INTERNAL_BODY_BYTES < length (sl_print link (encode_finalize q)) \<and>
       body = sl_print link (encode_finalize (finalize_fallback q)))"
proof -
  obtain body where b: "serialize_finalize_request (sl_print link) q = Ok body"
    using assms by (auto simp: client_finalize_def split: sum.splits)
  then have "body = sl_print link (encode_finalize q) \<or> MAX_INTERNAL_BODY_BYTES < length (sl_print link (encode_finalize q)) \<and>
      body = sl_print link (encode_finalize (finalize_fallback q))"
    by (auto simp: serialize_finalize_request_def Let_def split: if_splits)
  moreover from assms b obtain k where "k < 2" "answered link (sl_finalize link) FINALIZE_PATH k body p"
    by (auto simp: client_finalize_def retry_transport_ok request_json_ok intro: that [of 0] that [of 1])
  ultimately show ?thesis by blast
qed

text \<open>When the service reported an error.\<close>

definition reported :: "service_link \<Rightarrow> string \<Rightarrow> nat \<Rightarrow> string \<Rightarrow> nat \<Rightarrow> ServiceError \<Rightarrow> bool" where
  "reported link path attempt body status e \<longleftrightarrow> length body \<le> MAX_INTERNAL_BODY_BYTES \<and> status \<noteq> 200 \<and>
     (\<exists>frames. sl_exchange link path attempt body = Wire_Response status frames \<and> sl_error link (frames_data frames) = Some e)"

lemma read_frames_no_service: "read_frames bytes fs \<noteq> Err (Cl_Service st e)"
  by (induction bytes fs rule: read_frames.induct) auto

lemma request_json_service:
  assumes "request_json link decode path k body = Err (Cl_Service st e)"
  shows "reported link path k body st e"
proof (cases "sl_exchange link path k body")
  case (Wire_Response st' fs)
  show ?thesis
  proof (cases "read_frames [] fs")
    case (Inl x)
    with Wire_Response assms read_frames_no_service [of "[]" fs st e] show ?thesis
      by (auto simp: request_json_def split: if_splits)
  next
    case (Inr out)
    then have "out = frames_data fs" using read_frames_ok [of "[]" fs out] by simp
    with Wire_Response Inr assms show ?thesis
      by (auto simp: request_json_def reported_def not_less split: if_splits option.splits)
  qed
qed (use assms in \<open>auto simp: request_json_def split: if_splits\<close>)

lemma client_finalize_service:
  assumes "client_finalize link q = Err (Cl_Service st e)"
  shows "\<exists>k body. reported link FINALIZE_PATH k body st e \<and> k < 2"
proof -
  obtain body where b: "serialize_finalize_request (sl_print link) q = Ok body"
    using assms by (auto simp: client_finalize_def serialize_finalize_request_def Let_def split: sum.splits if_splits)
  with assms have "request_json link (sl_finalize link) FINALIZE_PATH 0 body = Err (Cl_Service st e) \<or>
      request_json link (sl_finalize link) FINALIZE_PATH 1 body = Err (Cl_Service st e)"
    by (auto simp: client_finalize_def retry_transport_def split: if_splits)
  then obtain k where "k < 2" "request_json link (sl_finalize link) FINALIZE_PATH k body = Err (Cl_Service st e)"
    by (auto intro: that [of 0] that [of 1])
  then show ?thesis using request_json_service by blast
qed

lemma preflight_allows:
  assumes "preflight env c args g = (Ok (c', a), g')"
  shows "\<exists>p. ge_preflight env \<lparr>pq_schema_version = 1, pq_context = c, pq_arguments = args\<rparr> = Ok p \<and>
    pr_schema_version p = 1 \<and> pr_decision p = ''allow'' \<and> a = pr_arguments p \<and> c' = c"
  using assms by (auto simp: preflight_def Let_def split: sum.splits if_splits prod.splits)

lemma finalize_releases:
  assumes "finalize env c out src g = (Ok r, g')"
  shows "\<exists>p. ge_finalize env \<lparr>fq_schema_version = 1, fq_context = c, fq_outcome = out, fq_field_sources = src\<rparr> = Ok p \<and>
    fr_schema_version p = 1 \<and> r = fr_public_result p"
  using assms by (auto simp: finalize_def Let_def split: sum.splits if_splits prod.splits)

text \<open>
  Consent and release come over the wire, complete and within bounds. If the
  gate lets a call pass, the service answered the preflight of this very call with status 200
  and a complete body of at most eight megabytes that says \<open>allow\<close> in this version, and
  the arguments are that body's. If it lets a result out, the service answered so the
  finalization of this call, at the first attempt or at the only retry, and the result is that
  body's; what was sent was the call's outcome, or, if that exceeds the limit, the fixed
  replacement without any of it.
\<close>

theorem consent_and_release_come_over_the_wire:
  "(preflight (service_env uuid_ok link links) c args g = (Ok (c', a), g') \<longrightarrow>
     (\<exists>p. answered link (sl_preflight link) PREFLIGHT_PATH 0
            (sl_print link (encode_preflight \<lparr>pq_schema_version = 1, pq_context = c, pq_arguments = args\<rparr>)) p \<and>
          pr_schema_version p = 1 \<and> pr_decision p = ''allow'' \<and> a = pr_arguments p)) \<and>
   (finalize (service_env uuid_ok link links) c out src g = (Ok r, g') \<longrightarrow>
     (let q = \<lparr>fq_schema_version = 1, fq_context = c, fq_outcome = out, fq_field_sources = src\<rparr> in
      \<exists>p k body. answered link (sl_finalize link) FINALIZE_PATH k body p \<and> k < 2 \<and>
        fr_schema_version p = 1 \<and> r = fr_public_result p \<and>
        (body = sl_print link (encode_finalize q) \<or>
         MAX_INTERNAL_BODY_BYTES < length (sl_print link (encode_finalize q)) \<and>
           body = sl_print link (encode_finalize (finalize_fallback q)))))"
proof (intro conjI impI)
  assume "preflight (service_env uuid_ok link links) c args g = (Ok (c', a), g')"
  from preflight_allows [OF this] show "\<exists>p. answered link (sl_preflight link) PREFLIGHT_PATH 0
            (sl_print link (encode_preflight \<lparr>pq_schema_version = 1, pq_context = c, pq_arguments = args\<rparr>)) p \<and>
          pr_schema_version p = 1 \<and> pr_decision p = ''allow'' \<and> a = pr_arguments p"
    by (auto simp: service_env_def client_preflight_def client_post_def request_json_ok split: if_splits)
next
  assume "finalize (service_env uuid_ok link links) c out src g = (Ok r, g')"
  from finalize_releases [OF this] obtain p where p: "fr_schema_version p = 1" "r = fr_public_result p"
    "client_finalize link \<lparr>fq_schema_version = 1, fq_context = c, fq_outcome = out, fq_field_sources = src\<rparr> = Ok p"
    by (auto simp: service_env_def)
  from client_finalize_ok [OF p(3)] p(1,2) show "let q = \<lparr>fq_schema_version = 1, fq_context = c, fq_outcome = out, fq_field_sources = src\<rparr> in
      \<exists>p k body. answered link (sl_finalize link) FINALIZE_PATH k body p \<and> k < 2 \<and>
        fr_schema_version p = 1 \<and> r = fr_public_result p \<and>
        (body = sl_print link (encode_finalize q) \<or>
         MAX_INTERNAL_BODY_BYTES < length (sl_print link (encode_finalize q)) \<and>
           body = sl_print link (encode_finalize (finalize_fallback q)))"
    unfolding Let_def by blast
qed

text \<open>A service that answers everything with status 200.\<close>

definition sample_link :: service_link where
  "sample_link = \<lparr>sl_exchange = (\<lambda>_ _ _. Wire_Response 200 [Bf_Data ''o'', Bf_Other, Bf_Data ''k'']), sl_late = (\<lambda>_. False),
     sl_uri_ok = (\<lambda>_. True), sl_print = (\<lambda>_. ''body''),
     sl_preflight = (\<lambda>t. if t = ''ok'' then Some \<lparr>pr_schema_version = 1, pr_decision = ''allow'', pr_arguments = JNull\<rparr> else None),
     sl_finalize = (\<lambda>t. if t = ''ok'' then Some \<lparr>fr_schema_version = 1, fr_public_result = \<lparr>cr_content = [], cr_is_error = False, cr_structured_content = None\<rparr>\<rparr> else None),
     sl_terminal = (\<lambda>_. None), sl_value = (\<lambda>_. None), sl_error = (\<lambda>_. None)\<rparr>"

theorem consent_and_release_come_over_the_wire_witness:
  "\<exists>p k body. answered sample_link (sl_finalize sample_link) FINALIZE_PATH k body p \<and> k < 2 \<and>
     fr_public_result p = \<lparr>cr_content = [], cr_is_error = False, cr_structured_content = None\<rparr>"
proof -
  let ?r = "\<lparr>cr_content = [], cr_is_error = False, cr_structured_content = None\<rparr> :: ToolCallResult"
  let ?env = "service_env (\<lambda>_. True) sample_link (\<lambda>_. sample_link)"
  have "finalize ?env sample_context (ToolResult JNull) None sample_gate = (Ok ?r, sample_gate)"
    by (simp add: finalize_def service_env_def client_finalize_def serialize_finalize_request_def sample_link_def
        retry_transport_def request_json_def MAX_INTERNAL_BODY_BYTES_def)
  with consent_and_release_come_over_the_wire [of "\<lambda>_. True" sample_link "\<lambda>_. sample_link" sample_context JNull sample_gate
      sample_context JNull sample_gate "ToolResult JNull" None ?r]
  show ?thesis unfolding Let_def by metis
qed

end
