(* ===== verification/Mcp_Handlers.thy ===== *)
theory Mcp_Handlers
  imports Mcp_Calls Http_Server Notify Masking_Client
begin

text \<open>
  The handlers behind the MCP library (\<open>ServerHandler for McpToolServer\<close> of
  \<open>src/mcp/server.rs\<close>, with the requests of \<open>src/mcp/request.rs\<close>): the list of tools
  and the call of a tool, built in or proxied. The description texts and schemas of the
  built-in tools, which a macro of the library generates, are an input, as is the text of its
  deserialization errors.
\<close>

section \<open>Requests of the built-in tools\<close>

text \<open>All structs carry \<open>serde(default)\<close>: an absent field has its default.\<close>

definition decode_session_list_request :: "jobject \<Rightarrow> unit option" where
  "decode_session_list_request m = Some ()"

definition decode_tools_cache_reset_request :: "jobject \<Rightarrow> string option option" where
  "decode_tools_cache_reset_request m = field_opt dec_string ''config_id'' m"

definition decode_export_setup_request :: "jobject \<Rightarrow> (string \<times> bool option) option" where
  "decode_export_setup_request m =
     Option.bind (field_default [] dec_string ''database'' m) (\<lambda>d.
     Option.bind (field_opt dec_bool ''include_tools'' m) (\<lambda>i. Some (d, i)))"

section \<open>The server\<close>

record McpToolServer =
  ms_app :: AppState
  ms_notifier :: ToolsListChangedNotifier
  ms_builtin :: "mcp_tool list"

text \<open>The three routes of the tool router.\<close>

definition builtin_names :: "string list" where
  "builtin_names = [''session_list'', ''tools_cache_reset'', ''masking_export_setup'']"

text \<open>
  What a request comes with: the peer, the headers of its HTTP request if it has one, what the
  client said of itself, and the clocks and formats the handlers use.
\<close>

record request_context =
  rx_peer :: string
  rx_headers :: "(string \<times> string) list option"
  rx_client :: "(string \<times> string) option"
  rx_http :: http_env
  rx_hash :: "json \<Rightarrow> string"
  rx_serde :: serde
  rx_utc :: utc
  rx_now :: instant
  rx_uuid :: "string \<Rightarrow> bool"
  rx_link :: service_link
  rx_decode_error :: "string \<Rightarrow> string"

definition caller_info :: "request_context \<Rightarrow> CallerInfo" where
  "caller_info cx =
     \<lparr>ci_mcp_session_id = (case rx_headers cx of
         Some hs \<Rightarrow> session_id_from_headers (rx_http cx) hs | None \<Rightarrow> Some ''stdio''),
      ci_client_name = map_option fst (rx_client cx), ci_client_version = map_option snd (rx_client cx)\<rparr>"

text \<open>A whole call of \<open>register_peer\<close>.\<close>

definition register_call :: "string \<Rightarrow> ToolsListChangedNotifier \<Rightarrow> ToolsListChangedNotifier" where
  "register_call peer n = register_return (tn_next n) (register_peer peer n)"

definition list_tools :: "request_context \<Rightarrow> McpToolServer \<Rightarrow> mcp_tool list \<times> McpToolServer" where
  "list_tools cx srv =
     (let (tools, r) = list_all_tools_inner (ms_builtin srv) (rx_hash cx) (rx_serde cx) (rx_utc cx) (as_registry (ms_app srv))
      in (tools, srv\<lparr>ms_notifier := register_call (rx_peer cx) (ms_notifier srv), ms_app := (ms_app srv)\<lparr>as_registry := r\<rparr>\<rparr>))"

text \<open>The tool router: arguments that do not fit the request of the tool are refused by the library.\<close>

definition call_builtin :: "request_context \<Rightarrow> string \<Rightarrow> jobject \<Rightarrow> AppState \<Rightarrow> call_answer \<times> AppState" where
  "call_builtin cx name args s =
     (let refused = (Err (Invalid_Params (rx_decode_error cx name)), s) in
      if name = ''session_list''
      then (case decode_session_list_request args of
              None \<Rightarrow> refused | Some _ \<Rightarrow> (Ok (session_list (rx_now cx) (as_registry s)), s))
      else if name = ''tools_cache_reset''
      then (case decode_tools_cache_reset_request args of
              None \<Rightarrow> refused
            | Some cid \<Rightarrow> (let (res, r) = tools_cache_reset (rx_serde cx) cid (as_registry s) in (Ok res, s\<lparr>as_registry := r\<rparr>)))
      else (case decode_export_setup_request args of
              None \<Rightarrow> refused
            | Some (d, i) \<Rightarrow> (Ok (masking_export_setup (rx_uuid cx) (setup_export (rx_link cx)) d i (as_gate s)), s)))"

datatype handler_result = Hd_Answer call_answer | Hd_Proxy CallToolRequest

text \<open>\<open>call_tool\<close>: a built-in tool answers at once; any other name begins a proxied call (\<open>call_step\<close> from its start).\<close>

definition call_tool :: "request_context \<Rightarrow> string \<Rightarrow> jobject option \<Rightarrow> McpToolServer \<Rightarrow> handler_result \<times> McpToolServer" where
  "call_tool cx name args srv =
     (let srv1 = srv\<lparr>ms_notifier := register_call (rx_peer cx) (ms_notifier srv)\<rparr> in
      if name \<in> set builtin_names
      then (let (answer, s) = call_builtin cx name (unwrap_or [] args) (ms_app srv) in (Hd_Answer answer, srv1\<lparr>ms_app := s\<rparr>))
      else (Hd_Proxy \<lparr>rq_name = name, rq_arguments = args, rq_caller = caller_info cx\<rparr>, srv1))"

section \<open>Built-in tools stay in the manager\<close>

lemma tools_cache_reset_keeps [simp]:
  "reg_inner (snd (tools_cache_reset sd cid r)) = reg_inner r" "reg_conns (snd (tools_cache_reset sd cid r)) = reg_conns r"
  "reg_disps (snd (tools_cache_reset sd cid r)) = reg_disps r"
  by (simp_all add: tools_cache_reset_def Let_def split_beta split: option.split)

lemma call_builtin_app:
  assumes "call_builtin cx name args s = (answer, s')"
  shows "s' = s \<or> (\<exists>cid. s' = s\<lparr>as_registry := snd (tools_cache_reset (rx_serde cx) cid (as_registry s))\<rparr>)"
  using assms by (auto simp: call_builtin_def Let_def split_beta split: if_splits option.splits)

lemma call_builtin_keeps:
  assumes "call_builtin cx name args s = (answer, s')"
  shows "reg_inner (as_registry s') = reg_inner (as_registry s)" "reg_conns (as_registry s') = reg_conns (as_registry s)"
    "reg_disps (as_registry s') = reg_disps (as_registry s)" "as_gate s' = as_gate s"
  using call_builtin_app [OF assms] by auto

text \<open>
  The names of the built-in tools belong to the manager. Whatever the sessions
  publish, a call under a built-in name is answered by the manager itself: no message is
  sent to any client, no session, dispatcher or gate changes. A call under any other name
  becomes a proxied call with exactly the agent's name and arguments and touches nothing
  yet.
\<close>

theorem builtin_names_belong_to_the_manager:
  assumes "call_tool cx name args srv = (res, srv')"
  shows "let r = as_registry (ms_app srv); r' = as_registry (ms_app srv') in
    (if name \<in> {''session_list'', ''tools_cache_reset'', ''masking_export_setup''}
     then (\<exists>answer. res = Hd_Answer answer) \<and> reg_inner r' = reg_inner r \<and> reg_conns r' = reg_conns r \<and>
       reg_disps r' = reg_disps r \<and> as_gate (ms_app srv') = as_gate (ms_app srv)
     else ms_app srv' = ms_app srv \<and> (\<exists>q. res = Hd_Proxy q \<and> rq_name q = name \<and> rq_arguments q = args))"
proof (cases "name \<in> set builtin_names")
  case True
  obtain answer s where c: "call_builtin cx name (unwrap_or [] args) (ms_app srv) = (answer, s)" by (metis surj_pair)
  with assms True have "res = Hd_Answer answer" "ms_app srv' = s" by (auto simp: call_tool_def Let_def)
  with True call_builtin_keeps [OF c] show ?thesis by (simp add: Let_def builtin_names_def)
next
  case False
  with assms have "res = Hd_Proxy \<lparr>rq_name = name, rq_arguments = args, rq_caller = caller_info cx\<rparr>" "ms_app srv' = ms_app srv"
    by (auto simp: call_tool_def Let_def)
  with False show ?thesis by (simp add: Let_def builtin_names_def)
qed

definition sample_request_context :: request_context where
  "sample_request_context = \<lparr>rx_peer = ''p'', rx_headers = None, rx_client = Some (''agent'', ''1''), rx_http = sample_http_env,
     rx_hash = (\<lambda>_. ''h''), rx_serde = time_serde, rx_utc = 0, rx_now = 0, rx_uuid = (\<lambda>_. True), rx_link = sample_link,
     rx_decode_error = (\<lambda>_. ''invalid'')\<rparr>"

definition sample_server :: McpToolServer where
  "sample_server = \<lparr>ms_app = call_app, ms_notifier = notifier_new, ms_builtin = []\<rparr>"

theorem builtin_names_belong_to_the_manager_witness:
  "\<exists>answer. fst (call_tool sample_request_context ''session_list'' None sample_server) = Hd_Answer answer"
proof -
  obtain res srv' where c: "call_tool sample_request_context ''session_list'' None sample_server = (res, srv')" by (metis surj_pair)
  from builtin_names_belong_to_the_manager [OF c] c show ?thesis by (simp add: Let_def)
qed

text \<open>The label under which a proxied call is recorded names its transport or session.\<close>

lemma stdio_caller: "rx_headers cx = None \<Longrightarrow> ci_mcp_session_id (caller_info cx) = Some ''stdio''"
  by (simp add: caller_info_def)

end
