(* ===== verification/Process.thy ===== *)
theory Process
  imports Shutdown Mcp_Handlers
begin

text \<open>
  The remaining parts of the process: the metrics exporter (\<open>src/session_manager/metrics.rs\<close>) and how
  the start uses it, the start of the WebSocket transport (\<open>start\<close>, \<open>start_with_masking\<close> and
  \<open>start_inner\<close> of \<open>src/session_manager/transport.rs\<close>), the construction of the MCP server and of the
  lifecycle manager, and small entries of the registry. The exporter's library and the sockets are inputs.
\<close>

section \<open>Metrics\<close>

text \<open>
  The library: reading an address, and installing the exporter, which depends on whether the process already has a
  recorder and says whether it has one afterwards.
\<close>

record 'a metrics_lib =
  ml_parse :: "string \<Rightarrow> (string, 'a) res"
  ml_install :: "'a \<Rightarrow> bool \<Rightarrow> (string, unit) res \<times> bool"

definition install_prometheus_exporter :: "'a metrics_lib \<Rightarrow> string \<Rightarrow> bool \<Rightarrow> (string, unit) res \<times> bool" where
  "install_prometheus_exporter lib bind_address installed = (case ml_parse lib bind_address of
     Inl e \<Rightarrow> (Err (''invalid metrics bind_address '' @ quoted bind_address @ '': '' @ e), installed)
   | Inr a \<Rightarrow>
       (case ml_install lib a installed of
          (Inl e, i) \<Rightarrow> (Err (''failed to install Prometheus exporter: '' @ e), i)
        | (Inr _, i) \<Rightarrow> (Ok (), i)))"

datatype metrics_log = Exporter_Started string | Exporter_Failed string

text \<open>What \<open>maybe_install_metrics\<close> does with the configured address: the line it logs, and the recorder.\<close>

definition run_metrics :: "'a metrics_lib \<Rightarrow> AppConfig \<Rightarrow> bool \<Rightarrow> metrics_log option \<times> bool" where
  "run_metrics lib cfg installed = (case maybe_install_metrics cfg of
     None \<Rightarrow> (None, installed)
   | Some a \<Rightarrow>
       (case install_prometheus_exporter lib a installed of
          (Inr _, i) \<Rightarrow> (Some (Exporter_Started a), i)
        | (Inl e, i) \<Rightarrow> (Some (Exporter_Failed e), i)))"

text \<open>
  A library that allows one recorder: the second installation fails and the first one stays. So the exporter is not
  idempotent, whatever the comment of the function calls it.
\<close>

lemma second_exporter_fails:
  assumes "\<And>a. ml_install lib a True = (Err m, True)" "\<And>a. snd (ml_install lib a False) = (fst (ml_install lib a False) = Ok ())"
    and "install_prometheus_exporter lib addr False = (Ok (), i)"
  shows "i \<and> install_prometheus_exporter lib addr i = (Err (''failed to install Prometheus exporter: '' @ m), True)"
proof (cases "ml_parse lib addr")
  case (Inr a)
  with assms(2) [of a] assms(3) have i by (auto simp: install_prometheus_exporter_def split: prod.splits sum.splits)
  with Inr assms(1) show ?thesis by (simp add: install_prometheus_exporter_def)
qed (use assms(3) in \<open>simp add: install_prometheus_exporter_def\<close>)

section \<open>The panic hook\<close>

text \<open>\<open>src/app.rs\<close> installs it first: the text of a panic, which may hold arguments or results of tools, is not printed.\<close>

definition panic_hook :: "string \<Rightarrow> string" where
  "panic_hook payload = ''v8-session-manager: fatal internal error''"

section \<open>The WebSocket transport comes up\<close>

record started_transport =
  sx_local_addr :: string
  sx_state :: AppState
  sx_config :: TransportConfig
  sx_server_version :: string
  sx_path :: string
  sx_tasks :: RunningTransport
  sx_grace :: duration
  sx_sweep_interval :: duration

text \<open>\<open>bind\<close> is the listening socket: the actual address, or the error.\<close>

definition start_inner ::
  "(string \<Rightarrow> (string, string) res) \<Rightarrow> SessionRegistry \<Rightarrow> McpSessionManagerConfig \<Rightarrow> string \<Rightarrow> MaskingGate option \<Rightarrow>
     (string, started_transport) res" where
  "start_inner bind registry sm server_version gate = (case bind (sm_bind_address sm) of
     Inl e \<Rightarrow> Err e
   | Inr local_addr \<Rightarrow>
       (let cfg = transport_config sm in
        Ok \<lparr>sx_local_addr = local_addr,
            sx_state = \<lparr>as_registry = registry, as_gate = gate, as_peers = (\<lambda>_. None)\<rparr>,
            sx_config = cfg, sx_server_version = server_version, sx_path = sm_path sm,
            sx_tasks = \<lparr>rt_server = Tk_Running, rt_sweeper = Tk_Running\<rparr>,
            sx_grace = unat (tf_reconnection_grace_secs cfg) * 1000,
            sx_sweep_interval = sweep_interval_secs cfg * 1000\<rparr>))"

definition transport_start ::
  "(string \<Rightarrow> (string, string) res) \<Rightarrow> SessionRegistry \<Rightarrow> McpSessionManagerConfig \<Rightarrow> string \<Rightarrow> (string, started_transport) res" where
  "transport_start bind registry sm server_version = start_inner bind registry sm server_version None"

definition start_with_masking ::
  "(string \<Rightarrow> (string, string) res) \<Rightarrow> SessionRegistry \<Rightarrow> McpSessionManagerConfig \<Rightarrow> string \<Rightarrow> MaskingGate \<Rightarrow>
     (string, started_transport) res" where
  "start_with_masking bind registry sm server_version gate = start_inner bind registry sm server_version (Some gate)"

text \<open>The ticks of the sweeper come at least once a second and at most thirty seconds apart.\<close>

lemma started_sweeper:
  assumes "start_inner bind registry sm v gate = Ok t"
  shows "1000 \<le> sx_sweep_interval t" "sx_sweep_interval t \<le> 30000" "sx_sweep_interval t \<le> max 1000 (sx_grace t)"
  using assms by (auto simp: start_inner_def Let_def sweep_interval_secs_def clamp_def split: sum.splits)

section \<open>The MCP server and the lifecycle manager\<close>

definition try_new :: "boot_env \<Rightarrow> mcp_tool list \<Rightarrow> AppConfig \<Rightarrow> (McpServerError, McpToolServer) res" where
  "try_new env builtin cfg = (case from_config env (ac_masking cfg) (ac_work_path cfg) of
     Inl e \<Rightarrow> Err (MaskingConfig_invalid e)
   | Inr g \<Rightarrow> Ok \<lparr>ms_app = \<lparr>as_registry = registry_new, as_gate = Some g, as_peers = (\<lambda>_. None)\<rparr>,
                  ms_notifier = notifier_new, ms_builtin = builtin\<rparr>)"

definition with_session_registry :: "SessionRegistry \<Rightarrow> McpToolServer \<Rightarrow> McpToolServer" where
  "with_session_registry r srv = srv\<lparr>ms_app := (ms_app srv)\<lparr>as_registry := r\<rparr>\<rparr>"

record ServerCapabilities =
  sc_tools :: bool
  sc_tool_list_changed :: bool

definition get_info :: "McpToolServer \<Rightarrow> ServerCapabilities" where
  "get_info srv = \<lparr>sc_tools = True, sc_tool_list_changed = True\<rparr>"

record LifecycleManager =
  lm_graceful_kill_grace_ms :: u64
  lm_cancelled :: bool

definition lifecycle_new :: "u64 \<Rightarrow> LifecycleManager" where
  "lifecycle_new grace = \<lparr>lm_graceful_kill_grace_ms = grace, lm_cancelled = False\<rparr>"

section \<open>Small entries of the registry\<close>

definition reg_register ::
  "cache_env \<Rightarrow> SessionRegisterParams \<Rightarrow> instant \<Rightarrow> nat option \<Rightarrow> SessionRegistry \<Rightarrow> (RegisterError, RegisterOutcome) res \<times> SessionRegistry" where
  "reg_register env p now cn r =
     (let (res, r') = register_with_generation env p now cn r
      in (case res of Inl e \<Rightarrow> Err e | Inr (oc, _) \<Rightarrow> Ok oc, r'))"

definition mark_tools_changed_external :: "SessionRegistry \<Rightarrow> SessionRegistry" where
  "mark_tools_changed_external r = mark_tools_changed r"

definition reg_is_empty :: "SessionRegistry \<Rightarrow> bool" where
  "reg_is_empty r \<longleftrightarrow> reg_len r = 0"

lemma registered_is_not_empty: "fst (reg_register env p now cn r) = Ok oc \<Longrightarrow> \<not> reg_is_empty (snd (reg_register env p now cn r))"
  by (auto simp: reg_register_def reg_is_empty_def reg_len_def register_with_generation_def admit_session_def Let_def
      next_generation_def new_dispatcher_def hm_put_nonempty split: option.splits SessionState.splits)

section \<open>The parts make the manager\<close>

text \<open>
  The start, put together from its parts in the order of \<open>serve_session_manager\<close>. The server reaches the cache
  through the registry it is attached to, and \<open>try_new\<close> always gives it a gate.
\<close>

definition assemble ::
  "boot_env \<Rightarrow> (string \<Rightarrow> (string, string) res) \<Rightarrow> string \<Rightarrow> mcp_tool list \<Rightarrow> AppConfig \<Rightarrow>
     (McpServerError, McpToolServer \<times> started_transport) res" where
  "assemble env bind server_version builtin cfg =
     (let sm = session_settings cfg;
          (cache_config, cache_path) = build_tools_cache_config cfg;
          cache = load_or_empty (be_serde env) (be_readable env cache_path) cache_config (be_files env cache_path);
          registry = attach_tools_cache cache registry_new;
          http_address = ht_bind_address (mc_http (ac_mcp cfg))
      in if \<not> be_runtime env then Err BuildRuntime
         else (case try_new env builtin cfg of
           Inl e \<Rightarrow> Err e
         | Inr srv0 \<Rightarrow>
             (let srv = with_session_registry registry srv0 in
              case bind http_address of
                Inl _ \<Rightarrow> Err (BindHttp http_address)
              | Inr _ \<Rightarrow>
                  (case as_gate (ms_app srv) of
                     None \<Rightarrow> Err (Task [])
                   | Some g \<Rightarrow>
                       (case start_with_masking bind registry sm server_version g of
                          Inl _ \<Rightarrow> Err (BindHttp (sm_bind_address sm))
                        | Inr t \<Rightarrow> Ok (srv, t))))))"

text \<open>
  The agents' side and the clients' side of a manager share one registry, one cache and one gate: the MCP server and
  the transport are started on the same state, which is the one that \<open>serve_session_manager\<close> runs, and the start
  fails for the same reasons.
\<close>

theorem both_sides_share_one_manager:
  assumes "\<And>a. be_bound env a \<longleftrightarrow> (\<exists>l. bind a = Ok l)"
  shows "case assemble env bind v builtin cfg of
      Inl e \<Rightarrow> serve_session_manager env cfg = Err e
    | Inr (srv, t) \<Rightarrow> (\<exists>rn. serve_session_manager env cfg = Ok rn \<and> ms_app srv = rn_state rn \<and> sx_state t = rn_state rn \<and>
        sx_config t = rn_transport rn \<and> ms_builtin srv = builtin)"
proof -
  have start: "\<lparr>as_registry = attach_tools_cache c registry_new, as_gate = Some g, as_peers = (\<lambda>_. None)\<rparr> = manager_start (Some c) (Some g)" for c g
    by (simp add: attach_tools_cache_def manager_start_def)
  obtain cc path where c: "build_tools_cache_config cfg = (cc, path)" by (metis surj_pair)
  let ?http = "ht_bind_address (mc_http (ac_mcp cfg))" and ?ws = "sm_bind_address (session_settings cfg)"
  note parts = assemble_def serve_session_manager_def c try_new_def with_session_registry_def start_with_masking_def start_inner_def
  show ?thesis
  proof (cases "be_runtime env")
    case run: True
    show ?thesis
    proof (cases "from_config env (ac_masking cfg) (ac_work_path cfg)")
      case (Inr g)
      note two = assms [of ?http] assms [of ?ws]
      consider e where "bind ?http = Inl e" | l e where "bind ?http = Inr l" "bind ?ws = Inl e" | l l' where "bind ?http = Inr l" "bind ?ws = Inr l'"
        by (metis sum.exhaust)
      then show ?thesis
        by cases (use run Inr two in \<open>simp_all add: parts start http_new_def Let_def\<close>)
    qed (use run in \<open>simp add: parts Let_def\<close>)
  qed (simp add: parts Let_def)
qed

end
