(* ===== verification/Wire_Types.thy ===== *)
theory Wire_Types
  imports Mcp_Calls
begin

text \<open>
  Well-typedness of what agents are shown, from the wire to the tool list: the JSON that comes in
  from clients (\<open>src/session_manager/protocol.rs\<close>), the tools in the registry and the
  cache, and the schemas that \<open>src/session_manager/router.rs\<close> and
  \<open>src/mcp/server.rs\<close> publish.
\<close>

section \<open>Decoding keeps well-formedness\<close>

abbreviation tool_typed :: "ToolDescriptor \<Rightarrow> bool" where
  "tool_typed t \<equiv> wf_json (td_input_schema t)"

lemma struct_map_wf: "struct_map fs v = Some m \<Longrightarrow> wf_json v \<Longrightarrow> e \<in> set m \<Longrightarrow> wf_json (snd e)"
  by (cases v; cases e) (auto split: if_splits dest: set_zip_rightD)

lemma field_wf: "struct_map fs v = Some m \<Longrightarrow> wf_json v \<Longrightarrow> map_of m k = Some x \<Longrightarrow> wf_json x"
  using struct_map_wf map_of_SomeD by fastforce

lemma decode_tool_typed: "decode_tool v = Some t \<Longrightarrow> wf_json v \<Longrightarrow> tool_typed t"
  by (auto simp: decode_tool_def field_req_def bind_eq_Some_conv dest: field_wf)

lemma dec_all_elem: "dec_all d xs = Some as \<Longrightarrow> a \<in> set as \<Longrightarrow> \<exists>x \<in> set xs. d x = Some a"
  by (induction xs arbitrary: as) (auto simp: bind_eq_Some_conv)

lemma decode_tools_typed:
  assumes "field_req (dec_list decode_tool) k m = Some ts" "struct_map fs v = Some m" "wf_json v" "t \<in> set ts"
  shows "tool_typed t"
proof -
  from assms(1) obtain x xs where x: "map_of m k = Some x" "as_array x = Some xs" "dec_all decode_tool xs = Some ts"
    by (auto simp: field_req_def dec_list_def bind_eq_Some_conv)
  then have "wf_json (JArray xs)" using field_wf [OF assms(2,3) x(1)] by (cases x) auto
  with dec_all_elem [OF x(3) assms(4)] decode_tool_typed show ?thesis by auto
qed

lemma decode_register_typed: "decode_register v = Some p \<Longrightarrow> wf_json v \<Longrightarrow> t \<in> set (rp_tools p) \<Longrightarrow> tool_typed t"
  by (auto simp: decode_register_def bind_eq_Some_conv dest: decode_tools_typed)

lemma decode_tools_changed_typed: "decode_tools_changed v = Some p \<Longrightarrow> wf_json v \<Longrightarrow> t \<in> set (tc_tools p) \<Longrightarrow> tool_typed t"
  by (auto simp: decode_tools_changed_def bind_eq_Some_conv dest: decode_tools_typed)

lemma params_wf: "wf_json (JObject obj) \<Longrightarrow> wf_json (unwrap_or JNull (map_of obj k))"
  by (cases "map_of obj k") (auto dest!: map_of_SomeD)

lemma from_value_wf:
  assumes "from_value v = Ok m" "wf_json v"
  shows "\<And>i meth ps. m = Request i meth ps \<Longrightarrow> wf_json ps" "\<And>meth ps. m = Notification meth ps \<Longrightarrow> wf_json ps"
  using assms params_wf
  by (auto simp: from_value_def Let_def simp del: wf_json.simps split: json.splits if_splits option.splits bool.splits sum.splits)

section \<open>The registry keeps well-typed tools\<close>

definition record_tools :: "(ToolDescriptor \<Rightarrow> bool) \<Rightarrow> (string, SessionRecord) hash_map \<Rightarrow> bool" where
  "record_tools P m \<longleftrightarrow> (\<forall>e \<in> set m. \<forall>t \<in> set (sr_tools (snd e)). P t)"

definition all_tools :: "(ToolDescriptor \<Rightarrow> bool) \<Rightarrow> SessionRegistry \<Rightarrow> bool" where
  "all_tools P r \<longleftrightarrow> record_tools P (reg_inner r) \<and> reg_cached P r"

lemma set_hm_del_subset: "set (hm_del k m) \<subseteq> set m"
  by (auto simp: hm_del_def)

lemma set_fold_hm_del: "set (fold hm_del ks m) \<subseteq> set m"
proof (induction ks arbitrary: m)
  case (Cons k ks)
  from Cons.IH [of "hm_del k m"] set_hm_del_subset [of k m] show ?case by auto
qed simp

lemma record_tools_subset: "record_tools P m \<Longrightarrow> set m' \<subseteq> set m \<Longrightarrow> record_tools P m'"
  by (auto simp: record_tools_def)

lemma record_tools_put: "record_tools P m \<Longrightarrow> \<forall>t \<in> set (sr_tools q). P t \<Longrightarrow> record_tools P (hm_put k q m)"
  using set_hm_put [of k q m] by (auto simp: record_tools_def)

lemma record_tools_found: "record_tools P m \<Longrightarrow> map_of m k = Some q \<Longrightarrow> \<forall>t \<in> set (sr_tools q). P t"
  by (auto simp: record_tools_def dest!: map_of_SomeD)

lemmas record_tools_ops = record_tools_put record_tools_subset [OF _ set_hm_del_subset] record_tools_subset [OF _ set_fold_hm_del]

lemma all_tools_apply:
  assumes "all_tools P r" "\<forall>t \<in> set (op_tools op). P t"
  shows "all_tools P (reg_apply r op)"
proof -
  have c: "reg_cached P (reg_apply r op)"
    using assms by (intro reg_cached_apply) (auto simp: all_tools_def public_tools_def)
  have m: "record_tools P (reg_inner r)" using assms(1) by (simp add: all_tools_def)
  have "record_tools P (reg_inner (reg_apply r op))"
  proof (cases op)
    case (Op_Register env p now cn)
    with m assms(2) show ?thesis
      by (auto simp: register_with_generation_def admit_session_def next_generation_def new_dispatcher_def Let_def
          new_record_def reconnect_record_def intro!: record_tools_put split: option.splits SessionState.splits)
  next
    case (Op_Update env sid ts)
    with m assms(2) show ?thesis by (auto simp: update_tools_def intro!: record_tools_put split: option.splits)
  qed (use m record_tools_found [OF m] in \<open>auto simp: bump_last_call_def mark_disconnected_def mark_disconnected_if_generation_def
      disconnect_when_def disconnect_record_def reg_remove_def remove_if_generation_def remove_when_def sweep_inner
      intro!: record_tools_ops split: option.splits\<close>)
  with c show ?thesis by (simp add: all_tools_def)
qed


lemma all_tools_cong: "reg_inner r' = reg_inner r \<Longrightarrow> reg_cache r' = reg_cache r \<Longrightarrow> all_tools P r' = all_tools P r"
  by (simp add: all_tools_def reg_cached_def)

lemma all_tools_upd [simp]:
  "all_tools P (r\<lparr>reg_conns := cs\<rparr>) = all_tools P r" "all_tools P (r\<lparr>reg_disps := ds\<rparr>) = all_tools P r"
  "all_tools P (as_registry (tx_send c m s)) = all_tools P (as_registry s)"
  "all_tools P (as_registry (send_error c i code msg s)) = all_tools P (as_registry s)"
  by (rule all_tools_cong, simp_all add: send_error_def)+

lemma all_tools_drain [simp]: "all_tools P (drain_record rec r) = all_tools P r"
  by (rule all_tools_cong) (simp_all add: drain_record_def)

lemma all_tools_operations:
  assumes "all_tools P r"
  shows "\<forall>t \<in> set (rp_tools p). P t \<Longrightarrow> all_tools P (snd (register_with_generation env p now cn r))"
    "\<forall>t \<in> set ts. P t \<Longrightarrow> all_tools P (snd (update_tools env sid ts r))"
    "all_tools P (snd (mark_disconnected_if_generation sid g now r))" "all_tools P (snd (remove_if_generation sid g r))"
    "all_tools P (snd (bump_last_call sid now r))" "all_tools P (snd (sweep_expired_disconnects now grace r))"
  using all_tools_apply [OF assms, of "Op_Register env p now cn"] all_tools_apply [OF assms, of "Op_Update env sid ts"]
    all_tools_apply [OF assms, of "Op_Disconnect_Gen sid g now"] all_tools_apply [OF assms, of "Op_Remove_Gen sid g"]
    all_tools_apply [OF assms, of "Op_Bump sid now"] all_tools_apply [OF assms, of "Op_Sweep now grace"] by simp_all

section \<open>Whatever the clients send\<close>

text \<open>
  The JSON parser builds its objects as maps: their keys are distinct and ordered. An event is
  typed if the parser of its frame does so.
\<close>

fun typed_event :: "manager_event \<Rightarrow> bool" where
  "typed_event (Me_Frame env c f) \<longleftrightarrow> (\<forall>t v. te_parse env t = Some v \<longrightarrow> wf_json v)"
| "typed_event _ \<longleftrightarrow> True"

abbreviation app_typed :: "AppState \<Rightarrow> bool" where
  "app_typed s \<equiv> all_tools tool_typed (as_registry s)"

lemma gate_tools_typed: "\<forall>t \<in> set ts. tool_typed t \<Longrightarrow> \<forall>t \<in> set (gate_tools gate ts). tool_typed t"
  by (auto simp: gate_tools_def normalize_tools_def split: option.split)

lemma app_typed_register:
  assumes "app_typed s" "wf_json params"
  shows "app_typed (handle_register env c i params s)"
proof (cases "decode_register params")
  case (Some p)
  then have "\<forall>t \<in> set (gate_tools (as_gate s) (rp_tools p)). tool_typed t"
    using decode_register_typed assms(2) by (intro gate_tools_typed) blast
  then have "all_tools tool_typed (snd (register_with_generation (te_cache env)
      (p\<lparr>rp_tools := gate_tools (as_gate s) (rp_tools p), rp_database_key := key\<rparr>) now cn (as_registry s)))" for key now cn
    using assms(1) by (intro all_tools_operations) simp_all
  with Some assms(1) show ?thesis
    by (auto simp: handle_register_def Let_def split_beta split: sum.split RegisterError.split)
qed (use assms in \<open>simp add: handle_register_def\<close>)

lemma app_typed_bye: "app_typed s \<Longrightarrow> app_typed (handle_bye c i s)"
  by (auto simp: handle_bye_def Let_def all_tools_operations split: option.split)

lemma app_typed_notification: "app_typed s \<Longrightarrow> wf_json params \<Longrightarrow> app_typed (handle_notification env c meth params s)"
  using decode_tools_changed_typed
  by (auto simp: handle_notification_def intro!: all_tools_operations gate_tools_typed split: option.split)

lemma app_typed_dispatch:
  assumes "app_typed s" "from_value v = Ok m" "wf_json v"
  shows "app_typed (snd (transport_dispatch env c m s))"
proof (cases m)
  case (Request i meth ps)
  with from_value_wf(1) [OF assms(2,3)] assms(1) show ?thesis
    by (simp add: handle_request_def app_typed_register app_typed_bye)
next
  case (Notification meth ps)
  with from_value_wf(2) [OF assms(2,3)] assms(1) show ?thesis by (simp add: app_typed_notification)
next
  case (Response i a)
  then show ?thesis using assms(1) by (simp add: handle_response_def Let_def)
qed

lemma app_typed_step: "app_typed s \<Longrightarrow> typed_event e \<Longrightarrow> app_typed (manager_step s e)"
proof (cases e)
  case (Me_Frame env c f)
  assume "app_typed s" "typed_event e"
  with Me_Frame show ?thesis
    by (auto simp: reader_step_def wire_parse_def intro: app_typed_dispatch
        split: ws_frame.split ws_message.split sum.splits option.splits)
next
  case (Me_Close now c)
  assume "app_typed s"
  with Me_Close show ?thesis
    by (auto simp: close_connection_def Let_def intro!: all_tools_operations split: option.split)
qed (auto simp: open_connection_def grace_sweep_def shutdown_finish_def intro!: all_tools_operations)

lemma app_typed_run: "app_typed s \<Longrightarrow> \<forall>e \<in> set es. typed_event e \<Longrightarrow> app_typed (manager_run s es)"
  unfolding manager_run_def by (induction es arbitrary: s) (simp_all add: app_typed_step)

section \<open>Published schemas\<close>

text \<open>A schema that asks for the session, and the schema of a listed tool: one of these, or a choice between at least two.\<close>

definition asks_session :: "json \<Rightarrow> bool" where
  "asks_session s \<longleftrightarrow> wf_json s \<and> jget ''type'' s \<noteq> None \<and>
     (\<exists>ids. Option.bind (jget ''properties'' s) (jget ''session_id'') = Some (selector_schema ids))"

definition tool_well_typed :: "mcp_tool \<Rightarrow> bool" where
  "tool_well_typed t \<longleftrightarrow> (let s = JObject (mt_input_schema t) in
     asks_session s \<or>
     (wf_json s \<and> jget ''type'' s = Some (JString ''object'') \<and>
      (\<exists>vs. jget ''oneOf'' s = Some (JArray vs) \<and> 2 \<le> length vs \<and> (\<forall>v \<in> set vs. asks_session v))))"

lemma selector_as_object:
  "input_schema_with_session_selector s ids req = input_schema_with_session_selector (JObject (unwrap_or [] (as_object s))) ids req"
  by (simp add: input_schema_with_session_selector_def)

lemma selector_type: "jget ''type'' (input_schema_with_session_selector s ids req) \<noteq> None"
  by (simp add: input_schema_with_session_selector_def Let_def jget_def bm_put_get or_insert_get)

lemma selector_object: "\<exists>m. input_schema_with_session_selector s ids req = JObject m"
  by (simp add: input_schema_with_session_selector_def Let_def)

lemma selector_asks: "wf_json s \<Longrightarrow> asks_session (input_schema_with_session_selector s ids req)"
proof -
  assume "wf_json s"
  note h = published_schema_has_selector [OF wf_as_object [OF this] refl, of ids req, folded selector_as_object]
  show ?thesis
    unfolding asks_session_def using h [THEN conjunct1] h [THEN conjunct2, THEN conjunct1] selector_type [of s ids req] by blast
qed


text \<open>The schemas that the grouping collects come from the tools.\<close>

definition bucket_typed :: "(string, GroupAccumulator) hash_map \<Rightarrow> bool" where
  "bucket_typed b \<longleftrightarrow> b \<noteq> [] \<and> (\<forall>e \<in> set b. wf_json (ga_input_schema (snd e)))"

definition groups_typed :: "tool_groups \<Rightarrow> bool" where
  "groups_typed groups \<longleftrightarrow> (\<forall>e \<in> set groups. bucket_typed (snd e))"

lemma bucket_typed_put:
  "b = [] \<or> bucket_typed b \<Longrightarrow> wf_json (ga_input_schema acc) \<Longrightarrow> bucket_typed (hm_put h acc b)"
  using set_hm_put [of h acc b] by (cases b) (auto simp: bucket_typed_def)

lemma groups_typed_found: "groups_typed groups \<Longrightarrow> map_of groups n = Some b \<Longrightarrow> bucket_typed b"
  by (auto simp: groups_typed_def dest!: map_of_SomeD)

lemma group_tool_typed:
  assumes "groups_typed groups" "tool_typed t"
  shows "groups_typed (group_tool hash rec t groups)"
proof (cases "is_public (td_visibility t)")
  case True
  define h where "h = schema_hash hash (td_input_schema t)"
  define grp where "grp = unwrap_or [] (map_of groups (td_name t))"
  define acc where "acc = unwrap_or \<lparr>ga_description = td_description t, ga_input_schema = td_input_schema t,
       ga_session_ids = [], ga_kinds = []\<rparr> (map_of grp h)"
  define acc' where "acc' = acc\<lparr>ga_session_ids := ga_session_ids acc @ [sr_session_id rec],
       ga_kinds := push_new (sr_kind rec) (ga_kinds acc)\<rparr>"
  have g: "group_tool hash rec t groups = hm_put (td_name t) (hm_put h acc' grp) groups"
    using True by (simp add: group_tool_def Let_def h_def grp_def acc_def acc'_def)
  have grp: "grp = [] \<or> bucket_typed grp"
    using groups_typed_found [OF assms(1)] by (cases "map_of groups (td_name t)") (auto simp: grp_def)
  then have "wf_json (ga_input_schema acc')"
    using assms(2) by (cases "map_of grp h") (auto simp: acc'_def acc_def bucket_typed_def dest!: map_of_SomeD)
  then have "bucket_typed (hm_put h acc' grp)" by (rule bucket_typed_put [OF grp])
  with assms(1) have "\<forall>e \<in> insert (td_name t, hm_put h acc' grp) (set groups). bucket_typed (snd e)"
    by (simp add: groups_typed_def)
  with set_hm_put [of "td_name t" "hm_put h acc' grp" groups] show ?thesis
    unfolding g groups_typed_def by blast
qed (use assms in \<open>simp add: group_tool_def\<close>)

lemma group_record_typed:
  assumes "groups_typed groups" "\<forall>t \<in> set (sr_tools rec). tool_typed t"
  shows "groups_typed (group_record hash rec groups)"
proof -
  have "groups_typed (fold (group_tool hash rec) ts groups)" if "groups_typed groups" "\<forall>t \<in> set ts. tool_typed t" for ts groups
    using that by (induction ts arbitrary: groups) (simp_all add: group_tool_typed)
  with assms show ?thesis by (simp add: group_record_def)
qed

lemma group_tools_typed: "record_tools tool_typed (reg_inner r) \<Longrightarrow> groups_typed (group_tools hash r)"
proof -
  have "groups_typed (fold (group_record hash) recs groups)"
    if "groups_typed groups" "\<forall>rec \<in> set recs. \<forall>t \<in> set (sr_tools rec). tool_typed t" for recs groups
    using that by (induction recs arbitrary: groups) (simp_all add: group_record_typed)
  moreover have "groups_typed []" by (simp add: groups_typed_def)
  ultimately show "record_tools tool_typed (reg_inner r) \<Longrightarrow> groups_typed (group_tools hash r)"
    by (simp add: group_tools_def reg_snapshot_def record_tools_def)
qed

lemma slot_typed:
  assumes "bucket_typed b" "mt_input_schema t = unwrap_or [] (as_object (ps_input_schema (make_slot hash n b)))"
  shows "tool_well_typed t"
proof -
  define vs where "vs = sort_key fst b"
  have vs: "set vs = set b" "length vs = length b" by (simp_all add: vs_def)
  show ?thesis
  proof (cases "\<exists>h acc. vs = [(h, acc)]")
    case True
    then obtain h acc where one: "vs = [(h, acc)]" by blast
    then have "(h, acc) \<in> set b" using vs(1) by auto
    then have "wf_json (ga_input_schema acc)" using assms(1) by (force simp: bucket_typed_def)
    moreover from one obtain ids req where "ps_input_schema (make_slot hash n b) = input_schema_with_session_selector (ga_input_schema acc) ids req"
      unfolding make_slot_def Let_def vs_def [symmetric] by simp
    ultimately show ?thesis
      using assms(2) selector_object [of "ga_input_schema acc" ids req] selector_asks [of "ga_input_schema acc" ids req]
      by (auto simp: tool_well_typed_def Let_def)
  next
    case False
    then obtain v1 v2 vs' where many: "vs = v1 # v2 # vs'"
      using assms(1) vs(2) by (metis bucket_typed_def length_0_conv neq_Nil_conv surj_pair)
    define alts where "alts = map (\<lambda>v. input_schema_with_session_selector (ga_input_schema (snd v)) (sort (ga_session_ids (snd v))) True) vs"
    have s: "ps_input_schema (make_slot hash n b) = jobj [(''type'', JString ''object''), (''oneOf'', JArray alts)]"
      unfolding make_slot_def Let_def vs_def [symmetric] alts_def using many by (simp split: list.split prod.split)
    have alts: "\<forall>v \<in> set alts. asks_session v" using assms(1) vs(1) selector_asks by (force simp: alts_def bucket_typed_def)
    then have "wf_json (JArray alts)" by (auto simp: asks_session_def)
    then have "wf_json (jobj [(''type'', JString ''object''), (''oneOf'', JArray alts)])" by (intro wf_json_jobj) simp
    moreover have "2 \<le> length alts" by (simp add: alts_def many)
    ultimately show ?thesis
      using assms(2) alts by (simp add: s tool_well_typed_def Let_def jobj_def jget_def del: wf_json.simps)
  qed
qed

lemma cached_tool_typed: "tool_typed t \<Longrightarrow> tool_well_typed (cached_tool e t)"
  using selector_object [of "td_input_schema t" "[]" False] selector_asks [of "td_input_schema t" "[]" False]
  by (auto simp: tool_well_typed_def cached_tool_def Let_def)

lemma cache_read_typed:
  assumes "reg_cached tool_typed r" "e \<in> set (fst (cache_read sd now r))" "t \<in> set (ce_tools e)"
  shows "tool_typed t"
  using assms
  by (auto simp: cache_read_def reg_cached_def cached_tools_def cache_list_all_def Let_def sorted_entries_def evict_inner hm_retain_def
      split: option.splits if_splits)

text \<open>
  C15: every tool that agents are shown has a well-typed schema. Whatever frames, closings,
  sweeps and shutdowns happen, as long as the JSON parser returns objects with ordered, distinct
  keys and the cache starts with such schemas: every listed tool that is not built in has an
  object as its schema, ordered throughout, that asks for the \<open>session_id\<close>; or, if its sessions disagree
  on the schema, it is a choice of at least two schemas of that kind. A client's schema of any other shape never gets through.
\<close>

theorem listed_tools_are_well_typed:
  assumes "\<forall>e \<in> set es. typed_event e" "\<forall>c. cache = Some c \<longrightarrow> cache_inv c \<and> cached_tools tool_typed c"
  shows "\<forall>t \<in> set (fst (list_all_tools_inner builtin hash sd now (as_registry (manager_run (manager_start cache gate) es)))).
     t \<in> set builtin \<or> tool_well_typed t"
proof -
  let ?r = "as_registry (manager_run (manager_start cache gate) es)"
  have "app_typed (manager_start cache gate)"
    using assms(2) by (auto simp: manager_start_def all_tools_def record_tools_def registry_new_def reg_cached_def split: option.split)
  from app_typed_run [OF this assms(1)] have typed: "record_tools tool_typed (reg_inner ?r)" "reg_cached tool_typed ?r"
    by (simp_all add: all_tools_def)
  have live: "tool_well_typed t" if "t \<in> set (proxy_tools (build_proxy_view hash ?r))" for t
  proof -
    from that obtain n b where b: "map_of (group_tools hash ?r) n = Some b"
      "mt_input_schema t = unwrap_or [] (as_object (ps_input_schema (make_slot hash n b)))"
      by (auto simp: proxy_tools_def published_slot)
    from groups_typed_found [OF group_tools_typed [OF typed(1)] b(1)] b(2) show ?thesis by (rule slot_typed)
  qed
  let ?items = "cache_items (fst (cache_read sd now ?r))" and ?live = "proxy_tools (build_proxy_view hash ?r)"
  from fold_add_cached [of ?items "map mt_name (builtin @ ?live)" "builtin @ ?live"] obtain extra where
    x: "fst (list_all_tools_inner builtin hash sd now ?r) = builtin @ ?live @ extra" "set extra \<subseteq> case_prod cached_tool ` public_items (set ?items)"
    by (auto simp: list_all_tools_inner_def Let_def split_beta appended_def)
  have "tool_well_typed t" if "t \<in> set extra" for t
  proof -
    from that x(2) obtain e t0 where t: "t = cached_tool e t0" "(e, t0) \<in> set ?items" by (auto simp: public_items_def)
    then show ?thesis unfolding set_cache_items using cache_read_typed [OF typed(2)] cached_tool_typed by blast
  qed
  with live show ?thesis unfolding x(1) by auto
qed

theorem listed_tools_are_well_typed_witness:
  "let c = snd (upsert time_serde 5 5 ''va'' ''va'' [sample_tool ''find''] sample_store) in
   \<exists>t \<in> set (fst (list_all_tools_inner [] (\<lambda>_. ''h'') time_serde 5 (as_registry (manager_run (manager_start (Some c) None) [Me_Open 0])))).
     mt_name t = ''find'' \<and> tool_well_typed t"
proof -
  let ?c = "snd (upsert time_serde 5 5 ''va'' ''va'' [sample_tool ''find''] sample_store)"
  let ?e = "\<lparr>ce_kind = ''va'', ce_config_id = ''va'', ce_tools = [sample_tool ''find''], ce_last_seen_at = 5\<rparr>"
  let ?l = "fst (list_all_tools_inner [] (\<lambda>_. ''h'') time_serde 5 (as_registry (manager_run (manager_start (Some ?c) None) [Me_Open 0])))"
  have empty: "tc_inner sample_store = []" by (simp add: sample_store_def load_or_empty_def load_from_disk_def)
  have i: "tc_inner ?c = [((''va'', ''va''), ?e)]" by (simp add: upsert_live(2) [OF sample_store_live] empty)
  have "tool_typed (sample_tool ''find'')" by (simp add: sample_tool_def bm_ok_def)
  then have "cache_inv ?c \<and> cached_tools tool_typed ?c" by (simp add: cache_inv_def cached_tools_def i hm_ok_def entry_key_def)
  from listed_tools_are_well_typed [of "[Me_Open 0]" "Some ?c" "[]" "\<lambda>_. ''h''" time_serde 5 None] this
  have typed: "\<forall>t \<in> set ?l. tool_well_typed t" by simp
  have live: "cache_live 5 ?c" by (rule upsert_live(1) [OF sample_store_live])
  have r: "as_registry (manager_run (manager_start (Some ?c) None) [Me_Open 0]) =
      registry_new\<lparr>reg_cache := Some ?c, reg_conns := (reg_conns registry_new)(0 := conn_new)\<rparr>"
    by (simp add: manager_run_def open_connection_def manager_start_def)
  have "fst (cache_list_all time_serde 5 ?c) = [?e]"
    using live by (simp add: cache_list_all_def Let_def cache_live_def sorted_entries_def evict_inner hm_retain_def i)
  then have "cache_items (fst (cache_read time_serde 5 (as_registry (manager_run (manager_start (Some ?c) None) [Me_Open 0])))) = [(?e, sample_tool ''find'')]"
    unfolding r by (simp add: cache_read_def cache_items_def)
  moreover have "proxy_tools (build_proxy_view (\<lambda>_. ''h'') (as_registry (manager_run (manager_start (Some ?c) None) [Me_Open 0]))) = []"
    unfolding r by (simp add: proxy_tools_def build_proxy_view_def group_tools_def reg_snapshot_def registry_new_def)
  ultimately have "?l = [cached_tool ?e (sample_tool ''find'')]"
    unfolding list_all_tools_inner_def Let_def split_beta by (simp add: sample_tool_def)
  then have "\<exists>t \<in> set ?l. mt_name t = ''find''" by (simp add: cached_tool_def sample_tool_def)
  with typed show ?thesis by (auto simp: Let_def)
qed

end
