(* ===== verification/Session_Time.thy ===== *)
theory Session_Time
  imports Transport
begin

text \<open>
  The life of a session over all connections and over time: every event of the transport
  (\<open>src/session_manager/transport.rs\<close>) makes each session id take a step of its abstract life, and the
  grace sweeper (\<open>run_grace_sweeper\<close>) ends a lost session in time and not before.
\<close>

section \<open>Every event is a step of the abstract life\<close>

lemma phase_cong: "map_of (reg_inner r') sid = map_of (reg_inner r) sid \<Longrightarrow> phase r' sid = phase r sid"
  by (simp add: phase_def)

lemma inner_disconnect_conns:
  "reg_inner (snd (mark_disconnected_if_generation sid g now (r\<lparr>reg_conns := cs\<rparr>))) =
   reg_inner (snd (mark_disconnected_if_generation sid g now r))"
  by (simp add: mark_disconnected_if_generation_def disconnect_when_def Let_def drain_record_def split: option.split)

lemma inner_remove_drained:
  "reg_inner (snd (remove_if_generation sid g (drain_record rec r))) = reg_inner (snd (remove_if_generation sid g r))"
  by (simp add: remove_if_generation_def remove_when_def drain_record_def split: option.split)

text \<open>What an event does to the records is one operation of the registry, or nothing.\<close>

definition one_operation :: "SessionRegistry \<Rightarrow> SessionRegistry \<Rightarrow> bool" where
  "one_operation r r' \<longleftrightarrow> reg_inner r' = reg_inner r \<or> (\<exists>op. reg_inner r' = reg_inner (reg_apply r op))"

lemma one_operation_intros:
  "reg_inner r' = reg_inner r \<Longrightarrow> one_operation r r'" "reg_inner r' = reg_inner (reg_apply r op) \<Longrightarrow> one_operation r r'"
  by (auto simp: one_operation_def)

lemma one_operation_register: "one_operation (as_registry s) (as_registry (handle_register env c i params s))"
proof -
  obtain p now cn env' where "reg_inner (as_registry (handle_register env c i params s)) = reg_inner (as_registry s) \<or>
      reg_inner (as_registry (handle_register env c i params s)) =
         reg_inner (snd (register_with_generation env' p now cn (as_registry s)))"
    using handle_register_registry [of s env c i params] by blast
  then show ?thesis
    using one_operation_intros(2) [of _ "as_registry s" "Op_Register env' p now cn"] one_operation_intros(1) by auto
qed

lemma one_operation_dispatch: "one_operation (as_registry s) (as_registry (snd (transport_dispatch env c m s)))"
proof (cases m)
  case (Request i meth ps)
  have "one_operation (as_registry s) (as_registry (handle_bye c i s))"
    using handle_bye_registry(1) [of c i s]
    by (auto intro: one_operation_intros(1) one_operation_intros(2) [where op = "Op_Remove_Gen sid g" for sid g])
  then show ?thesis
    by (auto simp: Request handle_request_def send_error_def one_operation_register intro: one_operation_intros(1))
next
  case (Notification meth ps)
  then show ?thesis
    by (auto simp: handle_notification_def intro: one_operation_intros(1) one_operation_intros(2) [where op = "Op_Update e sid ts" for e sid ts]
        split: option.split)
next
  case (Response i a)
  then show ?thesis by (auto simp: handle_response_def Let_def intro: one_operation_intros(1))
qed

lemma one_operation_step: "one_operation (as_registry s) (as_registry (manager_step s e))"
proof (cases e)
  case (Me_Frame env c f)
  then show ?thesis
    by (auto simp: reader_step_def send_error_def one_operation_dispatch intro: one_operation_intros(1)
        split: ws_frame.split ws_message.split sum.split)
next
  case (Me_Open c)
  then show ?thesis by (auto simp: open_connection_def intro: one_operation_intros(1))
next
  case (Me_Close now c)
  then show ?thesis
    by (auto simp: close_connection_def Let_def inner_disconnect_conns intro: one_operation_intros(1)
        one_operation_intros(2) [where op = "Op_Disconnect_Gen sid g now" for sid g] split: option.split)
next
  case (Me_Sweep cfg now)
  then show ?thesis
    by (auto simp: grace_sweep_def intro: one_operation_intros(2) [where op = "Op_Sweep now t" for t])
next
  case (Me_Bump sid now)
  then show ?thesis by (auto intro: one_operation_intros(2) [where op = "Op_Bump sid now"])
next
  case (Me_Shutdown sid rec out)
  then show ?thesis
    by (auto simp: shutdown_finish_def inner_remove_drained
        intro: one_operation_intros(2) [where op = "Op_Remove_Gen sid (sr_generation rec)"])
qed

lemma phase_step:
  assumes "reg_inv (as_registry s)"
  shows "life_step (last_generation (as_registry s)) (phase (as_registry s) sid) (phase (as_registry (manager_step s e)) sid)"
proof -
  from one_operation_step [of s e] obtain op where
    "reg_inner (as_registry (manager_step s e)) = reg_inner (as_registry s) \<or>
     reg_inner (as_registry (manager_step s e)) = reg_inner (reg_apply (as_registry s) op)"
    unfolding one_operation_def by blast
  then have "phase (as_registry (manager_step s e)) sid = phase (as_registry s) sid \<or>
      phase (as_registry (manager_step s e)) sid = phase (reg_apply (as_registry s) op) sid"
    by (auto intro: phase_cong)
  with phase_apply [OF assms, of sid op] show ?thesis by (auto intro: life_stay)
qed

text \<open>A run, one event longer, and the invariant along it.\<close>

lemma run_Suc: "n < length es \<Longrightarrow> manager_run s (take (Suc n) es) = manager_step (manager_run s (take n es)) (es ! n)"
  by (simp add: manager_run_def take_Suc_conv_app_nth)

lemma run_inv:
  assumes "reg_inv (as_registry s)" "unat (last_generation (as_registry s)) + length es < 2 ^ 64"
  shows "reg_inv (as_registry (manager_run s (take n es)))"
  using assms by (intro manager_run_inv) auto

lemma generation_after:
  assumes "reg_inv (as_registry s)" "unat (last_generation (as_registry s)) + length es < 2 ^ 64" "n \<le> length es"
  shows "unat (last_generation (as_registry (manager_run s (take n es)))) \<le> unat (last_generation (as_registry s)) + n"
  using assms(3)
proof (induction n)
  case (Suc n)
  let ?r = "as_registry (manager_run s (take n es))"
  have "last_generation ?r \<noteq> -1"
    using Suc assms(2) by (auto simp: unsigned_minus_1_eq_mask mask_eq_exp_minus_1)
  then have "reg_next ?r (as_registry (manager_run s (take (Suc n) es)))"
    using Suc.prems reg_next_step [OF run_inv [OF assms(1,2)]] by (simp add: run_Suc)
  then show ?case using Suc unat_succ_le [of "last_generation ?r"] by (auto simp: reg_next_def)
qed (simp add: manager_run_def)

lemma live_generation_bound: "reg_inv r \<Longrightarrow> phase r sid = Live g \<Longrightarrow> 0 < g \<and> g \<le> last_generation r"
  using reg_inv_rec [of r sid]
  by (auto simp: phase_def rec_phase_def rec_inv_def split: option.splits SessionState.splits)



section \<open>The grace period\<close>

definition grace_ms :: "TransportConfig \<Rightarrow> duration" where
  "grace_ms cfg = unat (tf_reconnection_grace_secs cfg) * 1000"

text \<open>The time of the \<open>k\<close>-th tick of the sweeper that was started at \<open>t0\<close>; the first tick is immediate.\<close>

definition sweep_tick :: "TransportConfig \<Rightarrow> instant \<Rightarrow> nat \<Rightarrow> instant" where
  "sweep_tick cfg t0 k = t0 + k * (sweep_interval_secs cfg * 1000)"

lemma sweep_interval_pos: "0 < sweep_interval_secs cfg * 1000"
  by (simp add: sweep_interval_secs_def clamp_def)

lemma tick_in_window:
  assumes "t0 < w + sweep_interval_secs cfg * 1000"
  shows "\<exists>k. w \<le> sweep_tick cfg t0 k \<and> sweep_tick cfg t0 k < w + sweep_interval_secs cfg * 1000"
proof -
  let ?i = "sweep_interval_secs cfg * 1000" and ?P = "\<lambda>k. w \<le> sweep_tick cfg t0 k"
  have "w \<le> w * ?i" using sweep_interval_pos [of cfg] by (metis Suc_leI mult.right_neutral mult_le_mono2 One_nat_def)
  then have ex: "?P w" unfolding sweep_tick_def by (rule trans_le_add2)
  define k where "k = (LEAST k. ?P k)"
  have k: "?P k" unfolding k_def using ex by (rule LeastI)
  show ?thesis
  proof (cases k)
    case 0
    with k assms show ?thesis by (intro exI [of _ 0]) (simp add: sweep_tick_def)
  next
    case (Suc j)
    then have "\<not> ?P j" unfolding k_def using not_less_Least [of j ?P] by simp
    then have "sweep_tick cfg t0 k < w + ?i" by (simp add: Suc sweep_tick_def)
    with k show ?thesis by blast
  qed
qed

lemma sweep_ends_grace:
  assumes "reg_inv (as_registry s)" "phase (as_registry s) sid = Grace d"
  shows "phase (as_registry (manager_step s (Me_Sweep cfg now))) sid = (if grace_ms cfg \<le> now - d then Absent else Grace d)"
proof -
  from assms(2) obtain rec where rec: "map_of (reg_inner (as_registry s)) sid = Some rec"
    by (auto simp: phase_def split: option.splits)
  with assms have st: "sr_state rec = Sess_Disconnected"
    by (cases "sr_state rec") (auto simp: phase_def rec_phase_def)
  from reg_inv_rec [OF assms(1) rec] st have "sr_disconnected_at rec \<noteq> None" by (simp add: rec_inv_def)
  with assms(2) rec st have at: "sr_disconnected_at rec = Some d" by (auto simp: phase_def rec_phase_def)
  show ?thesis
    using sweep_lookup (1) [OF assms(1), where now = now and grace = "grace_ms cfg" and sid = sid] rec st at assms(2)
    by (auto simp: grace_sweep_def grace_ms_def phase_def grace_expired_def)
qed

lemma grace_until_settled:
  assumes "reg_inv (as_registry s)" "unat (last_generation (as_registry s)) + length es < 2 ^ 64"
    and "phase (as_registry s) sid = Grace d" "n \<le> length es"
    and "\<forall>m \<le> n. \<exists>d'. phase (as_registry (manager_run s (take m es))) sid = Grace d'"
  shows "phase (as_registry (manager_run s (take n es))) sid = Grace d"
  using assms(4,5)
proof (induction n)
  case (Suc n)
  let ?s = "manager_run s (take n es)"
  have "phase (as_registry ?s) sid = Grace d" using Suc by simp
  moreover obtain d' where "phase (as_registry (manager_run s (take (Suc n) es))) sid = Grace d'" using Suc.prems(2) by blast
  moreover have "life_step (last_generation (as_registry ?s)) (phase (as_registry ?s) sid)
      (phase (as_registry (manager_run s (take (Suc n) es))) sid)"
    using Suc.prems(1) phase_step [OF run_inv [OF assms(1,2)]] by (simp add: run_Suc)
  ultimately show ?case by (auto simp: life_step_grace)
qed (simp add: assms(3) manager_run_def)

text \<open>
  C16: a lost session waits for its client exactly as long as it should. A session
  that was lost at time \<open>d\<close> survives every sweep before its grace period is over. If the
  sweeper, started at \<open>t0\<close>, makes its ticks on time, then, whatever other frames,
  closings and shutdowns happen in between, the session has come back or is gone by the end of the grace period plus
  one sweep interval, which is at most thirty seconds.
\<close>

theorem lost_session_is_settled_in_time:
  assumes "reg_inv (as_registry s)" "unat (last_generation (as_registry s)) + length es < 2 ^ 64"
    and "phase (as_registry s) sid = Grace d" "t0 < d + grace_ms cfg + sweep_interval_secs cfg * 1000"
    and "\<forall>k. sweep_tick cfg t0 k < d + grace_ms cfg + sweep_interval_secs cfg * 1000 \<longrightarrow> Me_Sweep cfg (sweep_tick cfg t0 k) \<in> set es"
  shows "(\<exists>n \<le> length es. \<forall>d'. phase (as_registry (manager_run s (take n es))) sid \<noteq> Grace d') \<and>
    sweep_interval_secs cfg \<le> 30 \<and>
    (\<forall>now. d \<le> now \<and> now < d + grace_ms cfg \<longrightarrow> phase (as_registry (manager_step s (Me_Sweep cfg now))) sid = Grace d)"
proof -
  obtain k where k: "d + grace_ms cfg \<le> sweep_tick cfg t0 k" "sweep_tick cfg t0 k < d + grace_ms cfg + sweep_interval_secs cfg * 1000"
    using tick_in_window [OF assms(4)] by blast
  with assms(5) have "Me_Sweep cfg (sweep_tick cfg t0 k) \<in> set es" by blast
  then obtain n where n: "n < length es" "es ! n = Me_Sweep cfg (sweep_tick cfg t0 k)" by (metis in_set_conv_nth)
  have "\<exists>n \<le> length es. \<forall>d'. phase (as_registry (manager_run s (take n es))) sid \<noteq> Grace d'"
  proof (rule ccontr)
    assume "\<not> ?thesis"
    then have all: "\<exists>d'. phase (as_registry (manager_run s (take m es))) sid = Grace d'" if "m \<le> length es" for m
      using that by blast
    have "phase (as_registry (manager_run s (take n es))) sid = Grace d"
      using n(1) all by (intro grace_until_settled [OF assms(1-3)]) auto
    from sweep_ends_grace [OF run_inv [OF assms(1,2)] this, of cfg "sweep_tick cfg t0 k"] k(1)
    have "phase (as_registry (manager_run s (take (Suc n) es))) sid = Absent" unfolding run_Suc [OF n(1)] n(2) by simp
    with all [of "Suc n"] n(1) show False by simp
  qed
  moreover have "phase (as_registry (manager_step s (Me_Sweep cfg now))) sid = Grace d" if "d \<le> now" "now < d + grace_ms cfg" for now
    using that sweep_ends_grace [OF assms(1,3), of cfg now] by (auto split: if_splits)
  moreover have "sweep_interval_secs cfg \<le> 30" by (simp add: sweep_interval_secs_def clamp_def)
  ultimately show ?thesis by blast
qed

definition sample_lost :: AppState where
  "sample_lost = (manager_start None None)\<lparr>as_registry := reg_run registry_new [Op_Register sample_env sample_params 0 (Some 0), Op_Disconnect ''s1'' 5]\<rparr>"

definition sample_grace :: TransportConfig where
  "sample_grace = \<lparr>tf_heartbeat_interval_ms = 15000, tf_idle_timeout_secs = 1800, tf_ws_ping_interval_ms = 20000,
     tf_ws_ping_timeout_ms = 30000, tf_reconnection_grace_secs = 1\<rparr>"

theorem lost_session_is_settled_in_time_witness:
  "\<exists>n \<le> 3. \<forall>d'. phase (as_registry (manager_run sample_lost (take n
     [Me_Sweep sample_grace 0, Me_Sweep sample_grace 1000, Me_Sweep sample_grace 2000]))) ''s1'' \<noteq> Grace d'"
proof -
  let ?es = "[Me_Sweep sample_grace 0, Me_Sweep sample_grace 1000, Me_Sweep sample_grace 2000]"
  have inv: "reg_inv (as_registry sample_lost)"
    using generation_run [of registry_new] reg_inv_new by (simp add: sample_lost_def registry_new_def)
  have gen: "last_generation (as_registry sample_lost) = 1" "phase (as_registry sample_lost) ''s1'' = Grace 5"
    by (simp_all add: sample_lost_def reg_run_def phase_def reg_eval sample_params_def new_record_def rec_phase_def)
  have cfg: "grace_ms sample_grace = 1000" "sweep_interval_secs sample_grace = 1" "sweep_tick sample_grace 0 k = k * 1000" for k
    by (simp_all add: grace_ms_def sample_grace_def sweep_interval_secs_def clamp_def sweep_tick_def)
  have "Me_Sweep sample_grace (sweep_tick sample_grace 0 k) \<in> set ?es" if "sweep_tick sample_grace 0 k < 5 + 1000 + 1 * 1000" for k
  proof -
    have "k = 0 \<or> k = 1 \<or> k = 2" using that by (auto simp: cfg)
    then show ?thesis by (auto simp: cfg)
  qed
  then have ticks: "\<forall>k. sweep_tick sample_grace 0 k < 5 + grace_ms sample_grace + sweep_interval_secs sample_grace * 1000 \<longrightarrow>
      Me_Sweep sample_grace (sweep_tick sample_grace 0 k) \<in> set ?es" by (simp only: cfg(1,2)) blast
  have "unat (last_generation (as_registry sample_lost)) + length ?es < 2 ^ 64" "0 < 5 + grace_ms sample_grace + sweep_interval_secs sample_grace * 1000"
    by (simp_all add: gen)
  from lost_session_is_settled_in_time [OF inv this(1) gen(2) this(2) ticks, THEN conjunct1] show ?thesis by (simp add: numeral_3_eq_3)
qed

end
