(* ===== verification/Ws_Writer.thy ===== *)
theory Ws_Writer
  imports Transport
begin

text \<open>
  The writing half of a WebSocket connection (the task spawned by \<open>run_connection\<close> in
  \<open>src/session_manager/transport.rs\<close>): it takes messages from the connection's channel,
  writes them to the socket, sends pings and watches for silence. The socket's acceptance of a
  frame, the clock, and the printer of JSON are inputs.
\<close>

section \<open>The task\<close>

datatype ws_out = Out_Text string | Out_Ping | Out_Close

text \<open>Why the loop was left: a frame was not accepted, the channel is closed, silence, or the reader's cancellation.\<close>

datatype writer_stop = Ws_Failed | Ws_Closed | Ws_Silent | Ws_Cancelled

text \<open>
  \<open>ww_queue\<close> is what the channel holds, \<open>ww_log\<close> everything it ever accepted;
  \<open>ww_senders\<close> says that a sender is left. \<open>ww_tick\<close> is when the timer fires next and
  \<open>ww_seen\<close> is \<open>last_inbound_at\<close>.
\<close>

record ws_writer =
  ww_queue :: "WireMessage list"
  ww_log :: "WireMessage list"
  ww_senders :: bool
  ww_sink :: "ws_out list"
  ww_cancel :: bool
  ww_stop :: "writer_stop option"
  ww_tick :: instant
  ww_seen :: instant

abbreviation ping_interval :: "TransportConfig \<Rightarrow> duration" where
  "ping_interval cfg \<equiv> unat (tf_ws_ping_interval_ms cfg)"

abbreviation ping_timeout :: "TransportConfig \<Rightarrow> duration" where
  "ping_timeout cfg \<equiv> unat (tf_ws_ping_timeout_ms cfg)"

text \<open>The first tick of the timer is immediate and skipped.\<close>

definition writer_new :: "TransportConfig \<Rightarrow> instant \<Rightarrow> ws_writer" where
  "writer_new cfg now = \<lparr>ww_queue = [], ww_log = [], ww_senders = True, ww_sink = [], ww_cancel = False,
     ww_stop = None, ww_tick = now + ping_interval cfg, ww_seen = now\<rparr>"

definition stop_writer :: "writer_stop \<Rightarrow> ws_writer \<Rightarrow> ws_writer" where
  "stop_writer why w = w\<lparr>ww_stop := Some why, ww_sink := ww_sink w @ [Out_Close]\<rparr>"

text \<open>
  \<open>MissedTickBehavior::Delay\<close>: a tick that is more than five milliseconds late moves the
  schedule, any other keeps it.
\<close>

definition next_tick :: "duration \<Rightarrow> instant \<Rightarrow> instant \<Rightarrow> instant" where
  "next_tick period due now = (if due + 5 < now then now + period else due + period)"

text \<open>
  One turn of the loop. The branches of the \<open>select\<close> are tried in their order: the channel,
  the timer if there is one, the cancellation. \<open>accepted\<close> is the socket's answer to the frame
  of this turn.
\<close>

definition writer_turn :: "(json \<Rightarrow> string) \<Rightarrow> TransportConfig \<Rightarrow> instant \<Rightarrow> bool \<Rightarrow> ws_writer \<Rightarrow> ws_writer" where
  "writer_turn print cfg now accepted w =
     (if ww_stop w \<noteq> None then w
      else (case ww_queue w of
         m # ms \<Rightarrow>
           if accepted then w\<lparr>ww_queue := ms, ww_sink := ww_sink w @ [Out_Text (to_text print m)]\<rparr>
           else stop_writer Ws_Failed (w\<lparr>ww_queue := ms\<rparr>)
       | [] \<Rightarrow>
           if \<not> ww_senders w then stop_writer Ws_Closed w
           else if ping_interval cfg \<noteq> 0 \<and> ww_tick w \<le> now
           then (let w1 = w\<lparr>ww_tick := next_tick (ping_interval cfg) (ww_tick w) now\<rparr> in
                 case writer_tick cfg (ww_seen w) now of
                   Wr_Close \<Rightarrow> stop_writer Ws_Silent (w1\<lparr>ww_cancel := True\<rparr>)
                 | Wr_Ping \<Rightarrow> if accepted then w1\<lparr>ww_sink := ww_sink w @ [Out_Ping]\<rparr> else stop_writer Ws_Failed w1)
           else if ww_cancel w then stop_writer Ws_Cancelled w
           else w))"

text \<open>
  What else happens to it: a message is put into the channel, which fails once the task has
  ended; a frame comes in; the reader's loop ends and cancels; the last sender is dropped.
\<close>

datatype writer_event =
    We_Send WireMessage
  | We_Turn instant bool
  | We_Inbound instant
  | We_Cancel
  | We_Drop

fun writer_step :: "(json \<Rightarrow> string) \<Rightarrow> TransportConfig \<Rightarrow> ws_writer \<Rightarrow> writer_event \<Rightarrow> ws_writer" where
  "writer_step print cfg w (We_Send m) =
     (if ww_senders w \<and> ww_stop w = None then w\<lparr>ww_queue := ww_queue w @ [m], ww_log := ww_log w @ [m]\<rparr> else w)"
| "writer_step print cfg w (We_Turn now accepted) = writer_turn print cfg now accepted w"
| "writer_step print cfg w (We_Inbound now) = w\<lparr>ww_seen := now\<rparr>"
| "writer_step print cfg w We_Cancel = w\<lparr>ww_cancel := True\<rparr>"
| "writer_step print cfg w We_Drop = w\<lparr>ww_senders := False\<rparr>"

section \<open>Order and completeness\<close>

definition texts :: "ws_out list \<Rightarrow> string list" where
  "texts outs = concat (map (\<lambda>x. case x of Out_Text t \<Rightarrow> [t] | _ \<Rightarrow> []) outs)"

lemma texts_append [simp]: "texts (xs @ ys) = texts xs @ texts ys"
  by (simp add: texts_def)

lemma texts_simps [simp]: "texts [] = []" "texts [Out_Text t] = [t]" "texts [Out_Ping] = []" "texts [Out_Close] = []"
  by (simp_all add: texts_def)

text \<open>
  What was written, then at most one message whose writing failed, then what is still
  queued: together all that was accepted, in order. Only a failure leaves anything behind. A closed
  socket gets nothing more.
\<close>

definition writer_inv :: "(json \<Rightarrow> string) \<Rightarrow> ws_writer \<Rightarrow> bool" where
  "writer_inv print w \<longleftrightarrow>
     (\<exists>written lost. ww_log w = written @ lost @ ww_queue w \<and> texts (ww_sink w) = map (to_text print) written \<and>
        length lost \<le> 1 \<and> (lost \<noteq> [] \<longrightarrow> ww_stop w = Some Ws_Failed)) \<and>
     (ww_stop w \<noteq> None \<and> ww_stop w \<noteq> Some Ws_Failed \<longrightarrow> ww_queue w = []) \<and>
     (if ww_stop w = None then Out_Close \<notin> set (ww_sink w)
      else \<exists>outs. ww_sink w = outs @ [Out_Close] \<and> Out_Close \<notin> set outs)"

lemma writer_inv_new: "writer_inv print (writer_new cfg now)"
  by (simp add: writer_inv_def writer_new_def)

lemma writer_inv_turn:
  assumes inv: "writer_inv print w" and run: "ww_stop w = None"
  shows "writer_inv print (writer_turn print cfg now accepted w)"
proof -
  from inv run obtain written where w: "ww_log w = written @ ww_queue w" "texts (ww_sink w) = map (to_text print) written"
    and c: "Out_Close \<notin> set (ww_sink w)" by (auto simp: writer_inv_def)
  show ?thesis
  proof (cases "ww_queue w")
    case (Cons m ms)
    show ?thesis
    proof (cases accepted)
      case True
      with Cons w c run show ?thesis
        by (auto simp: writer_turn_def writer_inv_def intro!: exI [of _ "written @ [m]"])
    next
      case False
      with Cons w c run show ?thesis
        by (auto simp: writer_turn_def writer_inv_def stop_writer_def) (metis append_Cons append_Nil le_refl length_Cons list.size(3) One_nat_def)
    qed
  next
    case Nil
    with w have all: "\<exists>written lost. ww_log w = written @ lost \<and> texts (ww_sink w) = map (to_text print) written \<and> length lost \<le> Suc 0"
      by (intro exI [of _ written] exI [of _ "[]"]) simp
    with Nil w c run show ?thesis
      by (auto simp: writer_turn_def writer_inv_def stop_writer_def Let_def split: writer_action.split)
  qed
qed

lemma writer_inv_step: "writer_inv print w \<Longrightarrow> writer_inv print (writer_step print cfg w e)"
proof (cases e)
  case (We_Turn now accepted)
  assume inv: "writer_inv print w"
  with We_Turn writer_inv_turn [OF inv] show ?thesis by (cases "ww_stop w") (auto simp: writer_turn_def)
next
  case (We_Send m)
  assume inv: "writer_inv print w"
  show ?thesis
  proof (cases "ww_senders w \<and> ww_stop w = None")
    case True
    with inv We_Send show ?thesis by (auto simp: writer_inv_def)
  next
    case False
    with inv We_Send show ?thesis by (simp only: writer_step.simps if_False)
  qed
qed (simp_all add: writer_inv_def)

interpretation wm: event_machine "writer_step print cfg" "writer_inv print" for print cfg
  by unfold_locales (rule writer_inv_step)


section \<open>Keep-alive\<close>

text \<open>A turn of an idle task at the very time its timer fires, with the frame accepted.\<close>

definition prompt_turn :: "(json \<Rightarrow> string) \<Rightarrow> TransportConfig \<Rightarrow> ws_writer \<Rightarrow> ws_writer" where
  "prompt_turn print cfg w = writer_turn print cfg (ww_tick w) True w"

definition idle :: "ws_writer \<Rightarrow> bool" where
  "idle w \<longleftrightarrow> ww_stop w = None \<and> ww_queue w = [] \<and> ww_senders w"

lemma prompt_turn_ping:
  assumes "idle w" "ping_interval cfg \<noteq> 0" "ping_timeout cfg = 0 \<or> ww_tick w \<le> ww_seen w + ping_timeout cfg"
  shows "prompt_turn print cfg w = w\<lparr>ww_tick := ww_tick w + ping_interval cfg, ww_sink := ww_sink w @ [Out_Ping]\<rparr>"
proof -
  have "tf_ws_ping_timeout_ms cfg = 0 \<or> \<not> ping_timeout cfg < ww_tick w - ww_seen w"
    using assms(3) by (auto simp: unat_eq_0)
  then have "writer_tick cfg (ww_seen w) (ww_tick w) = Wr_Ping" by (auto simp: writer_tick_def)
  with assms(1,2) show ?thesis by (simp add: prompt_turn_def writer_turn_def idle_def next_tick_def)
qed

lemma prompt_turn_silent:
  assumes "idle w" "ping_interval cfg \<noteq> 0" "ping_timeout cfg \<noteq> 0" "ww_seen w + ping_timeout cfg < ww_tick w"
  shows "ww_stop (prompt_turn print cfg w) = Some Ws_Silent" "ww_cancel (prompt_turn print cfg w)"
proof -
  have "writer_tick cfg (ww_seen w) (ww_tick w) = Wr_Close" using assms(3,4) by (auto simp: writer_tick_def)
  with assms(1,2) show "ww_stop (prompt_turn print cfg w) = Some Ws_Silent" "ww_cancel (prompt_turn print cfg w)"
    by (simp_all add: prompt_turn_def writer_turn_def idle_def stop_writer_def)
qed


definition sample_keepalive :: TransportConfig where
  "sample_keepalive = \<lparr>tf_heartbeat_interval_ms = 15000, tf_idle_timeout_secs = 1800, tf_ws_ping_interval_ms = 20000,
     tf_ws_ping_timeout_ms = 30000, tf_reconnection_grace_secs = 30\<rparr>"


text \<open>A round with a client that answers: the tick, then a frame that comes in before the next one.\<close>

definition answered_round :: "(json \<Rightarrow> string) \<Rightarrow> TransportConfig \<Rightarrow> duration \<Rightarrow> ws_writer \<Rightarrow> ws_writer" where
  "answered_round print cfg delay w = (prompt_turn print cfg w)\<lparr>ww_seen := ww_tick w + delay\<rparr>"

text \<open>
  A client that answers its pings is kept, for every number of rounds, if the
  timeout is at least the interval, or off: whatever the delay of each answer, as long as it
  comes in before the next tick, every tick sends a ping and the connection stays open.
\<close>

theorem answering_client_is_kept:
  assumes "ping_interval cfg \<noteq> 0" "ping_timeout cfg = 0 \<or> ping_interval cfg \<le> ping_timeout cfg"
  shows "let w = foldl (\<lambda>w delay. answered_round print cfg delay w) (writer_new cfg now) delays in
     idle w \<and> \<not> ww_cancel w \<and> ww_sink w = replicate (length delays) Out_Ping \<and>
     ww_tick w = now + Suc (length delays) * ping_interval cfg"
proof -
  have "let v = foldl (\<lambda>w delay. answered_round print cfg delay w) w ds in
     idle v \<and> \<not> ww_cancel v \<and> ww_sink v = ww_sink w @ replicate (length ds) Out_Ping \<and> ww_tick v = ww_tick w + length ds * ping_interval cfg"
    if "idle w" "\<not> ww_cancel w" "ww_tick w \<le> ww_seen w + ping_interval cfg" for w ds
    using that
  proof (induction ds arbitrary: w)
    case (Cons d ds)
    have "answered_round print cfg d w =
        w\<lparr>ww_tick := ww_tick w + ping_interval cfg, ww_sink := ww_sink w @ [Out_Ping], ww_seen := ww_tick w + d\<rparr>"
      using Cons.prems assms(2) unfolding answered_round_def
      by (subst prompt_turn_ping [OF Cons.prems(1) assms(1)]) auto
    with Cons.IH [of "answered_round print cfg d w"] Cons.prems show ?case
      by (simp add: idle_def Let_def)
  qed simp
  from this [of "writer_new cfg now" delays] show ?thesis
    by (simp add: idle_def writer_new_def Let_def)
qed

theorem answering_client_is_kept_witness:
  "\<not> ww_cancel (foldl (\<lambda>w delay. answered_round (\<lambda>_. []) sample_keepalive delay w) (writer_new sample_keepalive 7) [10, 19999, 0])"
  using answering_client_is_kept [of sample_keepalive "\<lambda>_. []" 7 "[10, 19999, 0]"]
  by (simp add: Let_def sample_keepalive_def)

end
