(* ===== verification/Announce.thy ===== *)
theory Announce
  imports Notify Registry
begin

text \<open>
  The registry and the notifier's task together: every call of \<open>mark_tools_changed\<close> inside an
  operation of the registry (\<open>src/session_manager/registry.rs\<close>) signals the task of
  \<open>src/session_manager/notify.rs\<close>, which broadcasts later. A ghost variable keeps what agents could see at
  the time of the last broadcast.
\<close>

section \<open>The composed system\<close>

record announcer =
  an_registry :: SessionRegistry
  an_task :: notifier_task
  an_told :: "string \<Rightarrow> (SessionState \<times> ToolDescriptor list) option"

definition announcer_new :: "SessionRegistry \<Rightarrow> announcer" where
  "announcer_new r = \<lparr>an_registry = r, an_task = task_new, an_told = visible r\<rparr>"

datatype announce_event = An_Op reg_op | An_Poll instant

fun announce_step :: "duration \<Rightarrow> announcer \<Rightarrow> announce_event \<Rightarrow> announcer" where
  "announce_step debounce s (An_Op op) =
     (let r' = reg_apply (an_registry s) op in
      s\<lparr>an_registry := r', an_task := (notify_one ^^ (tools_notified r' - tools_notified (an_registry s))) (an_task s)\<rparr>)"
| "announce_step debounce s (An_Poll now) =
     (let t' = spawn_notifier debounce now (an_task s) in
      s\<lparr>an_task := t', an_told := (if length (nt_log t') = length (nt_log (an_task s)) then an_told s else visible (an_registry s))\<rparr>)"

definition announce_run :: "duration \<Rightarrow> announcer \<Rightarrow> announce_event list \<Rightarrow> announcer" where
  "announce_run debounce s es = foldl (announce_step debounce) s es"

definition poll_instants :: "announce_event list \<Rightarrow> instant list" where
  "poll_instants es = concat (map (\<lambda>e. case e of An_Poll now \<Rightarrow> [now] | An_Op _ \<Rightarrow> []) es)"

section \<open>What was told is what is there\<close>

text \<open>The last broadcast saw the present state, or a change is on its way.\<close>

definition announce_inv :: "duration \<Rightarrow> nat \<Rightarrow> instant \<Rightarrow> announcer \<Rightarrow> bool" where
  "announce_inv debounce base now s \<longleftrightarrow> task_ok debounce now (an_task s) \<and>
     tools_notified (an_registry s) = base + nt_epoch (an_task s) \<and>
     (nt_announced (an_task s) = nt_epoch (an_task s) \<longrightarrow> an_told s = visible (an_registry s))"

lemma notify_n:
  "task_ok debounce now t \<Longrightarrow> task_ok debounce now ((notify_one ^^ n) t)"
  "nt_epoch ((notify_one ^^ n) t) = n + nt_epoch t" "nt_announced ((notify_one ^^ n) t) = nt_announced t"
  "nt_log ((notify_one ^^ n) t) = nt_log t"
  by (induction n) (simp_all add: task_ok_notify, simp_all add: notify_one_def Let_def)

lemma announce_inv_op:
  assumes "announce_inv debounce base now s"
  shows "announce_inv debounce base now (announce_step debounce s (An_Op op))"
proof -
  let ?r = "an_registry s" and ?t = "an_task s"
  have mono: "tools_notified ?r \<le> tools_notified (reg_apply ?r op)" by (rule tools_notified_mono)
  have told: "an_told s = visible (reg_apply ?r op)"
    if "nt_announced ?t = tools_notified (reg_apply ?r op) - tools_notified ?r + nt_epoch ?t"
  proof -
    have "nt_announced ?t \<le> nt_epoch ?t" using assms by (simp add: announce_inv_def task_ok_def)
    with that mono have same: "tools_notified (reg_apply ?r op) = tools_notified ?r" "nt_announced ?t = nt_epoch ?t" by auto
    then have "visible (reg_apply ?r op) = visible ?r" using visible_or_notified [of ?r op] by simp
    with assms same(2) show ?thesis by (simp add: announce_inv_def)
  qed
  show ?thesis
    using assms mono told by (simp add: announce_inv_def notify_n Let_def)
qed

lemma poll_epoch: "nt_epoch (spawn_notifier debounce now t) = nt_epoch t"
  by (simp add: spawn_notifier_def split: task_phase.split)

lemma poll_silent:
  "length (nt_log (spawn_notifier debounce now t)) = length (nt_log t) \<Longrightarrow> nt_announced (spawn_notifier debounce now t) = nt_announced t"
  by (cases "nt_phase t") (simp_all add: spawn_notifier_def split: if_splits)

lemma announce_inv_poll:
  assumes "announce_inv debounce base now s" "now \<le> now'"
  shows "announce_inv debounce base now' (announce_step debounce s (An_Poll now'))"
proof -
  have "task_ok debounce now' (spawn_notifier debounce now' (an_task s))"
    using assms task_ok_later task_ok_poll by (auto simp: announce_inv_def)
  with assms(1) show ?thesis
    by (auto simp: announce_inv_def Let_def poll_epoch poll_silent)
qed

lemma announce_inv_run:
  assumes "announce_inv debounce base now s" "sorted (now # poll_instants es)"
  shows "announce_inv debounce base (last (now # poll_instants es)) (announce_run debounce s es)"
  using assms
proof (induction es arbitrary: now s)
  case (Cons e es)
  show ?case
  proof (cases e)
    case (An_Op op)
    from Cons.IH [OF announce_inv_op [OF Cons.prems(1)]] Cons.prems(2) show ?thesis
      by (simp add: An_Op announce_run_def poll_instants_def)
  next
    case (An_Poll now')
    then have "now \<le> now'" using Cons.prems(2) by (simp add: poll_instants_def)
    from Cons.IH [OF announce_inv_poll [OF Cons.prems(1) this]] Cons.prems(2) show ?thesis
      by (simp add: An_Poll announce_run_def poll_instants_def)
  qed
qed (simp add: announce_run_def poll_instants_def)

lemma polls_of_announcer:
  "an_task (foldl (announce_step debounce) s (map An_Poll ts)) = foldl (task_step debounce) (an_task s) (map Polled ts)"
  "an_registry (foldl (announce_step debounce) s (map An_Poll ts)) = an_registry s"
  by (induction ts arbitrary: s) (simp_all add: Let_def)

text \<open>
  C37: every visible change is broadcast. Run any operations of the
  registry (registrations, tool updates, disconnects, removals, sweeps, resets of the cache), at any
  times between polls of the notifier's task. Three more polls, the last one a debounce window later,
  suffice: the last broadcast then came after the last change of the sessions' states and tools,
  so that what agents could see at that broadcast is what they can see now. Broadcasts stay
  a window apart, and there are never more of them than signals. (Which peers a broadcast reaches is
  the subject of \<open>Notify\<close>.)
\<close>

theorem every_change_is_broadcast:
  assumes "sorted (poll_instants es @ [now])" "s = announce_run debounce (announcer_new r0) es"
  shows "an_told (announce_run debounce s [An_Poll now, An_Poll now, An_Poll (now + debounce)]) = visible (an_registry s) \<and>
    spaced debounce (nt_log (an_task s)) \<and>
    length (nt_log (an_task s)) + tools_notified r0 \<le> tools_notified (an_registry s)"
proof -
  have "announce_inv debounce (tools_notified r0) 0 (announcer_new r0)"
    by (simp add: announce_inv_def announcer_new_def task_ok_new) (simp add: task_new_def)
  then have "announce_inv debounce (tools_notified r0) (last (0 # poll_instants es)) s"
    using announce_inv_run [of debounce "tools_notified r0" 0 "announcer_new r0" es] assms by (simp add: sorted_append)
  moreover have "last (0 # poll_instants es) \<le> now" using assms(1) by (auto simp: sorted_append)
  ultimately have inv: "announce_inv debounce (tools_notified r0) now s"
    using task_ok_later by (auto simp: announce_inv_def)
  let ?ps = "[now, now, now + debounce]"
  let ?s = "announce_run debounce s (map An_Poll ?ps)"
  have "announce_inv debounce (tools_notified r0) (now + debounce) ?s"
    using announce_inv_run [OF inv, of "map An_Poll ?ps"] by (simp add: poll_instants_def)
  moreover have "an_registry ?s = an_registry s" unfolding announce_run_def by (rule polls_of_announcer)
  moreover have "nt_announced (an_task ?s) = nt_epoch (an_task s)"
    unfolding announce_run_def polls_of_announcer
    using announce_in_three_polls [of debounce now "an_task s"] inv by (simp add: announce_inv_def)
  moreover have "nt_epoch (an_task ?s) = nt_epoch (an_task s)"
    unfolding announce_run_def polls_of_announcer by (simp add: poll_epoch)
  ultimately have "an_told ?s = visible (an_registry s)" by (simp add: announce_inv_def)
  with inv show ?thesis by (auto simp: announce_inv_def task_ok_def)
qed

theorem every_change_is_broadcast_witness:
  "an_told (announce_run DEBOUNCE_WINDOW (announce_run DEBOUNCE_WINDOW (announcer_new sample_reg)
     [An_Poll 3, An_Op (Op_Remove ''s1''), An_Poll 9]) [An_Poll 20, An_Poll 20, An_Poll (20 + DEBOUNCE_WINDOW)]) ''s1'' = None"
proof -
  let ?s = "announce_run DEBOUNCE_WINDOW (announcer_new sample_reg) [An_Poll 3, An_Op (Op_Remove ''s1''), An_Poll 9]"
  have "visible (an_registry ?s) ''s1'' = None"
    by (simp add: announce_run_def announcer_new_def Let_def visible_def reg_remove_def remove_when_def hm_del_get split: option.split)
  with every_change_is_broadcast [OF _ refl, of "[An_Poll 3, An_Op (Op_Remove ''s1''), An_Poll 9]" 20 DEBOUNCE_WINDOW sample_reg]
  show ?thesis by (simp add: poll_instants_def)
qed

end
