(* ===== verification/Rac_Command.thy ===== *)
theory Rac_Command
  imports Db_Identity
begin

text \<open>
  How the resolver runs the administration tool \<open>rac\<close> (\<open>RasResolver::from_env\<close> of
  \<open>src/session_manager/masking/ras.rs\<close>): the settings from the environment, the
  credentials added to every call, and the texts of its errors, which go to the log. Running the
  program and the debug output of a string are inputs.
\<close>

section \<open>Settings\<close>

definition ENV_RAC_PATH :: string where "ENV_RAC_PATH = ''V8SM_RAC_PATH''"
definition ENV_CLUSTER_USER :: string where "ENV_CLUSTER_USER = ''V8SM_RAS_CLUSTER_USER''"
definition ENV_CLUSTER_PASSWORD :: string where "ENV_CLUSTER_PASSWORD = ''V8SM_RAS_CLUSTER_PASSWORD''"
definition DEFAULT_RAC_PATH :: string where "DEFAULT_RAC_PATH = ''/opt/1cv8/current/rac''"

record rac_settings =
  rs_path :: string
  rs_user :: "string option"
  rs_password :: "string option"

definition opt_filter :: "('a \<Rightarrow> bool) \<Rightarrow> 'a option \<Rightarrow> 'a option" where
  "opt_filter P x = (case x of Some a \<Rightarrow> if P a then Some a else None | None \<Rightarrow> None)"

lemma opt_filter_Some [simp]: "opt_filter P x = Some a \<longleftrightarrow> x = Some a \<and> P a"
  by (auto simp: opt_filter_def split: option.split)

definition rac_from_env :: "(string \<Rightarrow> string option) \<Rightarrow> rac_settings" where
  "rac_from_env var =
     \<lparr>rs_path = unwrap_or DEFAULT_RAC_PATH (opt_filter (\<lambda>v. str_trim v \<noteq> []) (var ENV_RAC_PATH)),
      rs_user = opt_filter (\<lambda>v. v \<noteq> []) (var ENV_CLUSTER_USER),
      rs_password = opt_filter (\<lambda>v. v \<noteq> []) (var ENV_CLUSTER_PASSWORD)\<rparr>"

section \<open>One call\<close>

text \<open>What a run leaves: its exit code (\<open>None\<close> after a signal), its output if that is UTF-8, and its error output.\<close>

record rac_output =
  ro_code :: "int option"
  ro_stdout :: "(string, string) res"
  ro_stderr :: string

definition redact :: "string \<Rightarrow> string" where
  "redact a = (if starts_with ''--cluster-pwd='' a then ''--cluster-pwd=<redacted>'' else a)"

fun show_code :: "int option \<Rightarrow> string" where
  "show_code None = ''None''"
| "show_code (Some n) = ''Some('' @ show_int n @ '')''"

definition show_args :: "(string \<Rightarrow> string) \<Rightarrow> string list \<Rightarrow> string" where
  "show_args debug args = ''['' @ str_join '', '' (map debug args) @ '']''"

definition rac_command ::
  "(string \<Rightarrow> string) \<Rightarrow> (string \<Rightarrow> string list \<Rightarrow> (string, rac_output) res) \<Rightarrow> rac_settings \<Rightarrow> string list \<Rightarrow> (string, string) res" where
  "rac_command debug run st args =
     (let args1 = args @ credential_args (rs_user st) (rs_password st) in
      case run (rs_path st) args1 of
        Inl e \<Rightarrow> Err (''spawn '' @ rs_path st @ '': '' @ e)
      | Inr out \<Rightarrow>
          if ro_code out \<noteq> Some 0
          then Err (''rac '' @ show_args debug (map redact args1) @ '' exited '' @ show_code (ro_code out) @ '': '' @ str_trim (ro_stderr out))
          else (case ro_stdout out of Inl e \<Rightarrow> Err (''rac output is not UTF-8: '' @ e) | Inr s \<Rightarrow> Ok s))"

text \<open>The resolver's environment with the real command behind it.\<close>

definition command_env ::
  "(string \<Rightarrow> string) \<Rightarrow> (string \<Rightarrow> string list \<Rightarrow> (string, rac_output) res) \<Rightarrow> (string \<Rightarrow> string option) \<Rightarrow> ras_env \<Rightarrow> ras_env" where
  "command_env debug run var env = env\<lparr>rac_exec := rac_command debug run (rac_from_env var)\<rparr>"

section \<open>Credentials\<close>

lemma redact_password [simp]: "redact (''--cluster-pwd='' @ p) = ''--cluster-pwd=<redacted>''"
  by (simp add: redact_def starts_with_def)

lemma redact_credentials:
  assumes "p \<noteq> []" "q \<noteq> []"
  shows "map redact (args @ credential_args user (Some p)) = map redact (args @ credential_args user (Some q))"
proof -
  have "map redact [''--cluster-pwd='' @ p] = map redact [''--cluster-pwd='' @ q]"
    unfolding list.map redact_password by (rule refl)
  with assms show ?thesis by (simp add: credential_args_def del: append.simps)
qed

lemma rac_from_env_password:
  "rs_password (rac_from_env var) = Some p \<longleftrightarrow> var ENV_CLUSTER_PASSWORD = Some p \<and> p \<noteq> []"
  by (simp add: rac_from_env_def)

text \<open>
  C39: the password of the cluster never reaches a text of the manager. Take two
  environments that differ only in the password, and let \<open>rac\<close> answer the two command
  lines, which are all that it gets, alike: then every call returns the same output or the same
  error text, and the whole resolution of a database ends the same. What is logged
  of a failed call shows the arguments with the password replaced.
\<close>

theorem password_never_shown:
  assumes "var ENV_CLUSTER_PASSWORD = Some p" "p \<noteq> []" "q \<noteq> []"
    and "\<And>args. run (rs_path (rac_from_env var)) (args @ credential_args (rs_user (rac_from_env var)) (Some p)) =
      run' (rs_path (rac_from_env var)) (args @ credential_args (rs_user (rac_from_env var)) (Some q))"
  shows "rac_command debug run (rac_from_env var) args = rac_command debug run' (rac_from_env (var(ENV_CLUSTER_PASSWORD \<mapsto> q))) args \<and>
    resolve (command_env debug run var env) slow now after srvr ib rs =
    resolve (command_env debug run' (var(ENV_CLUSTER_PASSWORD \<mapsto> q)) env) slow now after srvr ib rs"
proof -
  let ?st = "rac_from_env var" and ?st' = "rac_from_env (var(ENV_CLUSTER_PASSWORD \<mapsto> q))"
  have st: "rs_password ?st = Some p" "rs_path ?st' = rs_path ?st" "rs_user ?st' = rs_user ?st" "rs_password ?st' = Some q"
    using assms(1-3) by (simp_all add: rac_from_env_def ENV_RAC_PATH_def ENV_CLUSTER_USER_def ENV_CLUSTER_PASSWORD_def)
  have "rac_command debug run ?st args = rac_command debug run' ?st' args" for args
    unfolding rac_command_def st Let_def assms(4) redact_credentials [OF assms(2,3), of args "rs_user ?st"] by (rule refl)
  then have "rac_command debug run ?st = rac_command debug run' ?st'" by (rule ext)
  then show ?thesis unfolding command_env_def by simp
qed

definition failing_rac :: "string \<Rightarrow> string list \<Rightarrow> (string, rac_output) res" where
  "failing_rac path args = Ok \<lparr>ro_code = Some 1, ro_stdout = Ok [], ro_stderr = ''denied''\<rparr>"

theorem password_never_shown_witness:
  "rac_command (\<lambda>s. s) failing_rac (rac_from_env [ENV_CLUSTER_PASSWORD \<mapsto> ''hunter2'']) [''cluster'', ''list''] =
   rac_command (\<lambda>s. s) failing_rac (rac_from_env [ENV_CLUSTER_PASSWORD \<mapsto> ''x'']) [''cluster'', ''list''] \<and>
   rac_command (\<lambda>s. s) failing_rac (rac_from_env [ENV_CLUSTER_PASSWORD \<mapsto> ''hunter2'']) [''cluster'', ''list''] =
   Err ''rac [cluster, list, --cluster-pwd=<redacted>] exited Some(1): denied''"
proof -
  have "rac_command (\<lambda>s. s) failing_rac (rac_from_env [ENV_CLUSTER_PASSWORD \<mapsto> ''hunter2'']) [''cluster'', ''list''] =
   rac_command (\<lambda>s. s) failing_rac (rac_from_env ([ENV_CLUSTER_PASSWORD \<mapsto> ''hunter2''](ENV_CLUSTER_PASSWORD \<mapsto> ''x''))) [''cluster'', ''list'']"
    by (rule password_never_shown [where p = "''hunter2''", THEN conjunct1]) (simp_all add: failing_rac_def)
  moreover have one: "show_nat (Suc 0) = ''1''" by (subst show_nat.simps) code_simp
  moreover have "rac_command (\<lambda>s. s) failing_rac (rac_from_env [ENV_CLUSTER_PASSWORD \<mapsto> ''hunter2'']) [''cluster'', ''list''] =
      Err ''rac [cluster, list, --cluster-pwd=<redacted>] exited Some(1): denied''"
    by (simp add: rac_command_def rac_from_env_def failing_rac_def credential_args_def redact_def starts_with_def show_args_def opt_filter_def
        ENV_RAC_PATH_def ENV_CLUSTER_USER_def ENV_CLUSTER_PASSWORD_def str_trim_def is_white_def cont_byte_def Let_def show_int_def one)
  ultimately show ?thesis by simp
qed

text \<open>Without credentials in the environment nothing is added to a call.\<close>

lemma no_credentials_no_flags:
  "var ENV_CLUSTER_USER = None \<Longrightarrow> var ENV_CLUSTER_PASSWORD = None \<Longrightarrow>
   credential_args (rs_user (rac_from_env var)) (rs_password (rac_from_env var)) = []"
  by (simp add: credential_args_def rac_from_env_def opt_filter_def)

end
