(* ===== verification/Logging.thy ===== *)
theory Logging
  imports Config Db_Identity
begin

text \<open>
  The log of the process (\<open>src/support/logging.rs\<close>): where it goes, what a write does to
  the two outputs, and the formatter for terminals with its timeline. The environment, the file
  system, the clock and the logging library are inputs.
\<close>

section \<open>Outputs\<close>

definition ACTION_LOG_FILE_ENV :: string where "ACTION_LOG_FILE_ENV = ''V8TR_ACTION_LOG_FILE''"

datatype LoggingInitError = OpenFile string string | Install string

text \<open>
  The environment variable, the filter of the library (the one its own variable asks for, if that is
  set and well formed, and the reading of a filter text), creating directories, opening for appending, and the installation in the library.
\<close>

record 'f log_env =
  le_var :: "string \<Rightarrow> string option"
  le_default_filter :: "(string, 'f) res"
  le_parse_filter :: "string \<Rightarrow> (string, 'f) res"
  le_info_filter :: 'f
  le_mkdir :: "string \<Rightarrow> (string, unit) res"
  le_open :: "string \<Rightarrow> (string, unit) res"
  le_install :: "(string, unit) res"

definition resolve_action_log_path :: "'f log_env \<Rightarrow> string \<Rightarrow> string \<Rightarrow> string option" where
  "resolve_action_log_path env format work_path = (case le_var env ACTION_LOG_FILE_ENV of
     Some p \<Rightarrow> Some p
   | None \<Rightarrow> if format = ''json''
            then Some (Path_join (Path_join (Path_join work_path ''logs'') ''mcp'') ''actions.log'')
            else None)"

definition open_log_file :: "'f log_env \<Rightarrow> string option \<Rightarrow> (LoggingInitError, string option) res" where
  "open_log_file env path = (case path of
     None \<Rightarrow> Ok None
   | Some p \<Rightarrow>
       (case (case Path_parent p of Some d \<Rightarrow> le_mkdir env d | None \<Rightarrow> Ok ()) of
          Inl e \<Rightarrow> Err (OpenFile p e)
        | Inr _ \<Rightarrow> (case le_open env p of Inl e \<Rightarrow> Err (OpenFile p e) | Inr _ \<Rightarrow> Ok (Some p))))"

record ActionLogWriter =
  lw_stdout_enabled :: bool
  lw_file :: "string option"

text \<open>The installed logger: with the formatter below for text, and the formatter of the library otherwise.\<close>

record 'f ActionLogger =
  al_writer :: ActionLogWriter
  al_filter :: 'f
  al_ansi :: bool
  al_cli_formatter :: bool
  al_path :: "string option"

definition env_filter :: "'f log_env \<Rightarrow> string \<Rightarrow> 'f" where
  "env_filter env level = (case le_default_filter env of
     Inr f \<Rightarrow> f
   | Inl _ \<Rightarrow> (case le_parse_filter env level of Inr f \<Rightarrow> f | Inl _ \<Rightarrow> le_info_filter env))"

definition init_action_logging ::
  "'f log_env \<Rightarrow> string \<Rightarrow> string \<Rightarrow> bool \<Rightarrow> string \<Rightarrow> (LoggingInitError, 'f ActionLogger) res" where
  "init_action_logging env level format color work_path =
     (case open_log_file env (resolve_action_log_path env format work_path) of
        Inl e \<Rightarrow> Err e
      | Inr f \<Rightarrow>
          (let writer = \<lparr>lw_stdout_enabled = (format = ''text''), lw_file = f\<rparr>;
               log_path = resolve_action_log_path env format work_path;
               ansi_enabled = (format = ''text'' \<and> color)
           in case le_install env of
             Inl e \<Rightarrow> Err (Install e)
           | Inr _ \<Rightarrow>
               if format = ''text''
               then Ok \<lparr>al_writer = writer, al_filter = env_filter env level, al_ansi = ansi_enabled, al_cli_formatter = True, al_path = log_path\<rparr>
               else Ok \<lparr>al_writer = writer, al_filter = env_filter env level, al_ansi = False, al_cli_formatter = False, al_path = log_path\<rparr>))"

text \<open>
  What the outputs hold. A fault says after how many bytes a write breaks off; a poisoned
  lock refuses the file.
\<close>

record log_outputs =
  lo_stdout :: string
  lo_file :: string

record log_faults =
  lf_stdout :: "nat option"
  lf_file :: "nat option"
  lf_poisoned :: bool

definition put_all :: "nat option \<Rightarrow> string \<Rightarrow> string \<Rightarrow> bool \<times> string" where
  "put_all fault buf old = (case fault of None \<Rightarrow> (True, old @ buf) | Some k \<Rightarrow> (False, old @ take k buf))"

definition write_log :: "log_faults \<Rightarrow> ActionLogWriter \<Rightarrow> string \<Rightarrow> log_outputs \<Rightarrow> nat option \<times> log_outputs" where
  "write_log faults w buf out =
     (let (ok1, out1) = (if lw_stdout_enabled w
            then (let (ok, t) = put_all (lf_stdout faults) buf (lo_stdout out) in (ok, out\<lparr>lo_stdout := t\<rparr>)) else (True, out))
      in if \<not> ok1 then (None, out1)
         else if lw_file w = None then (Some (length buf), out1)
         else if lf_poisoned faults then (None, out1)
         else (let (ok, t) = put_all (lf_file faults) buf (lo_file out1)
               in (if ok then Some (length buf) else None, out1\<lparr>lo_file := t\<rparr>)))"

text \<open>A flush: every output that is in use is flushed, in the same order; the result says whether all went well.\<close>

definition flush_log :: "log_faults \<Rightarrow> ActionLogWriter \<Rightarrow> bool" where
  "flush_log faults w =
     (if lw_stdout_enabled w \<and> lf_stdout faults \<noteq> None then False
      else case lw_file w of None \<Rightarrow> True | Some _ \<Rightarrow> \<not> lf_poisoned faults \<and> lf_file faults = None)"

section \<open>Formatting\<close>

abbreviation ESC :: char where "ESC \<equiv> CHR 0x1B"
abbreviation newline :: string where "newline \<equiv> [CHR 0x0A]"

text \<open>The characters of the timeline and of details, in UTF-8.\<close>

definition PIPE :: string where "PIPE = map char_of [226, 148, 130 :: nat]"
definition NODE :: string where "NODE = map char_of [226, 151, 143 :: nat]"
definition CHANGES :: string where
  "CHANGES = map char_of [208, 152, 208, 183, 208, 188, 208, 181, 208, 189, 208, 181, 208, 189, 208, 184, 209, 143 :: nat]"
definition CHECK :: string where "CHECK = map char_of [226, 156, 147 :: nat]"
definition CROSS :: string where "CROSS = map char_of [226, 156, 151 :: nat]"
definition RING :: string where "RING = map char_of [226, 151, 139 :: nat]"

definition colored :: "string \<Rightarrow> string \<Rightarrow> string" where
  "colored code txt = [ESC, CHR ''[''] @ code @ ''m'' @ txt @ [ESC] @ ''[0m''"

definition write_highlighted_label :: "bool \<Rightarrow> string \<Rightarrow> string \<Rightarrow> string" where
  "write_highlighted_label ansi txt code = (if ansi then colored code txt else txt)"

definition write_timeline_pipe :: "bool \<Rightarrow> string" where
  "write_timeline_pipe ansi = (if ansi then colored ''34'' PIPE else PIPE)"

definition write_timeline_node :: "bool \<Rightarrow> string \<Rightarrow> string" where
  "write_timeline_node ansi status =
     (if ansi
      then colored (if status = ''failed'' then ''31'' else if status = ''running'' then ''36''
                    else if status = ''skipped'' then ''90'' else ''32'') NODE
      else NODE)"

text \<open>\<open>find\<close> and \<open>split_at\<close> at a character: what stands before it, and the rest from it on.\<close>

definition split_at_char :: "char \<Rightarrow> string \<Rightarrow> (string \<times> string) option" where
  "split_at_char c s = (if c \<in> set s then Some (takeWhile (\<lambda>d. d \<noteq> c) s, dropWhile (\<lambda>d. d \<noteq> c) s) else None)"

definition write_timeline_label :: "bool \<Rightarrow> string \<Rightarrow> string" where
  "write_timeline_label ansi label =
     (if \<not> ansi then label
      else (case split_at_char (CHR '':'') label of
         None \<Rightarrow> label
       | Some (source_set, rest) \<Rightarrow>
           if source_set = [] then label else write_highlighted_label ansi source_set ''1'' @ rest))"

definition bracketed_prefix :: "string \<Rightarrow> (string \<times> string) option" where
  "bracketed_prefix value =
     (if \<not> starts_with ''['' value then None
      else (case split_at_char (CHR '']'') value of None \<Rightarrow> None | Some (a, b) \<Rightarrow> Some (a @ '']'', tl b)))"

definition strip_prefix :: "string \<Rightarrow> string \<Rightarrow> string option" where
  "strip_prefix p s = (if starts_with p s then Some (drop (length p) s) else None)"

definition write_timeline_detail :: "bool \<Rightarrow> string \<Rightarrow> string" where
  "write_timeline_detail ansi detail =
     (if \<not> ansi then detail
      else (case bracketed_prefix detail of
         Some (front, rest) \<Rightarrow> colored ''1;34'' front @ rest
       | None \<Rightarrow>
      (case strip_prefix (CHANGES @ '':'') detail of
         Some rest \<Rightarrow> write_highlighted_label ansi CHANGES ''1;34'' @ '':'' @ rest
       | None \<Rightarrow>
      (case strip_prefix (CHECK @ '' '') detail of
         Some rest \<Rightarrow> write_highlighted_label ansi CHECK ''1;32'' @ '' '' @ rest
       | None \<Rightarrow>
      (case strip_prefix (CROSS @ '' '') detail of
         Some rest \<Rightarrow> write_highlighted_label ansi CROSS ''1;31'' @ '' '' @ rest
       | None \<Rightarrow>
      (case strip_prefix (RING @ '' '') detail of
         Some rest \<Rightarrow> write_highlighted_label ansi RING ''90'' @ '' '' @ rest
       | None \<Rightarrow> detail))))))"

datatype log_level = Level_Error | Level_Warn | Level_Info | Level_Debug | Level_Trace

fun level_label :: "log_level \<Rightarrow> string" where
  "level_label Level_Error = ''ERROR''"
| "level_label Level_Warn = '' WARN''"
| "level_label Level_Info = '' INFO''"
| "level_label Level_Debug = ''DEBUG''"
| "level_label Level_Trace = ''TRACE''"

fun level_code :: "log_level \<Rightarrow> string" where
  "level_code Level_Error = ''1;31''"
| "level_code Level_Warn = ''1;33''"
| "level_code Level_Info = ''1;32''"
| "level_code Level_Debug = ''1;36''"
| "level_code Level_Trace = ''1;35''"

definition write_level :: "bool \<Rightarrow> log_level \<Rightarrow> string" where
  "write_level ansi level = (if ansi then colored (level_code level) (level_label level) else level_label level)"

text \<open>\<open>rsplit_once\<close>: at the last occurrence.\<close>

fun rsplit_once :: "string \<Rightarrow> string \<Rightarrow> (string \<times> string) option" where
  "rsplit_once p [] = None"
| "rsplit_once p (c # cs) = (case rsplit_once p cs of
     Some (a, b) \<Rightarrow> Some (c # a, b)
   | None \<Rightarrow> if starts_with p (c # cs) then Some ([], drop (length p) (c # cs)) else None)"

definition split_project_name_suffix :: "string \<Rightarrow> (string \<times> string) option" where
  "split_project_name_suffix rest = (case rsplit_once '': '' rest of
     None \<Rightarrow> None
   | Some (before, tail) \<Rightarrow>
       (let name = str_trim tail in
        if name = [] \<or> str_contains '' '' name then None else Some (take (length before + 2) rest, name)))"

definition write_stage_tail :: "bool \<Rightarrow> string \<Rightarrow> string" where
  "write_stage_tail ansi rest = (case split_project_name_suffix rest of
     Some (before, name) \<Rightarrow> before @ write_highlighted_label ansi name ''1;37''
   | None \<Rightarrow> rest)"

definition write_message :: "bool \<Rightarrow> string \<Rightarrow> string" where
  "write_message ansi message =
     (if message = ''running interactive edt command''
      then (if ansi then ''running interactive edt '' @ write_highlighted_label ansi ''command'' ''1;96'' else message)
      else if message = ''interactive edt command finished''
      then (if ansi then ''interactive edt '' @ write_highlighted_label ansi ''command finished'' ''1;96'' else message)
      else (case split_at_char (CHR '']'') message of
         None \<Rightarrow> message
       | Some (a, b) \<Rightarrow>
           if \<not> starts_with ''['' message then message
           else if ansi then colored ''1;34'' (a @ '']'') @ write_stage_tail ansi (tl b)
           else message))"

section \<open>Events\<close>

record EventFieldVisitor =
  ev_message :: "string option"
  ev_fields :: "string list"
  ev_timeline_label :: "string option"
  ev_timeline_status :: "string option"
  ev_timeline_detail :: "string option"

definition visitor_default :: EventFieldVisitor where
  "visitor_default = \<lparr>ev_message = None, ev_fields = [], ev_timeline_label = None, ev_timeline_status = None, ev_timeline_detail = None\<rparr>"

definition record_timeline_field :: "string \<Rightarrow> string \<Rightarrow> EventFieldVisitor \<Rightarrow> bool \<times> EventFieldVisitor" where
  "record_timeline_field name val v =
     (if name = ''timeline_label'' then (True, v\<lparr>ev_timeline_label := Some val\<rparr>)
      else if name = ''timeline_status'' then (True, v\<lparr>ev_timeline_status := Some val\<rparr>)
      else if name = ''timeline_detail'' then (True, v\<lparr>ev_timeline_detail := Some val\<rparr>)
      else (False, v))"

definition normalize_debug_value :: "string \<Rightarrow> string" where
  "normalize_debug_value rendered =
     (if rendered \<noteq> [] \<and> hd rendered = CHR 0x22 \<and> tl rendered \<noteq> [] \<and> last (tl rendered) = CHR 0x22
      then butlast (tl rendered) else rendered)"

text \<open>A field of an event: a string, or anything else by its debug output.\<close>

datatype field_value = Fv_Str string | Fv_Debug string

fun record_field :: "string \<times> field_value \<Rightarrow> EventFieldVisitor \<Rightarrow> EventFieldVisitor" where
  "record_field (name, Fv_Str val) v =
     (if name = ''message'' then v\<lparr>ev_message := Some val\<rparr>
      else (let (done, v1) = record_timeline_field name val v in
            if done then v1 else v1\<lparr>ev_fields := ev_fields v1 @ [name @ ''='' @ [CHR 0x22] @ val @ [CHR 0x22]]\<rparr>))"
| "record_field (name, Fv_Debug rendered) v =
     (if name = ''message'' then v\<lparr>ev_message := Some rendered\<rparr>
      else (let (done, v1) = record_timeline_field name (normalize_debug_value rendered) v in
            if done then v1 else v1\<lparr>ev_fields := ev_fields v1 @ [name @ ''='' @ rendered]\<rparr>))"

record TimelineRenderState =
  tl_started :: bool
  tl_last_label :: "string option"

definition timeline_new :: TimelineRenderState where
  "timeline_new = \<lparr>tl_started = False, tl_last_label = None\<rparr>"

definition write_detail_lines :: "bool \<Rightarrow> string option \<Rightarrow> string" where
  "write_detail_lines ansi detail = (case detail of
     None \<Rightarrow> []
   | Some d \<Rightarrow>
       if str_trim d = [] then []
       else concat (map (\<lambda>l. write_timeline_pipe ansi @ ''   '' @ write_timeline_detail ansi (str_trim l) @ newline) (str_lines d)))"

definition format_timeline_event ::
  "bool \<Rightarrow> string \<Rightarrow> string \<Rightarrow> string option \<Rightarrow> TimelineRenderState \<Rightarrow> string \<times> TimelineRenderState" where
  "format_timeline_event ansi label status detail st =
     (let same = (tl_last_label st = Some label);
          connector = tl_started st \<and> \<not> same
      in ((if connector then write_timeline_pipe ansi @ newline else []) @
          (if \<not> same then write_timeline_node ansi status @ '' '' @ write_timeline_label ansi label @ newline else []) @
          write_detail_lines ansi detail,
          \<lparr>tl_started = True, tl_last_label = Some label\<rparr>))"

text \<open>One event: its level and fields at the time \<open>stamp\<close>, already printed.\<close>

definition format_event ::
  "bool \<Rightarrow> string \<Rightarrow> log_level \<Rightarrow> (string \<times> field_value) list \<Rightarrow> TimelineRenderState \<Rightarrow> string \<times> TimelineRenderState" where
  "format_event ansi stamp level fs st =
     (let v = fold record_field fs visitor_default in
      case ev_timeline_label v of
        Some label \<Rightarrow> format_timeline_event ansi label (unwrap_or ''succeeded'' (ev_timeline_status v)) (ev_timeline_detail v) st
      | None \<Rightarrow>
          (write_timeline_pipe ansi @ '' '' @ stamp @ ''  '' @ write_level ansi level @
           (case ev_message v of Some m \<Rightarrow> '' '' @ write_message ansi m | None \<Rightarrow> []) @
           concat (map (\<lambda>f. '' '' @ f) (ev_fields v)) @ newline, st))"

section \<open>Colour changes nothing but colour\<close>

text \<open>What a terminal shows: the text without the escape sequences.\<close>

function strip_ansi :: "string \<Rightarrow> string" where
  "strip_ansi [] = []"
| "strip_ansi (c # cs) = (if c = ESC then strip_ansi (tl (dropWhile (\<lambda>d. d \<noteq> CHR ''m'') cs)) else c # strip_ansi cs)"
  by pat_completeness auto
termination
proof (relation "measure length", goal_cases)
  case (2 c cs)
  have "length (tl (dropWhile (\<lambda>d. d \<noteq> CHR ''m'') cs)) \<le> length cs"
    using length_dropWhile_le [of "\<lambda>d. d \<noteq> CHR ''m''" cs] by simp
  then show ?case by (simp add: less_Suc_eq_le)
qed simp_all

lemma strip_plain: "ESC \<notin> set t \<Longrightarrow> strip_ansi (t @ r) = t @ strip_ansi r"
  by (induction t) auto

lemma strip_plain_all: "ESC \<notin> set t \<Longrightarrow> strip_ansi t = t"
  using strip_plain [of t "[]"] by simp

lemma dropWhile_code: "CHR ''m'' \<notin> set code \<Longrightarrow> dropWhile (\<lambda>d. d \<noteq> CHR ''m'') (code @ CHR ''m'' # r) = CHR ''m'' # r"
  by (induction code) auto

lemma strip_colored:
  assumes "CHR ''m'' \<notin> set code" "ESC \<notin> set t"
  shows "strip_ansi (colored code t @ r) = t @ strip_ansi r"
proof -
  have "strip_ansi (colored code t @ r) = strip_ansi (t @ ESC # ''[0m'' @ r)"
    using dropWhile_code [OF assms(1), of "t @ ESC # ''[0m'' @ r"] by (simp add: colored_def)
  also have "\<dots> = t @ strip_ansi r" using strip_plain [OF assms(2)] by simp
  finally show ?thesis .
qed

lemma no_esc_signs [simp]:
  "ESC \<notin> set PIPE" "ESC \<notin> set NODE" "ESC \<notin> set CHANGES" "ESC \<notin> set CHECK" "ESC \<notin> set CROSS" "ESC \<notin> set RING"
  by (simp_all add: PIPE_def NODE_def CHANGES_def CHECK_def CROSS_def RING_def char_of_def)

lemma split_at_char_parts: "split_at_char c s = Some (a, b) \<Longrightarrow> s = a @ b \<and> b = c # tl b"
  by (auto simp: split_at_char_def takeWhile_dropWhile_id dest: split_list split: if_splits)
     (metis (mono_tags, lifting) dropWhile_eq_Nil_conv hd_dropWhile list.collapse)

lemma bracketed_prefix_parts: "bracketed_prefix s = Some (a, b) \<Longrightarrow> s = a @ b"
  by (auto simp: bracketed_prefix_def split: if_splits option.splits dest!: split_at_char_parts)

lemma strip_prefix_parts: "strip_prefix p s = Some r \<Longrightarrow> s = p @ r"
  by (auto simp: strip_prefix_def starts_with_def split: if_splits) (metis append_take_drop_id)

lemma rsplit_once_parts: "rsplit_once p s = Some (a, b) \<Longrightarrow> s = a @ p @ b"
proof (induction s arbitrary: a)
  case (Cons c s)
  then show ?case
    by (auto simp: starts_with_def split: option.splits if_splits) (metis append_take_drop_id)
qed simp

lemma rsplit_once_head: "rsplit_once p s = Some (a, b) \<Longrightarrow> take (length a + length p) s = a @ p"
  using rsplit_once_parts [of p s a b] by simp

text \<open>
  In colour, blanks around a project name at the end of a message are not shown. A message is
  tidy if it has none there.
\<close>

definition tidy_message :: "string \<Rightarrow> bool" where
  "tidy_message m \<longleftrightarrow> (case split_at_char (CHR '']'') m of
     None \<Rightarrow> True
   | Some (a, b) \<Rightarrow> (case rsplit_once '': '' (tl b) of None \<Rightarrow> True | Some (before, tail) \<Rightarrow> str_trim tail = tail))"

named_theorems erase \<open>erasing colour from one part of a line\<close>

lemma erase_label_text [erase]:
  "ESC \<notin> set t \<Longrightarrow> CHR ''m'' \<notin> set code \<Longrightarrow> strip_ansi (write_highlighted_label True t code @ r) = t @ strip_ansi r"
  by (simp add: write_highlighted_label_def strip_colored)

lemma erase_pipe [erase]: "strip_ansi (write_timeline_pipe True @ r) = write_timeline_pipe False @ strip_ansi r"
  by (simp add: write_timeline_pipe_def strip_colored)

lemma erase_node [erase]: "strip_ansi (write_timeline_node True status @ r) = write_timeline_node False status @ strip_ansi r"
  by (simp add: write_timeline_node_def strip_colored)

lemma erase_level [erase]: "strip_ansi (write_level True level @ r) = write_level False level @ strip_ansi r"
  by (cases level) (simp_all add: write_level_def strip_colored)

lemma erase_timeline_label [erase]:
  assumes "ESC \<notin> set label"
  shows "strip_ansi (write_timeline_label True label @ r) = write_timeline_label False label @ strip_ansi r"
proof (cases "split_at_char (CHR '':'') label")
  case (Some x)
  obtain a b where x: "x = (a, b)" by (cases x)
  have "label = a @ b" using split_at_char_parts Some x by blast
  with assms Some x show ?thesis
    by (auto simp: write_timeline_label_def erase strip_plain)
qed (use assms in \<open>simp add: write_timeline_label_def strip_plain\<close>)

lemma erase_prefixed:
  assumes "strip_prefix (p @ [c]) d = Some rest" "ESC \<notin> set d" "CHR ''m'' \<notin> set code"
  shows "strip_ansi (write_highlighted_label True p code @ c # rest @ r) = d @ strip_ansi r"
proof -
  have d: "d = p @ c # rest" using strip_prefix_parts [OF assms(1)] by simp
  with assms(2) have "strip_ansi (c # rest @ r) = c # rest @ strip_ansi r"
    using strip_plain [of "c # rest" r] by simp
  with d assms(2,3) show ?thesis by (simp add: erase)
qed

lemma erase_timeline_detail [erase]:
  assumes "ESC \<notin> set d"
  shows "strip_ansi (write_timeline_detail True d @ r) = write_timeline_detail False d @ strip_ansi r"
proof (cases "bracketed_prefix d")
  case (Some x)
  obtain a b where x: "x = (a, b)" by (cases x)
  have "d = a @ b" using bracketed_prefix_parts Some x by blast
  with assms Some x show ?thesis by (simp add: write_timeline_detail_def strip_colored strip_plain)
next
  case None
  with assms show ?thesis
    by (auto simp: write_timeline_detail_def strip_plain erase_prefixed split: option.split)
qed

lemma erase_message [erase]:
  assumes "ESC \<notin> set m" "tidy_message m"
  shows "strip_ansi (write_message True m @ r) = write_message False m @ strip_ansi r"
proof (cases "split_at_char (CHR '']'') m")
  case None
  with assms show ?thesis by (auto simp: write_message_def strip_plain erase)
next
  case (Some x)
  obtain a b where x: "x = (a, b)" by (cases x)
  have m: "m = (a @ '']'') @ tl b" using split_at_char_parts [OF Some [unfolded x]] by (metis append_Cons append_Nil append_assoc)
  have stage: "strip_ansi (write_stage_tail True (tl b) @ r) = tl b @ strip_ansi r"
  proof (cases "rsplit_once '': '' (tl b)")
    case None
    then show ?thesis using assms(1) m strip_plain [of "tl b" r] by (auto simp: write_stage_tail_def split_project_name_suffix_def)
  next
    case (Some y)
    obtain before tail where y: "y = (before, tail)" by (cases y)
    have t: "str_trim tail = tail" using assms(2) Some y \<open>split_at_char (CHR '']'') m = Some x\<close> x by (simp add: tidy_message_def)
    have p: "tl b = (before @ '': '') @ tail" "take (length before + 2) (tl b) = before @ '': ''"
      using rsplit_once_parts [OF Some [unfolded y]] rsplit_once_head [OF Some [unfolded y]] by simp_all
    have e: "ESC \<notin> set (before @ '': '')" "ESC \<notin> set tail" using assms(1) m p(1) by auto
    show ?thesis
    proof (cases "split_project_name_suffix (tl b)")
      case None
      then show ?thesis using assms(1) m strip_plain [of "tl b" r] by (auto simp: write_stage_tail_def)
    next
      case (Some z)
      then have "z = (before @ '': '', tail)"
        using \<open>rsplit_once '': '' (tl b) = Some y\<close> y t p(2) by (auto simp: split_project_name_suffix_def Let_def split: if_splits)
      with Some have "strip_ansi (write_stage_tail True (tl b) @ r) =
          strip_ansi ((before @ '': '') @ write_highlighted_label True tail ''1;37'' @ r)"
        by (simp add: write_stage_tail_def)
      also have "\<dots> = (before @ '': '') @ tail @ strip_ansi r"
        unfolding strip_plain [OF e(1)] using e(2) by (simp add: erase)
      finally show ?thesis using p(1) by simp
    qed
  qed
  have "ESC \<notin> set (a @ '']'')" using assms(1) m by auto
  from strip_colored [OF _ this, of "''1;34''"] stage m
  have "strip_ansi (colored ''1;34'' (a @ '']'') @ write_stage_tail True (tl b) @ r) = m @ strip_ansi r" by simp
  with assms Some x show ?thesis by (auto simp: write_message_def strip_plain erase)
qed

lemma set_str_trim: "set (str_trim s) \<subseteq> set s"
proof -
  have "set (str_trim s) \<subseteq> set (concat (utf8_chars s))"
    by (auto simp: str_trim_def simp del: concat_utf8_chars dest!: set_dropWhileD)
  then show ?thesis by simp
qed

lemma set_str_lines: "l \<in> set (str_lines s) \<Longrightarrow> set l \<subseteq> set s"
proof -
  have split: "l \<in> set (split_lines s) \<Longrightarrow> set l \<subseteq> set s" for l
  proof (induction s rule: split_lines.induct)
    case (1 s)
    show ?case
    proof (cases "s = []")
      case False
      from 1(2) False have "l = takeWhile (\<lambda>c. c \<noteq> CHR 0x0A) s \<or> l \<in> set (split_lines (tl (dropWhile (\<lambda>c. c \<noteq> CHR 0x0A) s)))"
        by (subst (asm) split_lines.simps) (simp add: Let_def)
      moreover have "set (tl (dropWhile (\<lambda>c. c \<noteq> CHR 0x0A) s)) \<subseteq> set s"
        by (metis list.set_sel(2) list.sel(2) set_dropWhileD subsetI)
      ultimately show ?thesis using 1(1) [OF refl refl False] by (auto dest: set_takeWhileD)
    qed (use 1(2) in \<open>simp add: split_lines.simps\<close>)
  qed
  assume "l \<in> set (str_lines s)"
  then obtain l' where l: "l' \<in> set (split_lines s)" "l = strip_cr l'" by (auto simp: str_lines_def)
  have "set (strip_cr l') \<subseteq> set l'" by (auto simp: strip_cr_def dest: in_set_butlastD)
  with split [OF l(1)] l(2) show "set l \<subseteq> set s" by blast
qed

lemma erase_lines:
  "\<forall>l \<in> set ls. ESC \<notin> set l \<Longrightarrow>
   strip_ansi (concat (map (\<lambda>l. write_timeline_pipe True @ ''   '' @ write_timeline_detail True (str_trim l) @ newline) ls) @ r) =
     concat (map (\<lambda>l. write_timeline_pipe False @ ''   '' @ write_timeline_detail False (str_trim l) @ newline) ls) @ strip_ansi r"
proof (induction ls)
  case (Cons l ls)
  then have "ESC \<notin> set (str_trim l)" using set_str_trim by fastforce
  with Cons show ?case by (simp add: erase)
qed simp

lemma erase_detail_lines [erase]:
  assumes "\<forall>d. detail = Some d \<longrightarrow> ESC \<notin> set d"
  shows "strip_ansi (write_detail_lines True detail) = write_detail_lines False detail"
proof (cases detail)
  case (Some d)
  then have "\<forall>l \<in> set (str_lines d). ESC \<notin> set l" using assms set_str_lines by blast
  from erase_lines [OF this, of "[]"] Some show ?thesis by (simp add: write_detail_lines_def)
qed (simp add: write_detail_lines_def)

text \<open>Nothing of an event contains an escape character, and its message is tidy.\<close>

definition visitor_clean :: "EventFieldVisitor \<Rightarrow> bool" where
  "visitor_clean v \<longleftrightarrow> (\<forall>m. ev_message v = Some m \<longrightarrow> ESC \<notin> set m \<and> tidy_message m) \<and>
     (\<forall>f \<in> set (ev_fields v). ESC \<notin> set f) \<and>
     (\<forall>x. ev_timeline_label v = Some x \<longrightarrow> ESC \<notin> set x) \<and> (\<forall>x. ev_timeline_status v = Some x \<longrightarrow> ESC \<notin> set x) \<and>
     (\<forall>x. ev_timeline_detail v = Some x \<longrightarrow> ESC \<notin> set x)"

fun field_text :: "field_value \<Rightarrow> string" where
  "field_text (Fv_Str s) = s"
| "field_text (Fv_Debug s) = s"

definition field_clean :: "string \<times> field_value \<Rightarrow> bool" where
  "field_clean f \<longleftrightarrow> ESC \<notin> set (fst f) \<and> ESC \<notin> set (field_text (snd f)) \<and> (fst f = ''message'' \<longrightarrow> tidy_message (field_text (snd f)))"

lemma set_normalize: "set (normalize_debug_value s) \<subseteq> set s"
  by (auto simp: normalize_debug_value_def dest: in_set_butlastD list.set_sel(2))

lemma visitor_clean_field: "visitor_clean v \<Longrightarrow> field_clean f \<Longrightarrow> visitor_clean (record_field f v)"
proof -
  assume v: "visitor_clean v" and f: "field_clean f"
  obtain name x where fx: "f = (name, x)" by (cases f)
  show "visitor_clean (record_field f v)"
  proof (cases x)
    case (Fv_Str s)
    with v f fx show ?thesis
      by (auto simp: visitor_clean_def field_clean_def record_timeline_field_def Let_def)
  next
    case (Fv_Debug s)
    with f fx have "ESC \<notin> set (normalize_debug_value s)" using set_normalize by (fastforce simp: field_clean_def)
    with v f fx Fv_Debug show ?thesis
      by (auto simp: visitor_clean_def field_clean_def record_timeline_field_def Let_def)
  qed
qed

lemma visitor_clean_fold: "visitor_clean v \<Longrightarrow> \<forall>f \<in> set fs. field_clean f \<Longrightarrow> visitor_clean (fold record_field fs v)"
  by (induction fs arbitrary: v) (simp_all add: visitor_clean_field)




section \<open>The timeline\<close>

text \<open>A run of timeline events: label, status and detail of each, from the state the last one left.\<close>

fun format_timeline :: "bool \<Rightarrow> (string \<times> string \<times> string option) list \<Rightarrow> TimelineRenderState \<Rightarrow> string \<times> TimelineRenderState" where
  "format_timeline ansi [] st = ([], st)"
| "format_timeline ansi ((label, status, detail) # es) st =
     (let (a, st1) = format_timeline_event ansi label status detail st; (b, st2) = format_timeline ansi es st1 in (a @ b, st2))"

text \<open>The timeline as it should look: one node for each stage, with the details of all its events below it, and a connector between the stages.\<close>

fun stages :: "(string \<times> string \<times> string option) list \<Rightarrow> (string \<times> string \<times> string option list) list" where
  "stages [] = []"
| "stages ((label, status, detail) # es) = (case stages es of
     (label', status', ds) # rest \<Rightarrow>
       if label' = label then (label, status, detail # ds) # rest
       else (label, status, [detail]) # (label', status', ds) # rest
   | [] \<Rightarrow> [(label, status, [detail])])"

definition stage_text :: "bool \<Rightarrow> string \<times> string \<times> string option list \<Rightarrow> string" where
  "stage_text ansi = (\<lambda>(label, status, ds).
     write_timeline_node ansi status @ '' '' @ write_timeline_label ansi label @ newline @ concat (map (write_detail_lines ansi) ds))"

definition timeline_text :: "bool \<Rightarrow> (string \<times> string \<times> string option list) list \<Rightarrow> string" where
  "timeline_text ansi ss = (case ss of [] \<Rightarrow> [] | s # rest \<Rightarrow>
     stage_text ansi s @ concat (map (\<lambda>s. write_timeline_pipe ansi @ newline @ stage_text ansi s) rest))"

lemma stages_Cons: "\<exists>status' ds rest. stages ((label, status, detail) # es) = (label, status', ds) # rest"
  by (auto split: list.split)

text \<open>After an event of some stage, what follows continues that stage or starts the next one.\<close>

definition continued :: "bool \<Rightarrow> string \<Rightarrow> (string \<times> string \<times> string option list) list \<Rightarrow> string" where
  "continued ansi label ss = (case ss of
     [] \<Rightarrow> []
   | (label', status', ds) # rest \<Rightarrow>
       (if label' = label then concat (map (write_detail_lines ansi) ds)
        else write_timeline_pipe ansi @ newline @ stage_text ansi (label', status', ds)) @
       concat (map (\<lambda>s. write_timeline_pipe ansi @ newline @ stage_text ansi s) rest))"

lemma format_timeline_continued:
  "fst (format_timeline ansi es \<lparr>tl_started = True, tl_last_label = Some label\<rparr>) = continued ansi label (stages es)"
proof (induction es arbitrary: label)
  case (Cons e es)
  obtain l s d where e: "e = (l, s, d)" by (cases e)
  have IH: "fst (format_timeline ansi es \<lparr>tl_started = True, tl_last_label = Some l\<rparr>) = continued ansi l (stages es)"
    by (rule Cons.IH)
  show ?case
    using IH unfolding e
    by (cases "stages es")
       (auto simp: format_timeline_event_def Let_def continued_def stage_text_def split: prod.splits)
qed (simp add: continued_def)

text \<open>
  The timeline is what it should be. For every sequence of timeline events from
  the start, what the formatter writes is one node for each stage (a maximal run of events
  with the same label), with the status of its first event, below it the details of all its events in order, and one connector
  between neighbouring stages: none before the first, none inside a stage.
\<close>

theorem timeline_shows_stages:
  "fst (format_timeline ansi es timeline_new) = timeline_text ansi (stages es)"
proof (cases es)
  case (Cons e rest)
  obtain l s d where e: "e = (l, s, d)" by (cases e)
  show ?thesis
    using format_timeline_continued [of ansi rest l] unfolding Cons e
    by (cases "stages rest")
       (auto simp: format_timeline_event_def timeline_new_def Let_def continued_def stage_text_def timeline_text_def
         split: prod.splits)
qed (simp add: timeline_text_def)

section \<open>Where the log goes\<close>

lemma init_action_logging_Ok:
  assumes "init_action_logging env level format color work_path = Ok logger"
  shows "lw_stdout_enabled (al_writer logger) = (format = ''text'')"
    and "lw_file (al_writer logger) = resolve_action_log_path env format work_path"
    and "al_ansi logger = (format = ''text'' \<and> color)"
    and "al_path logger = resolve_action_log_path env format work_path"
proof -
  from assms have "open_log_file env (resolve_action_log_path env format work_path) = Ok (lw_file (al_writer logger))"
    and rest: "lw_stdout_enabled (al_writer logger) = (format = ''text'')" "al_ansi logger = (format = ''text'' \<and> color)"
      "al_path logger = resolve_action_log_path env format work_path"
    by (auto simp: init_action_logging_def Let_def split: sum.splits if_splits)
  then show "lw_file (al_writer logger) = resolve_action_log_path env format work_path"
    by (auto simp: open_log_file_def split: option.splits sum.splits)
  show "lw_stdout_enabled (al_writer logger) = (format = ''text'')" "al_ansi logger = (format = ''text'' \<and> color)"
    "al_path logger = resolve_action_log_path env format work_path" using rest by simp_all
qed

lemma write_log_file_only:
  assumes "\<not> lw_stdout_enabled w" "lw_file w \<noteq> None"
  shows "lo_stdout (snd (write_log faults w buf out)) = lo_stdout out"
    and "\<exists>n \<le> length buf. lo_file (snd (write_log faults w buf out)) = lo_file out @ take n buf"
    and "fst (write_log faults w buf out) = Some n \<Longrightarrow> n = length buf \<and> lo_file (snd (write_log faults w buf out)) = lo_file out @ buf"
proof -
  show "lo_stdout (snd (write_log faults w buf out)) = lo_stdout out"
    using assms by (auto simp: write_log_def split: prod.split)
  show "\<exists>n \<le> length buf. lo_file (snd (write_log faults w buf out)) = lo_file out @ take n buf"
  proof (cases "lf_poisoned faults")
    case False
    have "\<exists>n \<le> length buf. take k buf = take n buf" for k
      by (cases "k \<le> length buf") auto
    with False assms show ?thesis by (auto simp: write_log_def put_all_def split: option.split)
  qed (use assms in \<open>auto simp: write_log_def\<close>)
  show "fst (write_log faults w buf out) = Some n \<Longrightarrow> n = length buf \<and> lo_file (snd (write_log faults w buf out)) = lo_file out @ buf"
    using assms by (auto simp: write_log_def put_all_def split: if_splits option.splits)
qed

text \<open>Writing a line and flushing fail at the same outputs.\<close>

lemma flush_log_write: "flush_log faults w \<longleftrightarrow> fst (write_log faults w buf out) = Some (length buf)"
  by (auto simp: flush_log_def write_log_def put_all_def split: option.split)

text \<open>The call in the entry of the process: always the format of files, never colour.\<close>

fun logging_error_text :: "LoggingInitError \<Rightarrow> string" where
  "logging_error_text (OpenFile path source) = ''failed to open action log file '' @ [CHR 0x27] @ path @ [CHR 0x27] @ '': '' @ source"
| "logging_error_text (Install e) = ''failed to initialize action logger: '' @ e"

definition process_logging :: "'f log_env \<Rightarrow> string \<Rightarrow> string \<Rightarrow> (string, unit) res" where
  "process_logging env level work_path = (case init_action_logging env level ''json'' False work_path of
     Inl e \<Rightarrow> Err (logging_error_text e)
   | Inr _ \<Rightarrow> Ok ())"

text \<open>
  A process that serves has its log in a file, and only there. If the servers
  run with a configuration, the logger was installed before, without colour, writing to the
  file that the environment names or to \<open>logs/mcp/actions.log\<close> below the final working path; none of its writes, failing
  or not, changes the standard output or what the file held before; and a write that reports success has appended exactly its bytes.
\<close>

theorem serving_process_logs_to_its_file:
  assumes "app_run env cli = (code, Some cfg)" "st_logging env = process_logging lenv"
  shows "\<exists>logger. init_action_logging lenv (unwrap_or ''info'' (cli_log_level cli)) ''json'' False (ac_work_path cfg) = Ok logger \<and>
    al_path logger = Some (unwrap_or (Path_join (Path_join (Path_join (ac_work_path cfg) ''logs'') ''mcp'') ''actions.log'')
      (le_var lenv ACTION_LOG_FILE_ENV)) \<and> lw_file (al_writer logger) = al_path logger \<and> \<not> al_ansi logger \<and>
    (\<forall>faults buf out. lo_stdout (snd (write_log faults (al_writer logger) buf out)) = lo_stdout out \<and>
      (\<exists>n \<le> length buf. lo_file (snd (write_log faults (al_writer logger) buf out)) = lo_file out @ take n buf) \<and>
      (\<forall>n. fst (write_log faults (al_writer logger) buf out) = Some n \<longrightarrow>
         n = length buf \<and> lo_file (snd (write_log faults (al_writer logger) buf out)) = lo_file out @ buf))"
proof -
  from assms obtain logger where
    l: "init_action_logging lenv (unwrap_or ''info'' (cli_log_level cli)) ''json'' False (ac_work_path cfg) = Ok logger"
    by (auto simp: app_run_def process_logging_def Let_def split: sum.splits)
  note w = init_action_logging_Ok [OF l]
  have path: "resolve_action_log_path lenv ''json'' (ac_work_path cfg) =
      Some (unwrap_or (Path_join (Path_join (Path_join (ac_work_path cfg) ''logs'') ''mcp'') ''actions.log'') (le_var lenv ACTION_LOG_FILE_ENV))"
    by (simp add: resolve_action_log_path_def split: option.split)
  have "\<not> lw_stdout_enabled (al_writer logger)" "lw_file (al_writer logger) \<noteq> None" using w path by simp_all
  note writes = write_log_file_only [OF this]
  show ?thesis
    by (rule exI [of _ logger], intro conjI allI impI) (use l w path writes in simp_all)
qed

definition sample_log_env :: "string log_env" where
  "sample_log_env = \<lparr>le_var = (\<lambda>_. None), le_default_filter = Err ''unset'', le_parse_filter = (\<lambda>s. Ok s), le_info_filter = ''info'',
     le_mkdir = (\<lambda>_. Ok ()), le_open = (\<lambda>_. Ok ()), le_install = Ok ()\<rparr>"

lemma sample_logging: "process_logging sample_log_env = (\<lambda>_ _. Ok ())"
  by (intro ext) (simp add: process_logging_def sample_log_env_def init_action_logging_def resolve_action_log_path_def open_log_file_def Let_def
      split: option.split)

theorem serving_process_logs_to_its_file_witness:
  "\<exists>logger. init_action_logging sample_log_env ''info'' ''json'' False ''/etc/build'' = Ok logger \<and>
    al_path logger = Some ''/etc/build/logs/mcp/actions.log''"
proof -
  have st: "st_logging sample_startup = process_logging sample_log_env" unfolding sample_logging by (simp add: sample_startup_def)
  have work: "ac_work_path (effective_config sample_cli \<lparr>lc_config = sample_app_config, lc_config_dir = ''/etc''\<rparr>) = ''/etc/build''"
    by (simp add: effective_config_def apply_cli_overrides_def override_workdir_def resolve_workpath_def Path_join_def
        Path_is_absolute_def starts_with_def sample_startup_defs)
  have env: "cli_log_level sample_cli = None" "le_var sample_log_env ACTION_LOG_FILE_ENV = None"
    by (simp_all add: sample_cli_def sample_log_env_def)
  have path: "Path_join (Path_join (Path_join ''/etc/build'' ''logs'') ''mcp'') ''actions.log'' = ''/etc/build/logs/mcp/actions.log''"
    by (simp add: Path_join_def Path_is_absolute_def starts_with_def)
  from serving_process_logs_to_its_file [OF sample_run st] show ?thesis
    unfolding work env unwrap_or_simps path by blast
qed

text \<open>In colour, blanks at the end of a message with a project name are lost: a tidy message is needed above.\<close>

lemma untidy_message_loses_blanks:
  "strip_ansi (write_message True ''[build] done: core '') = ''[build] done: core''"
proof -
  have "str_trim ''core '' = ''core''" by (simp add: str_trim_def is_white_def cont_byte_def)
  then show ?thesis
    by (simp add: write_message_def split_at_char_def starts_with_def write_stage_tail_def split_project_name_suffix_def
        write_highlighted_label_def colored_def)
qed

end
