(* ===== verification/Env_Carrier.thy ===== *)
theory Env_Carrier
  imports Prelude
begin

text \<open>
  The parameters handed to a client through its environment
  (\<open>src/session_manager/env_carrier.rs\<close>): writing them as variables, reading them
  back, and the placeholders of a command line.
\<close>

section \<open>Variables\<close>

definition MANAGER_URL :: string where "MANAGER_URL = ''V8_SESSION_MANAGER_URL''"
definition CLIENT_UID :: string where "CLIENT_UID = ''V8_SESSION_CLIENT_UID''"
definition KIND :: string where "KIND = ''V8_SESSION_KIND''"

record EnvCarrier =
  ec_manager_url :: string
  ec_client_uid :: string
  ec_kind :: string

definition to_env_pairs :: "EnvCarrier \<Rightarrow> (string \<times> string) list" where
  "to_env_pairs c = [(MANAGER_URL, ec_manager_url c), (CLIENT_UID, ec_client_uid c), (KIND, ec_kind c)]"

definition from_env_map :: "(string, string) btree_map \<Rightarrow> EnvCarrier option" where
  "from_env_map env =
     Option.bind (map_of env MANAGER_URL) (\<lambda>u.
     Option.bind (map_of env CLIENT_UID) (\<lambda>c.
     Option.bind (map_of env KIND) (\<lambda>k.
       Some \<lparr>ec_manager_url = u, ec_client_uid = c, ec_kind = k\<rparr>)))"

text \<open>\<open>var\<close> is \<open>std::env::var\<close>: absent also when the value is not valid text.\<close>

definition from_process_env :: "(string \<Rightarrow> string option) \<Rightarrow> EnvCarrier option" where
  "from_process_env var =
     Option.bind (var MANAGER_URL) (\<lambda>u.
     Option.bind (var CLIENT_UID) (\<lambda>c.
     Option.bind (var KIND) (\<lambda>k.
       Some \<lparr>ec_manager_url = u, ec_client_uid = c, ec_kind = k\<rparr>)))"

text \<open>The variables laid over an environment, as a child process gets them.\<close>

definition with_envs :: "(string \<times> string) list \<Rightarrow> (string, string) btree_map \<Rightarrow> (string, string) btree_map" where
  "with_envs pairs env = foldl (\<lambda>m e. bm_put (fst e) (snd e) m) env pairs"

lemma with_envs_carrier:
  "map_of (with_envs (to_env_pairs c) env) name =
     (if name = MANAGER_URL then Some (ec_manager_url c) else if name = CLIENT_UID then Some (ec_client_uid c)
      else if name = KIND then Some (ec_kind c) else map_of env name)"
  by (simp add: with_envs_def to_env_pairs_def map_laws MANAGER_URL_def CLIENT_UID_def KIND_def)

text \<open>
  A child reads back what the manager wrote. Over any environment, set or
  unset, reading the three variables from the map or from the process gives the same
  parameters; other variables are untouched; and parameters are read only where
  all three variables are present.
\<close>

theorem carrier_roundtrip:
  "from_env_map (with_envs (to_env_pairs c) env) = Some c \<and>
   from_process_env (map_of (with_envs (to_env_pairs c) env)) = Some c \<and>
   (\<forall>name. name \<noteq> MANAGER_URL \<and> name \<noteq> CLIENT_UID \<and> name \<noteq> KIND \<longrightarrow>
      map_of (with_envs (to_env_pairs c) env) name = map_of env name) \<and>
   (from_env_map env = None \<longleftrightarrow> (\<exists>name \<in> {MANAGER_URL, CLIENT_UID, KIND}. map_of env name = None))"
proof -
  have "from_env_map env = None \<longleftrightarrow> (\<exists>name \<in> {MANAGER_URL, CLIENT_UID, KIND}. map_of env name = None)"
    by (auto simp: from_env_map_def split: bind_splits)
  moreover have "from_env_map (with_envs (to_env_pairs c) env) = Some c"
      "from_process_env (map_of (with_envs (to_env_pairs c) env)) = Some c"
    by (simp_all add: from_env_map_def from_process_env_def with_envs_carrier)
      (simp_all add: MANAGER_URL_def CLIENT_UID_def KIND_def)
  ultimately show ?thesis by (simp add: with_envs_carrier)
qed

theorem carrier_roundtrip_witness:
  "map_of (with_envs (to_env_pairs \<lparr>ec_manager_url = ''u'', ec_client_uid = ''c'', ec_kind = ''k''\<rparr>) [(''PATH'', ''/bin'')]) ''PATH'' = Some ''/bin''"
  using carrier_roundtrip [of "\<lparr>ec_manager_url = ''u'', ec_client_uid = ''c'', ec_kind = ''k''\<rparr>" "[(''PATH'', ''/bin'')]"]
  by (simp add: MANAGER_URL_def CLIENT_UID_def KIND_def)

section \<open>Placeholders\<close>

text \<open>\<open>str::replace\<close>: matches from left to right, without overlap.\<close>

function str_replace :: "string \<Rightarrow> string \<Rightarrow> string \<Rightarrow> string" where
  "str_replace p v [] = []"
| "str_replace p v (c # cs) =
     (if p \<noteq> [] \<and> starts_with p (c # cs) then v @ str_replace p v (drop (length p) (c # cs))
      else c # str_replace p v cs)"
  by pat_completeness auto
termination
  by (relation "measure (\<lambda>(p, v, s). length s)") (auto simp: neq_Nil_conv)

definition interpolate :: "EnvCarrier \<Rightarrow> string \<Rightarrow> string" where
  "interpolate c s =
     str_replace ''${kind}'' (ec_kind c)
       (str_replace ''${client_uid}'' (ec_client_uid c)
         (str_replace ''${manager_url}'' (ec_manager_url c) s))"

text \<open>A template as its author means it: text, and the three placeholders.\<close>

datatype piece = Text string | Url | Uid | Kind_name

fun render :: "piece \<Rightarrow> string" where
  "render (Text s) = s"
| "render Url = ''${manager_url}''"
| "render Uid = ''${client_uid}''"
| "render Kind_name = ''${kind}''"

fun meant :: "EnvCarrier \<Rightarrow> piece \<Rightarrow> string" where
  "meant c (Text s) = s"
| "meant c Url = ec_manager_url c"
| "meant c Uid = ec_client_uid c"
| "meant c Kind_name = ec_kind c"

fun plain :: "piece \<Rightarrow> bool" where
  "plain (Text s) \<longleftrightarrow> CHR ''$'' \<notin> set s"
| "plain _ \<longleftrightarrow> True"

definition fill :: "piece \<Rightarrow> string \<Rightarrow> piece \<Rightarrow> piece" where
  "fill x v p = (if p = x then Text v else p)"

lemma str_replace_text:
  "CHR ''$'' \<notin> set s \<Longrightarrow> str_replace (CHR ''$'' # p) v (s @ rest) = s @ str_replace (CHR ''$'' # p) v rest"
  by (induction s) (auto simp: starts_with_def)

lemma str_replace_hit: "p \<noteq> [] \<Longrightarrow> str_replace p v (p @ rest) = v @ str_replace p v rest"
  by (cases p) (simp_all add: starts_with_def)

lemma str_replace_miss:
  assumes "CHR ''$'' \<notin> set q" "\<not> starts_with p (q @ rest)"
  shows "str_replace (CHR ''$'' # p) v (CHR ''$'' # q @ rest) = CHR ''$'' # q @ str_replace (CHR ''$'' # p) v rest"
  using assms(2) str_replace_text [OF assms(1)] by (simp add: starts_with_def)

lemma render_differ:
  assumes "x \<in> {Url, Uid, Kind_name}" "p \<in> {Url, Uid, Kind_name}" "p \<noteq> x"
  shows "\<not> starts_with (tl (render x)) (tl (render p) @ rest)"
  using assms by (auto simp: starts_with_def)

lemma render_dollar:
  assumes "x \<in> {Url, Uid, Kind_name}"
  shows "render x = CHR ''$'' # tl (render x)" "CHR ''$'' \<notin> set (tl (render x))"
  using assms by auto

lemma str_replace_piece:
  assumes "x \<in> {Url, Uid, Kind_name}" "plain p"
  shows "str_replace (render x) v (render p @ rest) = render (fill x v p) @ str_replace (render x) v rest"
proof (cases "p = x")
  case True
  have "render x \<noteq> []" using assms(1) by auto
  with True show ?thesis by (simp only: fill_def str_replace_hit render.simps if_True simp_thms)
next
  case False
  show ?thesis
  proof (cases "p \<in> {Url, Uid, Kind_name}")
    case True
    have "str_replace (render x) v (render p @ rest) = render p @ str_replace (render x) v rest"
      using str_replace_miss [OF render_dollar(2) [OF True] render_differ [OF assms(1) True False], of v]
        render_dollar(1) [OF True] render_dollar(1) [OF assms(1)] by (metis append_Cons)
    with False show ?thesis by (simp only: fill_def if_False)
  next
    case other: False
    then obtain s where "p = Text s" by (cases p) auto
    with False assms(2) str_replace_text [of s "tl (render x)" v rest] render_dollar(1) [OF assms(1)] show ?thesis
      by (simp add: fill_def)
  qed
qed

lemma str_replace_pieces:
  assumes "x \<in> {Url, Uid, Kind_name}" "\<forall>p \<in> set ps. plain p"
  shows "str_replace (render x) v (concat (map render ps)) = concat (map (\<lambda>p. render (fill x v p)) ps)"
  using assms(2) by (induction ps) (simp_all add: str_replace_piece [OF assms(1)])

text \<open>
  Placeholders are filled in as meant. For a template of text and
  placeholders, in any number and order, the interpolation replaces each placeholder by its value and keeps the
  text, as long as neither the text nor the address and the client id contain a dollar sign.
\<close>

theorem interpolation_fills_placeholders:
  assumes "\<forall>p \<in> set ps. plain p" "CHR ''$'' \<notin> set (ec_manager_url c)" "CHR ''$'' \<notin> set (ec_client_uid c)"
  shows "interpolate c (concat (map render ps)) = concat (map (meant c) ps)"
proof -
  define f where "f = fill Url (ec_manager_url c)"
  define g where "g = fill Uid (ec_client_uid c)"
  have pf: "\<forall>p \<in> set (map f ps). plain p" using assms(1,2) by (auto simp: f_def fill_def)
  then have pg: "\<forall>p \<in> set (map (g \<circ> f) ps). plain p" using assms(3) by (auto simp: g_def fill_def)
  have "interpolate c (concat (map render ps)) = concat (map (\<lambda>p. render (fill Kind_name (ec_kind c) (g (f p)))) ps)"
    using str_replace_pieces [OF _ assms(1), of Url "ec_manager_url c"] str_replace_pieces [OF _ pf, of Uid "ec_client_uid c"]
      str_replace_pieces [OF _ pg, of Kind_name "ec_kind c"]
    by (simp add: interpolate_def f_def g_def comp_def)
  moreover have "render (fill Kind_name (ec_kind c) (g (f p))) = meant c p" if "p \<in> set ps" for p
    by (cases p) (simp_all add: f_def g_def fill_def)
  ultimately show ?thesis by (simp cong: map_cong)
qed

theorem interpolation_fills_placeholders_witness:
  "interpolate \<lparr>ec_manager_url = ''ws'', ec_client_uid = ''u1'', ec_kind = ''mock''\<rparr>
     (concat (map render [Text ''--url='', Url, Text '' --uid='', Uid, Text '' '', Kind_name])) = ''--url=ws --uid=u1 mock''"
  by (subst interpolation_fills_placeholders) simp_all

text \<open>Without the condition a value is itself taken as a template: a client id can name the placeholder of the kind.\<close>

lemma values_are_interpolated_again:
  "interpolate \<lparr>ec_manager_url = ''ws'', ec_client_uid = ''${kind}'', ec_kind = ''mock''\<rparr> ''--uid=${client_uid}'' = ''--uid=mock''"
  by (simp add: interpolate_def starts_with_def)

end
