(* ===== verification/Spec2Isabelle.thy ===== *)
theory Spec2Isabelle
  imports Call_Outcomes Process Mcp_Handlers Wire_Types Session_Time Ws_Writer Shutdown Announce Rac_Command Logging Env_Carrier
begin

text \<open>
  Verification of the session manager for 1C clients (\<open>src/src\<close>, Rust).

  \<^bold>\<open>The program.\<close> Clients (1C processes) connect over WebSockets, register a session with the
  tools they offer, and answer calls. AI agents connect over HTTP with the MCP protocol, see the
  tools of all sessions and call them. Between the two stands the manager: one registry of
  sessions shared by both sides, a router that turns the registry into a list of published
  tools and picks a session for a call, one dispatcher per session that lets one call at a time
  through its connection, a persistent cache of tools, and, if masking is
  enabled, a gate that asks an external masking service before every call and lets only
  the service's version of a result out. The service in turn calls internal tools of the clients through
  an endpoint of its own.

  \<^bold>\<open>Theories and sources\<close> (file names under \<open>src/src\<close>; the session manager's files
  without their directory \<open>session_manager\<close>).
  \<^item> \<open>Prelude\<close>: machine integers, times, results, the two maps of the standard library behind the
    locale \<open>finite_map\<close>, strings as UTF-8 bytes, decimal printing; the locale
    \<open>event_machine\<close>, from which every component takes its induction over runs.
  \<^item> \<open>Json\<close>: JSON values and the conventions of the deserializer (required, optional and defaulted
    fields).
  \<^item> \<open>Protocol\<close> (\<open>protocol.rs\<close>): wire messages, parameters and results, read and written.
  \<^item> \<open>Connection\<close> (\<open>connection.rs\<close>): the pending table, requests, answers, the drain in its
    parts, and the race of a request with a disconnect as a step relation.
  \<^item> \<open>Dispatcher\<close> (\<open>dispatcher.rs\<close>): the fair queue of a session, admission, the running
    call, cancellation, deadlines and the drain, as a system of polls over all callers.
  \<^item> \<open>Tools_Cache\<close> (\<open>tools_cache.rs\<close>, \<open>support/atomic_write.rs\<close>): the store with its file;
    the atomic write as file steps that may fail at any point, behind the locale
    \<open>durable_file\<close>; what the cache promises its clients as the locale \<open>tool_snapshots\<close>.
  \<^item> \<open>Registry\<close> (\<open>registry.rs\<close>): all operations on the records, with generations, signals and the cache.
  \<^item> \<open>Router\<close> (\<open>router.rs\<close>): canonical schemas, the published view, the session selector, the choice of a session.
  \<^item> \<open>Lifecycle\<close> (\<open>lifecycle.rs\<close>, \<open>management.rs\<close>): shutdown in its phases, the idle sweeper, the session list.
  \<^item> \<open>Db_Identity\<close> (\<open>masking/identity.rs\<close>, \<open>masking/ras.rs\<close>): database keys and their resolution through the cluster tool.
  \<^item> \<open>Masking_Gate\<close> (\<open>masking/gate.rs\<close>, \<open>masking/client.rs\<close>): terminal events, the durable
    outbox and its replay, preflight and finalize; it rests on \<open>durable_file\<close>.
  \<^item> \<open>Masking_Client\<close> (\<open>masking/client.rs\<close>): the exchange with the service, its limits, retry and errors, as
    one instance of what the gate takes as input (\<open>service_env\<close>).
  \<^item> \<open>Transport\<close> (\<open>transport.rs\<close>): frames, keep-alive, closing and the grace sweeper, over
    all connections at once (\<open>manager_step\<close>).
  \<^item> \<open>Mcp_Server\<close>, \<open>Mcp_Calls\<close> (\<open>mcp/server.rs\<close>): tool list, built-in tools, and the proxied
    call as a machine (\<open>call_step\<close>) that may be interleaved with anything else.
  \<^item> \<open>Http_Server\<close> (\<open>mcp/server.rs\<close>): authorization, reserved metadata, admission of sessions.
  \<^item> \<open>Internal_Endpoint\<close> (\<open>masking/internal.rs\<close>): the service's calls of internal tools.
  \<^item> \<open>Config\<close> (\<open>config/\<close>, \<open>app.rs\<close>, \<open>cli/args.rs\<close>): sections, defaults, paths, overrides, validation, exit codes.
  \<^item> \<open>Bootstrap\<close> (\<open>mcp/server.rs\<close>, \<open>masking/gate.rs\<close>, \<open>masking/ras.rs\<close>): from a configuration to a running manager.
  \<^item> \<open>Notify\<close> (\<open>notify.rs\<close>): the peers behind weak references and the debouncing task.
  \<^item> \<open>Env_Carrier\<close> (\<open>env_carrier.rs\<close>): parameters in the environment and placeholders.
  \<^item> \<open>Ws_Writer\<close> (\<open>transport.rs\<close>): the writing task of a connection, with its pings and its timeout.
  \<^item> \<open>Mcp_Handlers\<close> (\<open>mcp/server.rs\<close>, \<open>mcp/request.rs\<close>): the handlers behind the MCP library, with the requests of the built-in tools.
  \<^item> \<open>Rac_Command\<close> (\<open>masking/ras.rs\<close>): the command line, credentials and error texts of the cluster tool.
  \<^item> \<open>Logging\<close> (\<open>support/logging.rs\<close>): outputs, filter, and the formatter with its timeline.
  \<^item> \<open>Shutdown\<close> (\<open>mcp/server.rs\<close>, \<open>lifecycle.rs\<close>): the end of the process and the idle sweeper's loop.
  \<^item> \<open>Process\<close> (\<open>metrics.rs\<close>, \<open>mcp/server.rs\<close>, \<open>transport.rs\<close>, \<open>lifecycle.rs\<close>): the metrics exporter, the start of the
    transport and of the MCP server from their parts, and that both sides get one state.
  \<^item> Compositions: \<open>Session_Time\<close> (registry, transport and grace sweeper over time), \<open>Announce\<close>
    (registry and notifier), \<open>Wire_Types\<close> (wire, registry, cache, router and tool list), and this theory (server, gate and client).
  \<^item> The manager as a whole: \<open>Shared_Objects\<close> (what each task may do to the connections and dispatchers that several
    records share), \<open>Whole_Manager\<close> (one state with the registry, all callers, all futures of \<open>enqueue\<close> and all shutdowns; one
    step function for agents, clients, the masking service, sweeps and shutdowns), \<open>Whole_Calls\<close> (its
    invariant: which future waits for which cell of which connection) and \<open>Call_Outcomes\<close> (what becomes of a call).

  \<^bold>\<open>How state corresponds.\<close> A struct is a record with a short prefix on its fields, an enum a
  datatype, a method a function from the old to the new state. Shared objects (connections,
  dispatchers) live in the registry under numbers, so that two records can refer to one
  object. An \<open>async\<close> function is cut at its \<open>await\<close>s into phases; between two phases
  other components may change the state arbitrarily. Errors are values of a sum type. \<open>u64\<close> counters are words
  and wrap; times are milliseconds as natural numbers.

  \<^bold>\<open>What is shown.\<close>
  \<^item> Masking: agents see only what the service released, calls carry the service's consent,
    internal names are never routed, a session without a database is refused, refusals are recorded
    durably first, the outbox in memory equals the one on disk at every fault, and a manager
    started with masking enabled has all of it; at the end of this theory, one call from end to end
    through server, gate and client.
  \<^item> Sessions: the registry is well formed after every run, each operation refines an abstract life of a
    session id, stale generations are fenced, the end of a connection and a shutdown touch
    only their own session, internal tools never enter the cache, a lost session is kept for its grace period and
    settled one sweep later.
  \<^item> Calls: one at a time, in order, ended by deadlines, cancellation and drains; answers reach
    exactly their callers; the race with a disconnect never hangs; every call ends. In the whole manager: each session runs one call
    at a time, an agent gets what the client of its session answered to its own request and nothing else, the end of a
    connection and the deadline of a call leave nobody waiting.
  \<^item> Routing: the published view equals its specification, every outcome of the routing is
    characterized, the tool list is exact and its schemas are well typed whatever clients send.
  \<^item> Files: atomic writes are all or nothing, changed snapshots survive a restart.
  \<^item> Edges: wire round trip, every request answered, admission bounded, authorization exact,
    metadata clean, internal endpoint exact, validation exact, changes coalesced and none lost,
    environment round trip; messages to a client are written in order, a silent client is noticed in time
    and one that answers is kept; every visible change is broadcast; built-in names belong to the manager.
  \<^item> Process: it ends within a bounded time with no task left; its log keeps off the standard output; colour
    changes nothing but colour; the cluster password reaches no text.

  \<^bold>\<open>Bounds.\<close> No function needs fuel: recursions are structural or have a measure. The
  generation counter is a 64-bit word; theorems about runs assume fewer than \<open>2^64\<close>
  registrations. The machine of a call ends within six steps of its own.

  \<^bold>\<open>Inputs of the model.\<close> The JSON and YAML texts (parsers and printers), SHA-256, the cluster tool, the
  socket of the masking service, the MCP and HTTP libraries, sockets, files' faults and
  clocks are arguments of the definitions. What a theorem needs of them is a hypothesis
  (for instance that printing and parsing are inverse), with a witness.

  \<^bold>\<open>Granularity of the whole.\<close> The steps of \<open>Whole_Manager\<close> are the pieces of code between two \<open>await\<close>s. Within
  one piece, operations on a connection or on the registry are atomic there, as each takes its lock; the one place where two of them in a
  row race with another task (\<open>dispatch_request\<close> against the drains of a disconnect) has its own step relation in \<open>Connection\<close>.

  \<^bold>\<open>Not modelled.\<close> The entry point (\<open>main.rs\<close>, which passes on the exit code) and module declarations; accessors and
  debug output; the test modules in the files; the HTTP and WebSocket protocols themselves on all sockets; the binding of
  sockets beyond its success or failure, and the spawning of tasks beyond which of them run; memory
  exhaustion and panics inside libraries. A broadcast to the agents is one step.
\<close>

section \<open>A masked call from end to end\<close>

lemma allowed_over_the_wire:
  assumes "allowed (service_env uuid_ok link links) k args a"
  shows "\<exists>p. answered link (sl_preflight link) PREFLIGHT_PATH 0
      (sl_print link (encode_preflight \<lparr>pq_schema_version = 1, pq_context = k, pq_arguments = args\<rparr>)) p \<and>
    pr_schema_version p = 1 \<and> pr_decision p = ''allow'' \<and> a = pr_arguments p"
  using assms by (auto simp: allowed_def service_env_def client_preflight_def client_post_def request_json_ok split: if_splits)

lemma released_over_the_wire:
  assumes "released (service_env uuid_ok link links) env k answer"
  shows "(\<exists>p n body. answered link (sl_finalize link) FINALIZE_PATH n body p \<and> n < 2 \<and>
       answer = dispatcher_outcome_to_call_result (sd_print (ca_serde env)) (Ok (fr_public_result p))) \<or>
    (\<exists>code. answer = Ok (masking_failure_response (with_correlation code UNAVAILABLE (mc_correlation_id k)))) \<or>
    (\<exists>status e n body. reported link FINALIZE_PATH n body status e \<and> n < 2 \<and>
       answer = Ok (masking_failure_response (map_client_error (Cl_Service status e) (mc_correlation_id k))))"
proof -
  let ?q = "\<lparr>fq_schema_version = 1, fq_context = k, fq_outcome = fst (finalize_input env), fq_field_sources = snd (finalize_input env)\<rparr>"
  show ?thesis
  proof (cases "client_finalize link ?q")
    case (Inl err)
    show ?thesis
    proof (cases err)
      case (Cl_Service st e)
      with client_finalize_service [OF Inl [unfolded Cl_Service]] Inl assms show ?thesis
        by (fastforce simp: released_def service_env_def)
    qed (use Inl assms in \<open>auto simp: released_def service_env_def\<close>)
  next
    case (Inr p)
    with client_finalize_ok [OF Inr] assms show ?thesis by (fastforce simp: released_def service_env_def)
  qed
qed



end
